(* ===== verification/Prelude.thy ===== *)
theory Prelude
  imports Main "HOL-Library.Word"
begin

text \<open>
  The names every other theory shares: the machine integers of the Go source, the
  collections of rewrite rules that the component theories fill, and the generic facts
  on lists, maps and words that more than one component needs.

  Go's \<open>byte\<close>, \<open>uint16\<close>, \<open>uint32\<close> and \<open>uint64\<close> are words of that
  width, so that their arithmetic wraps as the program's does; \<open>int16\<close> is a 16-bit
  word read with \<^const>\<open>sint\<close>. Go's \<open>int\<close> (64 bits on every platform the
  program is built for) is the type \<^typ>\<open>int\<close>: its values here are sample values,
  lengths and status codes, which stay far below \<open>2 ^ 63\<close>. A \<open>time.Duration\<close> and
  a point in time are \<^typ>\<open>int\<close> nanoseconds.
\<close>

unbundle bit_operations_syntax

type_synonym byte = "8 word"
type_synonym i16 = "16 word"
type_synonym u16 = "16 word"
type_synonym u32 = "32 word"
type_synonym u64 = "64 word"
type_synonym time = int
type_synonym duration = int

named_theorems rtp_defs \<open>definitions of the RTP stream, unfolded together\<close>
named_theorems call_defs \<open>definitions of the call's critical sections, unfolded together\<close>

section \<open>Results with an error\<close>

text \<open>A Go function that returns \<open>(T, error)\<close> returns \<open>Inl\<close> of the error or \<open>Inr\<close> of the value.\<close>

definition is_ok :: "'e + 'a \<Rightarrow> bool" where
  "is_ok r \<longleftrightarrow> (case r of Inl _ \<Rightarrow> False | Inr _ \<Rightarrow> True)"

lemma is_ok_simps [simp]: "is_ok (Inr x)" "\<not> is_ok (Inl e)"
  by (simp_all add: is_ok_def)

section \<open>Lists\<close>

lemma list_all_upt: "list_all P [0..<n] \<longleftrightarrow> (\<forall>i<n. P i)"
  by (auto simp: list_all_iff)

lemma nth_map_upt_add: "i < n \<Longrightarrow> map f [a..<a + n] ! i = f (a + i)"
  by simp

lemma take_append_exact: "length xs = n \<Longrightarrow> take n (xs @ ys) = xs"
  by simp

lemma drop_append_exact: "length xs = n \<Longrightarrow> drop n (xs @ ys) = ys"
  by simp

section \<open>Words\<close>

lemma word_of_int_sint [simp]: "word_of_int (sint (w :: 'a::len word)) = w"
  by simp

lemma sint16_bounds: "- 32768 \<le> sint (w :: i16)" "sint (w :: i16) \<le> 32767"
  using sint_ge [of w] sint_lt [of w] by simp_all

lemma sint16_of_int:
  assumes "- 32768 \<le> x" and "x \<le> 32767"
  shows "sint (word_of_int x :: i16) = x"
  using assms by (simp add: sint_sbintrunc' signed_take_bit_int_eq_self)

lemma uint8_less: "uint (b :: byte) < 256"
  using uint_lt2p [of b] by simp

lemma byte_cases:
  assumes "\<And>i. i < 256 \<Longrightarrow> P (word_of_nat i :: byte)"
  shows "P b"
proof -
  have "unat b < 256"
    using unsigned_less [of b] by simp
  then have "P (word_of_nat (unat b))"
    by (rule assms)
  then show ?thesis by simp
qed

section \<open>Evaluation over small ranges\<close>

text \<open>Rewriting an enumerated range to its list, for statements checked value by value.\<close>

lemma upt_0_numeral: "[0..<numeral n] = 0 # [Suc 0..<numeral n]"
  by (simp add: upt_conv_Cons)
lemma upt_1_numeral: "[Suc 0..<numeral (Num.Bit0 n)] = Suc 0 # [2..<numeral (Num.Bit0 n)]"
  by (metis One_nat_def Suc_1 le_numeral_extra(4) numeral_eq_one_iff one_le_numeral order_le_less semiring_norm(83) upt_conv_Cons)
lemmas upt_expand = upt_0_numeral upt_1_numeral upt_rec_numeral

lemma and_15: "x AND 15 = x mod (16 :: int)"
proof -
  have "x AND 15 = x AND mask 4" by (simp add: mask_eq_exp_minus_1)
  also have "\<dots> = take_bit 4 x" by (rule take_bit_eq_mask [symmetric])
  also have "\<dots> = x mod 16" by (simp add: take_bit_eq_mod)
  finally show ?thesis .
qed

lemma mod_16_second: "16 \<le> q \<Longrightarrow> q < 32 \<Longrightarrow> q mod 16 = q - (16 :: int)"
  by presburger


section \<open>Shifts and masks on \<open>int\<close>\<close>

text \<open>The four bits below the leading one of \<open>v\<close>: the mantissa of a segmented code.\<close>

lemma mantissa:
  fixes v :: int
  assumes "2 ^ (k + 4) \<le> v" and "v < 2 ^ (k + 5)"
  shows "\<exists>m<16. drop_bit k v AND 0x0F = int m \<and> 2 ^ k * (16 + int m) \<le> v \<and> v < 2 ^ k * (17 + int m)"
proof -
  let ?p = "2 ^ k :: int"
  let ?q = "v div ?p"
  have p: "0 < ?p" by simp
  have "16 * ?p \<le> v" "v < 32 * ?p"
    using assms by (simp_all add: power_add)
  have "?p * ?q + v mod ?p = v" by simp
  moreover have "0 \<le> v mod ?p" "v mod ?p < ?p" using p by simp_all
  moreover have "?p * (?q + 1) = ?p * ?q + ?p" by (simp add: distrib_left)
  ultimately have split: "?p * ?q \<le> v" "v < ?p * (?q + 1)" by linarith+
  have q: "16 \<le> ?q" "?q < 32"
  proof -
    have "16 * ?p < ?p * (?q + 1)" using split \<open>16 * ?p \<le> v\<close> by linarith
    then show "16 \<le> ?q" using p by (simp add: mult.commute)
    have "?p * ?q < ?p * 32" using split \<open>v < 32 * ?p\<close> by linarith
    then show "?q < 32" using p by simp
  qed
  then obtain m where m: "?q = 16 + int m" "m < 16"
    by (metis add.commute diff_add_cancel diff_ge_0_iff_ge nat_0_le nat_less_iff
        add_less_cancel_left numeral_Bit0 of_nat_less_iff of_nat_numeral)
  then have "?q mod 16 = int m" by simp
  with m split show ?thesis
    by (intro exI [of _ m]) (simp add: and_15 drop_bit_eq_div add.commute)
qed

end
