(* ===== verification/G711.thy ===== *)
theory G711
  imports Prelude
begin

text \<open>
  G.711 companding, \<open>media/g711.go\<close>: the \<open>\<mu>\<close>-law and A-law encoders and decoders.
  The code computes on Go's \<open>int\<close> and converts to \<open>byte\<close> or \<open>int16\<close> at the
  end; so do these definitions, with the same shifts and masks.
\<close>

section \<open>The code\<close>

definition segUEnd :: "int list" where
  "segUEnd = [0x3F, 0x7F, 0xFF, 0x1FF, 0x3FF, 0x7FF, 0xFFF, 0x1FFF]"

definition segAEnd :: "int list" where
  "segAEnd = [0x1F, 0x3F, 0x7F, 0xFF, 0x1FF, 0x3FF, 0x7FF, 0xFFF]"

text \<open>The loop of \<open>segment\<close>: the index of the first end at or above \<open>v\<close>, else 8.\<close>

fun segment_from :: "nat \<Rightarrow> int \<Rightarrow> int list \<Rightarrow> nat" where
  "segment_from i v [] = 8"
| "segment_from i v (e # es) = (if v \<le> e then i else segment_from (Suc i) v es)"

definition segment :: "int \<Rightarrow> int list \<Rightarrow> nat" where
  "segment v ends = segment_from 0 v ends"

definition UlawEncode :: "i16 \<Rightarrow> byte" where
  "UlawEncode sample =
     (let v0 = drop_bit 2 (sint sample);
          sgnmask = (if v0 < 0 then 0x7F else 0xFF :: int);
          v1 = (if v0 < 0 then - v0 else v0);
          v2 = (if v1 > 8159 then 8159 else v1);
          v = v2 + drop_bit 2 0x84;
          seg = segment v segUEnd
      in if seg \<ge> 8 then word_of_int (0x7F XOR sgnmask)
         else word_of_int ((push_bit 4 (int seg) OR (drop_bit (seg + 1) v AND 0x0F)) XOR sgnmask))"

definition ulawDecode :: "byte \<Rightarrow> i16" where
  "ulawDecode u0 =
     (let u = NOT u0;
          t0 = push_bit 3 (uint (u AND 0x0F)) + 0x84;
          t = push_bit (unat (drop_bit 4 (u AND 0x70))) t0
      in if u AND 0x80 \<noteq> 0 then word_of_int (0x84 - t) else word_of_int (t - 0x84))"

definition AlawEncode :: "i16 \<Rightarrow> byte" where
  "AlawEncode sample =
     (let v0 = drop_bit 3 (sint sample);
          sgnmask = (if v0 < 0 then 0x55 else 0xD5 :: int);
          v = (if v0 < 0 then - v0 - 1 else v0);
          seg = segment v segAEnd
      in if seg \<ge> 8 then word_of_int (0x7F XOR sgnmask)
         else (let a0 = push_bit 4 (int seg);
                   a = (if seg < 2 then a0 OR (drop_bit 1 v AND 0x0F)
                        else a0 OR (drop_bit seg v AND 0x0F))
               in word_of_int (a XOR sgnmask)))"

definition alawDecode :: "byte \<Rightarrow> i16" where
  "alawDecode a0 =
     (let a = a0 XOR 0x55;
          t0 = push_bit 4 (uint (a AND 0x0F));
          seg = nat (drop_bit 4 (uint (a AND 0x70)));
          t = (case seg of 0 \<Rightarrow> t0 + 8
                 | Suc 0 \<Rightarrow> t0 + 0x108
                 | Suc k \<Rightarrow> push_bit (seg - 1) (t0 + 0x108))
      in if a AND 0x80 \<noteq> 0 then word_of_int t else word_of_int (- t))"

text \<open>
  The tables that \<open>init\<close> fills and that the exported decoders index with a byte.
\<close>

definition ulawTable :: "i16 list" where
  "ulawTable = map (\<lambda>i. ulawDecode (word_of_nat i)) [0..<256]"

definition alawTable :: "i16 list" where
  "alawTable = map (\<lambda>i. alawDecode (word_of_nat i)) [0..<256]"

definition UlawDecode :: "byte \<Rightarrow> i16" where
  "UlawDecode u = ulawTable ! unat u"

definition AlawDecode :: "byte \<Rightarrow> i16" where
  "AlawDecode a = alawTable ! unat a"

lemma UlawDecode_eq: "UlawDecode u = ulawDecode u"
proof -
  have "unat u < 256" using unsigned_less [of u] by simp
  then show ?thesis by (simp add: UlawDecode_def ulawTable_def)
qed

lemma AlawDecode_eq: "AlawDecode u = alawDecode u"
proof -
  have "unat u < 256" using unsigned_less [of u] by simp
  then show ?thesis by (simp add: AlawDecode_def alawTable_def)
qed


section \<open>\<open>\<mu>\<close>-law: the code as segment and mantissa\<close>

lemma ulaw_segment:
  assumes "33 \<le> v" and "v \<le> 8191"
  shows "\<exists>seg<8. segment v segUEnd = seg \<and> 2 ^ (seg + 5) \<le> v \<and> v < 2 ^ (seg + 6)"
  using assms by (auto simp: segment_def segUEnd_def)

lemma ulaw_values:
  "list_all (\<lambda>seg. list_all (\<lambda>m.
     ulawDecode (word_of_int ((push_bit 4 (int seg) OR int m) XOR 0xFF)) =
       word_of_int ((int m * 8 + 132) * 2 ^ seg - 132) \<and>
     ulawDecode (word_of_int ((push_bit 4 (int seg) OR int m) XOR 0x7F)) =
       word_of_int (132 - (int m * 8 + 132) * 2 ^ seg)) [0..<16]) [0..<8]"
  by (simp only: upt_expand) (simp add: ulawDecode_def mask_eq_exp_minus_1)

lemma ulaw_code:
  assumes "33 \<le> v" and "v \<le> 8192"
  shows "\<exists>seg<8. \<exists>m<16.
    (if segment v segUEnd \<ge> 8 then word_of_int (0x7F XOR k)
     else word_of_int ((push_bit 4 (int (segment v segUEnd)) OR
            (drop_bit (segment v segUEnd + 1) v AND 0x0F)) XOR k))
      = (word_of_int ((push_bit 4 (int seg) OR int m) XOR k) :: byte) \<and>
    2 ^ (seg + 1) * (16 + int m) \<le> min v 8191 \<and> min v 8191 < 2 ^ (seg + 1) * (17 + int m)"
proof (cases "v = 8192")
  case True
  then show ?thesis
    by (intro exI [of _ 7] conjI exI [of _ 15]) (simp_all add: segment_def segUEnd_def)
next
  case False
  with assms obtain seg where seg: "seg < 8" "segment v segUEnd = seg"
      "2 ^ (seg + 5) \<le> v" "v < 2 ^ (seg + 6)"
    using ulaw_segment [of v] by auto
  with mantissa [of "seg + 1" v] False assms(2) show ?thesis
    by (intro exI [of _ seg]) (auto simp: min_def ac_simps)
qed

lemma ulaw_decode_code:
  assumes "seg < 8" and "m < 16"
  shows "sint (ulawDecode (word_of_int ((push_bit 4 (int seg) OR int m) XOR 0xFF))) =
      (int m * 8 + 132) * 2 ^ seg - 132"
    and "sint (ulawDecode (word_of_int ((push_bit 4 (int seg) OR int m) XOR 0x7F))) =
      132 - (int m * 8 + 132) * 2 ^ seg"
proof -
  have e: "ulawDecode (word_of_int ((push_bit 4 (int seg) OR int m) XOR 0xFF)) =
         word_of_int ((int m * 8 + 132) * 2 ^ seg - 132)"
       "ulawDecode (word_of_int ((push_bit 4 (int seg) OR int m) XOR 0x7F)) =
         word_of_int (132 - (int m * 8 + 132) * 2 ^ seg)"
    using ulaw_values assms by (auto simp only: list_all_upt)
  define d where "d = (int m * 8 + 132) * 2 ^ seg"
  have "0 \<le> d" by (simp add: d_def)
  moreover have "d \<le> 252 * 2 ^ 7"
    unfolding d_def using assms by (intro mult_mono power_increasing) auto
  ultimately show
    "sint (ulawDecode (word_of_int ((push_bit 4 (int seg) OR int m) XOR 0xFF))) =
      (int m * 8 + 132) * 2 ^ seg - 132"
    "sint (ulawDecode (word_of_int ((push_bit 4 (int seg) OR int m) XOR 0x7F))) =
      132 - (int m * 8 + 132) * 2 ^ seg"
    unfolding e d_def [symmetric] by - (rule sint16_of_int; simp)+
qed

definition ulaw_biased :: "int \<Rightarrow> int" where
  "ulaw_biased s = min (if s < 0 then - (s div 4) else s div 4) 8159 + 33"

lemma UlawEncode_code:
  "\<exists>seg<8. \<exists>m<16.
    UlawEncode s = word_of_int ((push_bit 4 (int seg) OR int m) XOR (if sint s < 0 then 0x7F else 0xFF)) \<and>
    2 ^ (seg + 1) * (16 + int m) \<le> min (ulaw_biased (sint s)) 8191 \<and>
    min (ulaw_biased (sint s)) 8191 < 2 ^ (seg + 1) * (17 + int m)"
proof -
  have neg: "sint s div 4 < 0 \<longleftrightarrow> sint s < 0" and drop: "drop_bit 2 (sint s) = sint s div 4"
    by (simp_all add: drop_bit_eq_div pos_imp_zdiv_neg_iff)
  have v: "33 \<le> ulaw_biased (sint s)" "ulaw_biased (sint s) \<le> 8192"
    by (auto simp: ulaw_biased_def min_def)
  have e: "UlawEncode s =
      (if segment (ulaw_biased (sint s)) segUEnd \<ge> 8
       then word_of_int (0x7F XOR (if sint s < 0 then 0x7F else 0xFF))
       else word_of_int ((push_bit 4 (int (segment (ulaw_biased (sint s)) segUEnd)) OR
         (drop_bit (segment (ulaw_biased (sint s)) segUEnd + 1) (ulaw_biased (sint s)) AND 0x0F))
           XOR (if sint s < 0 then 0x7F else 0xFF)))"
    by (simp add: UlawEncode_def Let_def neg drop ulaw_biased_def min_def)
  show ?thesis
    unfolding e by (rule ulaw_code [OF v])
qed

text \<open>The quantisation step doubles with each segment.\<close>

lemma ulaw_error:
  "32 * \<bar>sint (ulawDecode (UlawEncode s)) - sint s\<bar> \<le> \<bar>sint s\<bar> + 231"
proof -
  let ?s = "sint s"
  let ?v = "ulaw_biased ?s"
  obtain seg m where seg: "seg < 8" and m: "m < 16"
    and enc: "UlawEncode s = word_of_int ((push_bit 4 (int seg) OR int m) XOR (if ?s < 0 then 0x7F else 0xFF))"
    and lo: "2 ^ (seg + 1) * (16 + int m) \<le> min ?v 8191"
    and hi: "min ?v 8191 < 2 ^ (seg + 1) * (17 + int m)"
    using UlawEncode_code [of s] by auto
  have b: "- 32768 \<le> ?s" "?s \<le> 32767" by (rule sint16_bounds)+
  have dec: "sint (ulawDecode (UlawEncode s)) =
      (if ?s < 0 then 132 - (int m * 8 + 132) * 2 ^ seg else (int m * 8 + 132) * 2 ^ seg - 132)"
    using ulaw_decode_code [OF seg m] by (simp add: enc)
  from seg consider "seg = 0" | "seg = 1" | "seg = 2" | "seg = 3" | "seg = 4" | "seg = 5" | "seg = 6" | "seg = 7"
    by linarith
  then show ?thesis
    by cases (use lo hi b m in \<open>simp add: dec ulaw_biased_def min_def abs_if split: if_splits; linarith\<close>)+
qed

section \<open>A-law: the code as segment and mantissa\<close>

lemma alaw_values:
  "list_all (\<lambda>seg. list_all (\<lambda>m.
     alawDecode (word_of_int ((push_bit 4 (int seg) OR int m) XOR 0xD5)) =
       word_of_int (if seg = 0 then int m * 16 + 8 else (int m * 16 + 264) * 2 ^ (seg - 1)) \<and>
     alawDecode (word_of_int ((push_bit 4 (int seg) OR int m) XOR 0x55)) =
       word_of_int (- (if seg = 0 then int m * 16 + 8 else (int m * 16 + 264) * 2 ^ (seg - 1)))) [0..<16]) [0..<8]"
  by (simp only: upt_expand) (simp add: alawDecode_def mask_eq_exp_minus_1)

definition alaw_level :: "nat \<Rightarrow> nat \<Rightarrow> int" where
  "alaw_level seg m = (if seg = 0 then int m * 16 + 8 else (int m * 16 + 264) * 2 ^ (seg - 1))"

lemma alaw_decode_code:
  assumes "seg < 8" and "m < 16"
  shows "sint (alawDecode (word_of_int ((push_bit 4 (int seg) OR int m) XOR 0xD5))) = alaw_level seg m"
    and "sint (alawDecode (word_of_int ((push_bit 4 (int seg) OR int m) XOR 0x55))) = - alaw_level seg m"
proof -
  have e: "alawDecode (word_of_int ((push_bit 4 (int seg) OR int m) XOR 0xD5)) = word_of_int (alaw_level seg m)"
       "alawDecode (word_of_int ((push_bit 4 (int seg) OR int m) XOR 0x55)) = word_of_int (- alaw_level seg m)"
    using alaw_values assms by (auto simp only: list_all_upt alaw_level_def)
  have "(int m * 16 + 264) * 2 ^ (seg - 1) \<le> 504 * 2 ^ 6"
    using assms by (intro mult_mono power_increasing) auto
  then have "0 \<le> alaw_level seg m" "alaw_level seg m \<le> 32256"
    using assms by (simp_all add: alaw_level_def)
  then show
    "sint (alawDecode (word_of_int ((push_bit 4 (int seg) OR int m) XOR 0xD5))) = alaw_level seg m"
    "sint (alawDecode (word_of_int ((push_bit 4 (int seg) OR int m) XOR 0x55))) = - alaw_level seg m"
    unfolding e by - (rule sint16_of_int; simp)+
qed

lemma alaw_segment:
  assumes "0 \<le> v" and "v \<le> 4095"
  shows "\<exists>seg<8. segment v segAEnd = seg \<and> (if seg = 0 then v < 32 else 2 ^ (seg + 4) \<le> v \<and> v < 2 ^ (seg + 5))"
  using assms by (auto simp: segment_def segAEnd_def)

lemma alaw_code:
  assumes "0 \<le> v" and "v \<le> 4095"
  shows "\<exists>seg<8. \<exists>m<16. segment v segAEnd = seg \<and>
    (if seg < 2 then drop_bit 1 v AND 0x0F else drop_bit seg v AND 0x0F) = int m \<and>
    (if seg = 0 then 2 * int m \<le> v \<and> v < 2 * int m + 2
     else 2 ^ seg * (16 + int m) \<le> v \<and> v < 2 ^ seg * (17 + int m))"
proof -
  obtain seg where seg: "seg < 8" "segment v segAEnd = seg"
    "if seg = 0 then v < 32 else 2 ^ (seg + 4) \<le> v \<and> v < 2 ^ (seg + 5)"
    using alaw_segment [OF assms] by auto
  show ?thesis
  proof (cases "seg = 0")
    case True
    with seg assms have "0 \<le> v div 2" "v div 2 < 16" by simp_all
    then obtain m where m: "v div 2 = int m" "m < 16"
      by (metis nonneg_int_cases of_nat_less_iff of_nat_numeral)
    then have "v div 2 mod 16 = int m" by simp
    moreover from m have "2 * int m \<le> v \<and> v < 2 * int m + 2" by linarith
    ultimately have "m < 16 \<and> segment v segAEnd = 0 \<and> drop_bit 1 v AND 0x0F = int m \<and>
        2 * int m \<le> v \<and> v < 2 * int m + 2"
      using True seg m by (simp add: and_15 drop_bit_eq_div)
    then show ?thesis by (intro exI [of _ 0]) auto
  next
    case False
    with seg mantissa [of seg v] obtain m where m: "m < 16" "drop_bit seg v AND 0x0F = int m"
      "2 ^ seg * (16 + int m) \<le> v" "v < 2 ^ seg * (17 + int m)" by auto
    have "(if seg < 2 then drop_bit 1 v AND 0x0F else drop_bit seg v AND 0x0F)
        = drop_bit seg v AND 0x0F"
      using False by (cases "seg = 1") simp_all
    with m have "(if seg < 2 then drop_bit 1 v AND 0x0F else drop_bit seg v AND 0x0F) = int m"
      by (simp only:)
    moreover have "if seg = 0 then 2 * int m \<le> v \<and> v < 2 * int m + 2
        else 2 ^ seg * (16 + int m) \<le> v \<and> v < 2 ^ seg * (17 + int m)"
      using m False by simp
    ultimately show ?thesis using m(1) seg(1,2) by blast
  qed
qed

definition alaw_magnitude :: "int \<Rightarrow> int" where
  "alaw_magnitude s = (if s < 0 then - (s div 8) - 1 else s div 8)"

lemma AlawEncode_code:
  "\<exists>seg<8. \<exists>m<16.
    AlawEncode s = word_of_int ((push_bit 4 (int seg) OR int m) XOR (if sint s < 0 then 0x55 else 0xD5)) \<and>
    (if seg = 0 then 2 * int m \<le> alaw_magnitude (sint s) \<and> alaw_magnitude (sint s) < 2 * int m + 2
     else 2 ^ seg * (16 + int m) \<le> alaw_magnitude (sint s) \<and> alaw_magnitude (sint s) < 2 ^ seg * (17 + int m))"
proof -
  have neg: "sint s div 8 < 0 \<longleftrightarrow> sint s < 0" and drop: "drop_bit 3 (sint s) = sint s div 8"
    by (simp_all add: drop_bit_eq_div pos_imp_zdiv_neg_iff)
  have v: "0 \<le> alaw_magnitude (sint s)" "alaw_magnitude (sint s) \<le> 4095"
    using sint16_bounds [of s] by (auto simp: alaw_magnitude_def)
  obtain seg m where "seg < 8" "m < 16" and *: "segment (alaw_magnitude (sint s)) segAEnd = seg"
    "(if seg < 2 then drop_bit 1 (alaw_magnitude (sint s)) AND 0x0F
      else drop_bit seg (alaw_magnitude (sint s)) AND 0x0F) = int m"
    "(if seg = 0 then 2 * int m \<le> alaw_magnitude (sint s) \<and> alaw_magnitude (sint s) < 2 * int m + 2
     else 2 ^ seg * (16 + int m) \<le> alaw_magnitude (sint s) \<and> alaw_magnitude (sint s) < 2 ^ seg * (17 + int m))"
    using alaw_code [OF v] by blast
  then have "AlawEncode s = word_of_int ((push_bit 4 (int seg) OR int m) XOR (if sint s < 0 then 0x55 else 0xD5))"
    by (auto simp: AlawEncode_def Let_def neg drop alaw_magnitude_def split: if_splits)
  with * \<open>seg < 8\<close> \<open>m < 16\<close> show ?thesis by blast
qed

lemma alaw_error:
  "32 * \<bar>sint (alawDecode (AlawEncode s)) - sint s\<bar> \<le> max \<bar>sint s\<bar> 256"
proof -
  let ?s = "sint s"
  obtain seg m where seg: "seg < 8" and m: "m < 16"
    and enc: "AlawEncode s = word_of_int ((push_bit 4 (int seg) OR int m) XOR (if ?s < 0 then 0x55 else 0xD5))"
    and v: "if seg = 0 then 2 * int m \<le> alaw_magnitude ?s \<and> alaw_magnitude ?s < 2 * int m + 2
     else 2 ^ seg * (16 + int m) \<le> alaw_magnitude ?s \<and> alaw_magnitude ?s < 2 ^ seg * (17 + int m)"
    using AlawEncode_code [of s] by auto
  have dec: "sint (alawDecode (AlawEncode s)) = (if ?s < 0 then - alaw_level seg m else alaw_level seg m)"
    using alaw_decode_code [OF seg m] by (simp add: enc)
  from seg consider "seg = 0" | "seg = 1" | "seg = 2" | "seg = 3" | "seg = 4" | "seg = 5" | "seg = 6" | "seg = 7"
    by linarith
  then show ?thesis
    by cases (use v in \<open>simp add: dec alaw_magnitude_def alaw_level_def abs_if max_def split: if_splits; linarith\<close>)+
qed

section \<open>The codec interface\<close>

text \<open>
  What the audio source, the sender and the recorder rely on when they are given a codec
  (the \<open>encode\<close> and \<open>decode\<close> fields of \<open>Codec\<close>): decoding loses nothing a second
  time, and a sample comes back within its quantisation step.
\<close>

locale companding =
  fixes encode :: "i16 \<Rightarrow> byte" and decode :: "byte \<Rightarrow> i16"
  assumes requantise: "decode (encode (decode b)) = decode b"
    and quantisation: "32 * \<bar>sint (decode (encode s)) - sint s\<bar> \<le> \<bar>sint s\<bar> + 256"
begin

lemma transcode_stable: "decode (encode (decode (encode s))) = decode (encode s)"
  by (rule requantise)

lemma map_requantise: "map (decode \<circ> encode) (map decode bs) = map decode bs"
  by (simp add: requantise)

lemma near_sample: "\<bar>sint (decode (encode s)) - sint s\<bar> \<le> 1032"
proof -
  have "\<bar>sint s\<bar> \<le> 32768" using sint16_bounds [of s] by (simp add: abs_if)
  with quantisation [of s] have "32 * \<bar>sint (decode (encode s)) - sint s\<bar> \<le> 33024"
    by (rule order_trans [OF _ add_right_mono, THEN order_trans]) simp
  then show ?thesis by simp
qed

end

lemma ulaw_code_cycle:
  "list_all (\<lambda>i. UlawEncode (ulawDecode (word_of_nat i)) =
     (if i = 0x7F then 0xFF else word_of_nat i)) [0..<256]"
  by (simp only: upt_expand)
     (simp add: ulawDecode_def UlawEncode_def segUEnd_def segment_def mask_eq_exp_minus_1)

lemma alaw_code_cycle:
  "list_all (\<lambda>i. AlawEncode (alawDecode (word_of_nat i)) = word_of_nat i) [0..<256]"
  by (simp only: upt_expand)
     (simp add: alawDecode_def AlawEncode_def segAEnd_def segment_def mask_eq_exp_minus_1)

lemma UlawEncode_ulawDecode: "UlawEncode (ulawDecode b) = (if b = 0x7F then 0xFF else b)"
proof (rule byte_cases [of "\<lambda>b. UlawEncode (ulawDecode b) = (if b = 0x7F then 0xFF else b)"])
  fix i :: nat
  assume "i < 256"
  moreover from this have "(word_of_nat i :: byte) = 0x7F \<longleftrightarrow> i = 0x7F"
    by (simp add: word_unat_eq_iff unat_of_nat)
  ultimately show "UlawEncode (ulawDecode (word_of_nat i)) =
      (if (word_of_nat i :: byte) = 0x7F then 0xFF else word_of_nat i)"
    using ulaw_code_cycle by (simp add: list_all_upt)
qed

lemma AlawEncode_alawDecode: "AlawEncode (alawDecode b) = b"
  by (rule byte_cases [of "\<lambda>b. AlawEncode (alawDecode b) = b"])
     (use alaw_code_cycle in \<open>simp add: list_all_upt\<close>)

lemma ulaw_zeros: "ulawDecode 0x7F = ulawDecode 0xFF"
  by (simp add: ulawDecode_def mask_eq_exp_minus_1)

interpretation ulaw: companding UlawEncode UlawDecode
proof
  show "UlawDecode (UlawEncode (UlawDecode b)) = UlawDecode b" for b
    by (simp add: UlawDecode_eq UlawEncode_ulawDecode ulaw_zeros)
  show "32 * \<bar>sint (UlawDecode (UlawEncode s)) - sint s\<bar> \<le> \<bar>sint s\<bar> + 256" for s
    using ulaw_error [of s] by (simp add: UlawDecode_eq)
qed

interpretation alaw: companding AlawEncode AlawDecode
proof
  show "AlawDecode (AlawEncode (AlawDecode b)) = AlawDecode b" for b
    by (simp add: AlawDecode_eq AlawEncode_alawDecode)
  show "32 * \<bar>sint (AlawDecode (AlawEncode s)) - sint s\<bar> \<le> \<bar>sint s\<bar> + 256" for s
    using alaw_error [of s] unfolding AlawDecode_eq by (rule order_trans) simp
qed

end
