(* ===== verification/GoLib.thy ===== *)
theory GoLib
  imports Prelude
begin

text \<open>
  The part of Go's standard library that the program's text handling uses: \<open>strings\<close>
  and \<open>bytes\<close> (\<open>Cut\<close>, \<open>Split\<close>, \<open>TrimSpace\<close>, \<open>Fields\<close>, case folding),
  \<open>strconv\<close> (\<open>Itoa\<close>, \<open>Atoi\<close>, \<open>ParseUint\<close>), \<open>net/url\<close>
  (\<open>QueryEscape\<close>, \<open>QueryUnescape\<close>) and \<open>encoding/binary\<close>. A Go string is the
  list of its bytes. Case folding and white space are those of ASCII, which is what the
  SIP and SDP texts the program reads and writes are made of.
\<close>

section \<open>\<open>strings\<close>\<close>

definition HasPrefix :: "string \<Rightarrow> string \<Rightarrow> bool" where
  "HasPrefix s p \<longleftrightarrow> take (length p) s = p"

text \<open>\<open>Cut(s, sep)\<close>: the text before and after the first \<open>sep\<close>, and whether there is one.\<close>

fun Cut :: "string \<Rightarrow> string \<Rightarrow> string \<times> string \<times> bool" where
  "Cut [] sep = (if sep = [] then ([], [], True) else ([], [], False))"
| "Cut (c # s) sep =
     (if HasPrefix (c # s) sep then ([], drop (length sep) (c # s), True)
      else (case Cut s sep of (b, a, found) \<Rightarrow> (c # b, a, found)))"

text \<open>\<open>Split\<close> at a one-byte separator: never empty, \<open>[s]\<close> when the separator does not occur.\<close>

fun Split :: "string \<Rightarrow> char \<Rightarrow> string list" where
  "Split [] d = [[]]"
| "Split (c # s) d =
     (if c = d then [] # Split s d
      else (case Split s d of [] \<Rightarrow> [[c]] | w # ws \<Rightarrow> (c # w) # ws))"

definition is_space :: "char \<Rightarrow> bool" where
  "is_space c \<longleftrightarrow> c \<in> set [CHR '' '', CHR 0x09, CHR 0x0A, CHR 0x0B, CHR 0x0C, CHR 0x0D]"

definition TrimLeft :: "string \<Rightarrow> string" where
  "TrimLeft s = dropWhile is_space s"

definition TrimSpace :: "string \<Rightarrow> string" where
  "TrimSpace s = rev (TrimLeft (rev (TrimLeft s)))"

definition TrimPrefix :: "string \<Rightarrow> string \<Rightarrow> string" where
  "TrimPrefix s p = (if HasPrefix s p then drop (length p) s else s)"

definition TrimSuffix :: "string \<Rightarrow> string \<Rightarrow> string" where
  "TrimSuffix s p = (if HasPrefix (rev s) (rev p) then take (length s - length p) s else s)"

definition lower :: "char \<Rightarrow> char" where
  "lower c = (let n = of_char c :: nat in if 65 \<le> n \<and> n \<le> 90 then char_of (n + 32) else c)"

definition upper :: "char \<Rightarrow> char" where
  "upper c = (let n = of_char c :: nat in if 97 \<le> n \<and> n \<le> 122 then char_of (n - 32) else c)"

definition ToLower :: "string \<Rightarrow> string" where
  "ToLower s = map lower s"

definition ToUpper :: "string \<Rightarrow> string" where
  "ToUpper s = map upper s"

definition EqualFold :: "string \<Rightarrow> string \<Rightarrow> bool" where
  "EqualFold s t \<longleftrightarrow> ToLower s = ToLower t"

text \<open>\<open>Fields\<close>: the maximal runs of non-space bytes; \<open>acc\<close> is the current run, reversed.\<close>

fun fields_acc :: "string \<Rightarrow> string \<Rightarrow> string list" where
  "fields_acc acc [] = (if acc = [] then [] else [rev acc])"
| "fields_acc acc (c # s) =
     (if is_space c then (if acc = [] then [] else [rev acc]) @ fields_acc [] s
      else fields_acc (c # acc) s)"

definition Fields :: "string \<Rightarrow> string list" where
  "Fields s = fields_acc [] s"

text \<open>\<open>Contains\<close> and the index of the first occurrence.\<close>

fun Index :: "string \<Rightarrow> string \<Rightarrow> nat option" where
  "Index [] sub = (if sub = [] then Some 0 else None)"
| "Index (c # s) sub = (if HasPrefix (c # s) sub then Some 0 else map_option Suc (Index s sub))"

definition Contains :: "string \<Rightarrow> string \<Rightarrow> bool" where
  "Contains s sub \<longleftrightarrow> Index s sub \<noteq> None"

fun JoinWith :: "string \<Rightarrow> string list \<Rightarrow> string" where
  "JoinWith sep [] = []"
| "JoinWith sep [w] = w"
| "JoinWith sep (w # v # ws) = w @ sep @ JoinWith sep (v # ws)"

section \<open>\<open>strconv\<close>\<close>

definition digit :: "nat \<Rightarrow> char" where
  "digit d = char_of (48 + d)"

definition is_digit :: "char \<Rightarrow> bool" where
  "is_digit c \<longleftrightarrow> (let n = of_char c :: nat in 48 \<le> n \<and> n \<le> 57)"

definition digit_val :: "char \<Rightarrow> nat" where
  "digit_val c = of_char c - 48"

fun FormatNat :: "nat \<Rightarrow> string" where
  "FormatNat n = (if n < 10 then [digit n] else FormatNat (n div 10) @ [digit (n mod 10)])"

declare FormatNat.simps [simp del]

definition Itoa :: "int \<Rightarrow> string" where
  "Itoa i = (if i < 0 then CHR ''-'' # FormatNat (nat (- i)) else FormatNat (nat i))"

definition ParseDigits :: "string \<Rightarrow> nat option" where
  "ParseDigits s =
     (if s = [] \<or> \<not> list_all is_digit s then None
      else Some (foldl (\<lambda>n c. 10 * n + digit_val c) 0 s))"

text \<open>
  \<open>Atoi\<close>: the value and whether there was no error. After a syntax error the value is 0,
  after a range error the nearest 64-bit integer, as the callers that drop the error see it.
\<close>

definition Atoi :: "string \<Rightarrow> int \<times> bool" where
  "Atoi s =
     (let (neg, ds) = (case s of [] \<Rightarrow> (False, [])
          | c # r \<Rightarrow> if c = CHR ''-'' then (True, r) else if c = CHR ''+'' then (False, r)
                     else (False, s))
      in case ParseDigits ds of None \<Rightarrow> (0, False)
         | Some n \<Rightarrow>
             if neg then (if int n \<le> 2 ^ 63 then (- int n, True) else (- (2 ^ 63), False))
             else (if int n < 2 ^ 63 then (int n, True) else (2 ^ 63 - 1, False)))"

text \<open>\<open>ParseUint(s, 10, 32)\<close>.\<close>

definition ParseUint32 :: "string \<Rightarrow> nat option" where
  "ParseUint32 s =
     (case ParseDigits s of None \<Rightarrow> None | Some n \<Rightarrow> if n < 2 ^ 32 then Some n else None)"

section \<open>\<open>net/url\<close>\<close>

definition unreserved :: "char \<Rightarrow> bool" where
  "unreserved c \<longleftrightarrow> (let n = of_char c :: nat in
     97 \<le> n \<and> n \<le> 122 \<or> 65 \<le> n \<and> n \<le> 90 \<or> 48 \<le> n \<and> n \<le> 57) \<or>
     c \<in> set ''-_.~''"

definition hex_digit :: "nat \<Rightarrow> char" where
  "hex_digit d = (if d < 10 then char_of (48 + d) else char_of (55 + d))"

definition hex_val :: "char \<Rightarrow> nat option" where
  "hex_val c = (let n = of_char c :: nat in
     if 48 \<le> n \<and> n \<le> 57 then Some (n - 48)
     else if 97 \<le> n \<and> n \<le> 102 then Some (n - 87)
     else if 65 \<le> n \<and> n \<le> 70 then Some (n - 55) else None)"

definition escape_char :: "char \<Rightarrow> string" where
  "escape_char c =
     (if c = CHR '' '' then ''+''
      else if unreserved c then [c]
      else [CHR ''%'', hex_digit (of_char c div 16), hex_digit (of_char c mod 16)])"

definition QueryEscape :: "string \<Rightarrow> string" where
  "QueryEscape s = concat (map escape_char s)"

text \<open>\<open>None\<close> is the error for a percent sign that two hexadecimal digits do not follow.\<close>

fun QueryUnescape :: "string \<Rightarrow> string option" where
  "QueryUnescape [] = Some []"
| "QueryUnescape (c # s) =
     (if c = CHR ''%'' then
        (case s of h # l # r \<Rightarrow>
           (case (hex_val h, hex_val l) of
              (Some x, Some y) \<Rightarrow> map_option ((#) (char_of (16 * x + y))) (QueryUnescape r)
            | _ \<Rightarrow> None)
         | _ \<Rightarrow> None)
      else if c = CHR ''+'' then map_option ((#) (CHR '' '')) (QueryUnescape s)
      else map_option ((#) c) (QueryUnescape s))"

section \<open>\<open>encoding/binary\<close>\<close>

text \<open>\<open>BigEndian\<close> and \<open>LittleEndian\<close>: the bytes of a word and back.\<close>

definition put16be :: "u16 \<Rightarrow> byte list" where
  "put16be w = [ucast (drop_bit 8 w), ucast w]"

definition put32be :: "u32 \<Rightarrow> byte list" where
  "put32be w = [ucast (drop_bit 24 w), ucast (drop_bit 16 w), ucast (drop_bit 8 w), ucast w]"

definition put16le :: "u16 \<Rightarrow> byte list" where
  "put16le w = [ucast w, ucast (drop_bit 8 w)]"

definition put32le :: "u32 \<Rightarrow> byte list" where
  "put32le w = [ucast w, ucast (drop_bit 8 w), ucast (drop_bit 16 w), ucast (drop_bit 24 w)]"

definition get16be :: "byte list \<Rightarrow> nat \<Rightarrow> u16" where
  "get16be b i = push_bit 8 (ucast (b ! i)) OR ucast (b ! (i + 1))"

definition get32be :: "byte list \<Rightarrow> nat \<Rightarrow> u32" where
  "get32be b i = push_bit 24 (ucast (b ! i)) OR push_bit 16 (ucast (b ! (i + 1))) OR
     push_bit 8 (ucast (b ! (i + 2))) OR ucast (b ! (i + 3))"

definition get16le :: "byte list \<Rightarrow> nat \<Rightarrow> u16" where
  "get16le b i = ucast (b ! i) OR push_bit 8 (ucast (b ! (i + 1)))"

definition get32le :: "byte list \<Rightarrow> nat \<Rightarrow> u32" where
  "get32le b i = ucast (b ! i) OR push_bit 8 (ucast (b ! (i + 1))) OR
     push_bit 16 (ucast (b ! (i + 2))) OR push_bit 24 (ucast (b ! (i + 3)))"

section \<open>Facts about the text functions\<close>

text \<open>Evaluating a character that was computed from its code.\<close>

lemmas char_eval = char_of_def bit_Suc_0_iff

lemma HasPrefix_append [simp]: "HasPrefix (p @ s) p"
  by (simp add: HasPrefix_def)

lemma HasPrefix_single [simp]: "HasPrefix (c # s) [d] \<longleftrightarrow> c = d"
  by (auto simp: HasPrefix_def)

lemma Cut_char_found: "d \<notin> set a \<Longrightarrow> Cut (a @ d # b) [d] = (a, b, True)"
  by (induction a) auto

lemma Cut_char_absent: "d \<notin> set s \<Longrightarrow> Cut s [d] = (s, [], False)"
  by (induction s) auto

lemma Cut_char_split: "Cut s [d] = (b, a, True) \<Longrightarrow> s = b @ d # a \<and> d \<notin> set b"
  by (induction s arbitrary: b) (auto split: if_splits prod.splits)

lemma Split_absent: "d \<notin> set s \<Longrightarrow> Split s d = [s]"
  by (induction s) auto

lemma Split_nonempty [simp]: "Split s d \<noteq> []"
  by (induction s) (auto split: list.splits)

lemma Split_append: "d \<notin> set a \<Longrightarrow> Split (a @ d # b) d = a # Split b d"
  by (induction a) auto

lemma Split_parts: "w \<in> set (Split s d) \<Longrightarrow> d \<notin> set w"
  by (induction s arbitrary: w) (auto split: list.splits if_splits)

lemma TrimSpace_plain: "list_all (\<lambda>c. \<not> is_space c) s \<Longrightarrow> TrimSpace s = s"
proof -
  have left: "list_all (\<lambda>c. \<not> is_space c) t \<Longrightarrow> TrimLeft t = t" for t
    by (cases t) (simp_all add: TrimLeft_def)
  assume "list_all (\<lambda>c. \<not> is_space c) s"
  then show ?thesis
    by (simp add: TrimSpace_def left)
qed

lemma EqualFold_refl [simp]: "EqualFold s s"
  by (simp add: EqualFold_def)

lemma EqualFold_sym: "EqualFold s t \<Longrightarrow> EqualFold t s"
  by (simp add: EqualFold_def)

section \<open>Printing and parsing numbers\<close>

lemma digit_simps [simp]:
  assumes "d < 10"
  shows "is_digit (digit d)" and "digit_val (digit d) = d"
  using assms by (simp_all add: is_digit_def digit_def digit_val_def)

lemma not_digit_sign: "is_digit c \<Longrightarrow> c \<noteq> CHR ''-'' \<and> c \<noteq> CHR ''+''"
  by (auto simp: is_digit_def)

lemma FormatNat_digits: "FormatNat n \<noteq> [] \<and> list_all is_digit (FormatNat n) \<and>
    foldl (\<lambda>n c. 10 * n + digit_val c) 0 (FormatNat n) = n"
proof (induction n rule: FormatNat.induct)
  case (1 n)
  then show ?case
    by (cases "n < 10") (simp_all add: FormatNat.simps [of n])
qed

lemma ParseDigits_FormatNat [simp]: "ParseDigits (FormatNat n) = Some n"
  using FormatNat_digits [of n] by (simp add: ParseDigits_def)

lemma FormatNat_Cons: "\<exists>c s. FormatNat n = c # s \<and> is_digit c"
  using FormatNat_digits [of n] by (cases "FormatNat n") auto

lemma Atoi_Itoa:
  assumes "- (2 ^ 63) \<le> i" and "i < 2 ^ 63"
  shows "Atoi (Itoa i) = (i, True)"
proof -
  obtain c s where cs: "FormatNat (nat i) = c # s" "is_digit c"
    using FormatNat_Cons by blast
  then have "c \<noteq> CHR ''-''" "c \<noteq> CHR ''+''" "ParseDigits (c # s) = Some (nat i)"
    using not_digit_sign ParseDigits_FormatNat [of "nat i"] by (auto simp del: ParseDigits_FormatNat)
  with assms cs show ?thesis
    by (simp add: Atoi_def Itoa_def)
qed


section \<open>Escaping\<close>

lemma hex_digit_unreserved: "n < 16 \<Longrightarrow> unreserved (hex_digit n)"
  by (simp add: hex_digit_def unreserved_def Let_def)

lemma char_div_16: "of_char (c :: char) div 16 < (16 :: nat)" "of_char c mod 16 < (16 :: nat)"
proof -
  show "of_char c div 16 < (16 :: nat)"
    using nat_of_char_less_256 [of c] by (simp only: less_mult_imp_div_less)
  show "of_char c mod 16 < (16 :: nat)" by simp
qed

lemma escape_char_safe: "c \<in> set (escape_char d) \<Longrightarrow> unreserved c \<or> c = CHR ''+'' \<or> c = CHR ''%''"
  using char_div_16 [of d] by (auto simp: escape_char_def hex_digit_unreserved split: if_splits)

lemma hex_val_digit: "n < 16 \<Longrightarrow> hex_val (hex_digit n) = Some n"
  by (simp add: hex_val_def hex_digit_def Let_def)

lemma unreserved_plain: "unreserved c \<Longrightarrow> c \<noteq> CHR ''%'' \<and> c \<noteq> CHR ''+''"
  by (auto simp: unreserved_def)

lemma unescape_escape_char: "QueryUnescape (escape_char c @ s) = map_option ((#) c) (QueryUnescape s)"
  using char_div_16 [of c] unreserved_plain [of c]
  by (auto simp: escape_char_def hex_val_digit)

lemma QueryUnescape_QueryEscape: "QueryUnescape (QueryEscape s) = Some s"
  by (induction s) (simp_all add: QueryEscape_def unescape_escape_char)

lemma QueryEscape_safe:
  "c \<in> set (QueryEscape s) \<Longrightarrow> unreserved c \<or> c = CHR ''+'' \<or> c = CHR ''%''"
  by (auto simp: QueryEscape_def dest: escape_char_safe)

section \<open>Words and bytes\<close>

lemma join_2:
  "push_bit 8 (ucast (ucast (drop_bit 8 w) :: byte)) OR ucast (ucast w :: byte) = (w :: u16)"
  by (rule bit_eqI) (auto simp: bit_simps)

lemma join_4:
  "push_bit 24 (ucast (ucast (drop_bit 24 w) :: byte)) OR push_bit 16 (ucast (ucast (drop_bit 16 w) :: byte)) OR
   push_bit 8 (ucast (ucast (drop_bit 8 w) :: byte)) OR ucast (ucast w :: byte) = (w :: u32)"
proof (rule bit_word_eqI)
  fix n
  assume "n < LENGTH(32)"
  then have "n < 32" by simp
  then consider "n < 8" | "8 \<le> n" "n < 16" | "16 \<le> n" "n < 24" | "24 \<le> n" "n < 32"
    by fastforce
  then show "bit (push_bit 24 (ucast (ucast (drop_bit 24 w) :: byte)) OR push_bit 16 (ucast (ucast (drop_bit 16 w) :: byte)) OR
      push_bit 8 (ucast (ucast (drop_bit 8 w) :: byte)) OR ucast (ucast w :: byte) :: u32) n = bit w n"
    by cases (auto simp: bit_simps)
qed

lemma get_put_be:
  "get16be (xs @ put16be w @ ys) (length xs) = w"
  "get32be (xs @ put32be v @ ys) (length xs) = v"
  by (simp_all add: get16be_def put16be_def get32be_def put32be_def nth_append join_2 join_4)

lemma get_put_le:
  "get16le (xs @ put16le w @ ys) (length xs) = w"
  "get32le (xs @ put32le v @ ys) (length xs) = v"
  using join_2 [of w] join_4 [of v]
  by (simp_all add: get16le_def put16le_def get32le_def put32le_def nth_append or.commute or.left_commute or.assoc)

lemma length_put [simp]:
  "length (put16be w) = 2" "length (put32be v) = 4" "length (put16le w) = 2" "length (put32le v) = 4"
  by (simp_all add: put16be_def put32be_def put16le_def put32le_def)

end
