(* ===== verification/Codec.thy ===== *)
theory Codec
  imports G711 GoLib
begin

text \<open>
  The audio codecs a call can use, \<open>media/codec.go\<close>: the \<open>Codec\<close> struct, the lookup by
  name and by payload type, and the parser of a preference list.
\<close>

record Codec =
  Name :: string             \<comment> \<open>as in rtpmap\<close>
  PT :: byte                 \<comment> \<open>payload type\<close>
  encode :: "i16 \<Rightarrow> byte"
  decode :: "i16 list"       \<comment> \<open>256 samples, indexed by the code byte\<close>

definition PCMU :: Codec where
  "PCMU = \<lparr>Name = ''PCMU'', PT = 0, encode = UlawEncode, decode = ulawTable\<rparr>"

definition PCMA :: Codec where
  "PCMA = \<lparr>Name = ''PCMA'', PT = 8, encode = AlawEncode, decode = alawTable\<rparr>"

abbreviation sampleRate :: int where "sampleRate \<equiv> 8000"
abbreviation frameSamples :: nat where "frameSamples \<equiv> 160"
abbreviation defaultDTMFPT :: int where "defaultDTMFPT \<equiv> 101"
abbreviation frameDurationMs :: int where "frameDurationMs \<equiv> 20"

definition telephoneEvent :: string where
  "telephoneEvent = ''telephone-event''"

datatype codec_error = UnsupportedCodec string | EmptyCodecList

definition CodecByName :: "string \<Rightarrow> codec_error + Codec" where
  "CodecByName name =
     (let n = ToUpper (TrimSpace name)
      in if n \<in> set [''PCMU'', ''ULAW'', ''G711U''] then Inr PCMU
         else if n \<in> set [''PCMA'', ''ALAW'', ''G711A''] then Inr PCMA
         else Inl (UnsupportedCodec name))"

text \<open>The loop of \<open>ParseCodecs\<close> over the comma-separated names; \<open>out\<close> is the list so far.\<close>

fun ParseCodecs_loop :: "string list \<Rightarrow> Codec list \<Rightarrow> codec_error + Codec list" where
  "ParseCodecs_loop [] out = (if out = [] then Inl EmptyCodecList else Inr out)"
| "ParseCodecs_loop (n # ns) out =
     (if TrimSpace n = [] then ParseCodecs_loop ns out
      else case CodecByName n of Inl e \<Rightarrow> Inl e | Inr c \<Rightarrow> ParseCodecs_loop ns (out @ [c]))"

definition ParseCodecs :: "string \<Rightarrow> codec_error + Codec list" where
  "ParseCodecs list = ParseCodecs_loop (Split list (CHR '','')) []"

definition codecByPT :: "byte \<Rightarrow> Codec option" where
  "codecByPT pt = (if pt = PT PCMU then Some PCMU else if pt = PT PCMA then Some PCMA else None)"

section \<open>Facts\<close>

lemma codec_fields [simp]:
  "Name PCMU = ''PCMU''" "Name PCMA = ''PCMA''" "PT PCMU = 0" "PT PCMA = 8"
  "encode PCMU = UlawEncode" "encode PCMA = AlawEncode"
  "decode PCMU = ulawTable" "decode PCMA = alawTable"
  by (simp_all add: PCMU_def PCMA_def)

lemma PCMU_PCMA [simp]: "PCMU \<noteq> PCMA" "PCMA \<noteq> PCMU"
  by (simp_all add: PCMU_def PCMA_def)

lemma CodecByName_known: "CodecByName n = Inr c \<Longrightarrow> c = PCMU \<or> c = PCMA"
  by (auto simp: CodecByName_def Let_def split: if_splits)

lemma ParseCodecs_loop_known:
  "ParseCodecs_loop ns out = Inr cs \<Longrightarrow> set out \<subseteq> {PCMU, PCMA} \<Longrightarrow>
     cs \<noteq> [] \<and> set cs \<subseteq> {PCMU, PCMA}"
  by (induction ns out rule: ParseCodecs_loop.induct)
     (auto split: if_splits sum.splits dest: CodecByName_known)

lemma ParseCodecs_known: "ParseCodecs l = Inr cs \<Longrightarrow> cs \<noteq> [] \<and> set cs \<subseteq> {PCMU, PCMA}"
  using ParseCodecs_loop_known [of "Split l (CHR '','')" "[]"] by (simp add: ParseCodecs_def)

lemma table_length [simp]: "length ulawTable = 256" "length alawTable = 256"
  by (simp_all add: ulawTable_def alawTable_def)

lemma table_lookup: "ulawTable ! unat b = UlawDecode b" "alawTable ! unat b = AlawDecode b"
  by (simp_all add: UlawDecode_def AlawDecode_def)

section \<open>Codecs under a negotiated payload type\<close>

text \<open>One of the two codecs, under any dynamic or static payload type below 128.\<close>

definition known_codec :: "Codec \<Rightarrow> bool" where
  "known_codec c \<longleftrightarrow> (c = PCMU\<lparr>PT := PT c\<rparr> \<or> c = PCMA\<lparr>PT := PT c\<rparr>) \<and> uint (PT c) < 128"

lemma known_codec_named [simp]:
  "c = PCMU \<or> c = PCMA \<Longrightarrow> uint p < 128 \<Longrightarrow> known_codec (c\<lparr>PT := p\<rparr>)"
  by (auto simp: known_codec_def)

lemma known_codec_static [simp]: "known_codec PCMU" "known_codec PCMA"
  by (simp_all add: known_codec_def PCMU_def PCMA_def)

lemma known_codecE:
  assumes "known_codec c"
  obtains p where "c = PCMU\<lparr>PT := p\<rparr>" "uint p < 128" | p where "c = PCMA\<lparr>PT := p\<rparr>" "uint p < 128"
  using assms by (auto simp: known_codec_def)

lemma codecByPT_known: "codecByPT p = Some c \<Longrightarrow> known_codec c"
  by (auto simp: codecByPT_def split: if_splits)

lemma known_name: "known_codec c \<Longrightarrow> Name c = ''PCMU'' \<or> Name c = ''PCMA''"
  by (erule known_codecE) (metis Codec.select_convs(1) Codec.surjective Codec.update_convs(2) codec_fields(1,2))+

text \<open>A codec the program holds compands: its table and encoder satisfy the interface.\<close>

lemma known_companding: "known_codec c \<Longrightarrow> companding (encode c) (\<lambda>b. decode c ! unat b)"
  using ulaw.companding_axioms alaw.companding_axioms
  by (auto elim!: known_codecE simp: table_lookup)

text \<open>C8: Whatever codec was negotiated, decoding an encoded sample is off by at most a 32nd of the
  sample plus 8, and transcoding once more changes nothing: a chain of legs does not degrade audio.\<close>

theorem negotiated_companding:
  assumes "known_codec c"
  shows "32 * \<bar>sint (decode c ! unat (encode c s)) - sint s\<bar> \<le> \<bar>sint s\<bar> + 256 \<and>
    decode c ! unat (encode c (decode c ! unat (encode c s))) = decode c ! unat (encode c s)"
  using companding.quantisation [OF known_companding [OF assms]]
    companding.transcode_stable [OF known_companding [OF assms]] by simp

theorem negotiated_companding_witness:
  "32 * \<bar>sint (decode PCMA ! unat (encode PCMA 1000)) - 1000\<bar> \<le> 1256"
  using negotiated_companding [OF known_codec_static(2), of 1000] by simp

end
