(* ===== verification/Sdp.thy ===== *)
theory Sdp
  imports Codec
begin

text \<open>
  SDP negotiation, \<open>media/sdp.go\<close>: the media direction, what is learnt from the peer's
  description (\<open>Remote\<close>, \<open>ParseSDP\<close>), the choice of a codec and the description the
  program sends (\<open>buildSDP\<close>). The parser of the SDP text is the package
  \<open>github.com/pion/sdp\<close>: \<open>ParseSDP\<close> takes it as a parameter that returns the fields
  the code reads. Name resolution and the textual form of IPv6 addresses are parameters
  too (\<^emph>\<open>net_env\<close>); dotted IPv4 addresses are parsed here as \<open>net.ParseIP\<close> does.
\<close>

section \<open>Direction\<close>

datatype Direction = SendRecv | SendOnly | RecvOnly | Inactive

definition dir_str :: "Direction \<Rightarrow> string" where
  "dir_str d = (case d of SendRecv \<Rightarrow> ''sendrecv'' | SendOnly \<Rightarrow> ''sendonly''
     | RecvOnly \<Rightarrow> ''recvonly'' | Inactive \<Rightarrow> ''inactive'')"

definition Reverse :: "Direction \<Rightarrow> Direction" where
  "Reverse d = (case d of SendOnly \<Rightarrow> RecvOnly | RecvOnly \<Rightarrow> SendOnly | _ \<Rightarrow> d)"

definition sends :: "Direction \<Rightarrow> bool" where
  "sends d \<longleftrightarrow> d = SendRecv \<or> d = SendOnly"

definition receives :: "Direction \<Rightarrow> bool" where
  "receives d \<longleftrightarrow> d = SendRecv \<or> d = RecvOnly"

section \<open>Addresses\<close>

text \<open>An address that maps IPv4 into IPv6 is the IPv4 address, as \<open>net.IP\<close> compares them.\<close>

datatype ip_addr = IPv4 u32 | IPv6 "128 word"

definition IsUnspecified :: "ip_addr \<Rightarrow> bool" where
  "IsUnspecified a = (case a of IPv4 w \<Rightarrow> w = 0 | IPv6 w \<Rightarrow> w = 0)"

record udp_addr =
  IP :: ip_addr
  Port :: int

text \<open>A field of a dotted address: one to three digits, no leading zero, at most 255.\<close>

definition parse_octet :: "string \<Rightarrow> nat option" where
  "parse_octet s =
     (case ParseDigits s of None \<Rightarrow> None
      | Some n \<Rightarrow> if n > 255 \<or> length s > 1 \<and> hd s = CHR ''0'' then None else Some n)"

definition parseIPv4 :: "string \<Rightarrow> ip_addr option" where
  "parseIPv4 s =
     (case map parse_octet (Split s (CHR ''.'')) of
        [Some a, Some b, Some c, Some d] \<Rightarrow>
          Some (IPv4 (word_of_nat (((a * 256 + b) * 256 + c) * 256 + d)))
      | _ \<Rightarrow> None)"

text \<open>The environment of package \<open>net\<close>: IPv6 texts and host names.\<close>

record net_env =
  parseIPv6 :: "string \<Rightarrow> ip_addr option"
  LookupIP :: "string \<Rightarrow> string + ip_addr list"

text \<open>\<open>net.ParseIP\<close> looks for the first dot, colon or percent sign to tell the form.\<close>

fun ip_form :: "string \<Rightarrow> char option" where
  "ip_form [] = None"
| "ip_form (c # s) = (if c \<in> set ''.:%'' then Some c else ip_form s)"

definition ParseIP :: "net_env \<Rightarrow> string \<Rightarrow> ip_addr option" where
  "ParseIP env s =
     (case ip_form s of None \<Rightarrow> None
      | Some c \<Rightarrow> if c = CHR ''.'' then parseIPv4 s
                   else if c = CHR '':'' then parseIPv6 env s else None)"

section \<open>The session description\<close>

text \<open>What \<open>ParseSDP\<close> reads of pion's \<open>SessionDescription\<close>.\<close>

record MediaDescription =
  Media :: string
  MediaPort :: int
  Formats :: "string list"
  MediaConn :: "string option option"   \<comment> \<open>the connection line and its address, each may be absent\<close>
  Attributes :: "(string \<times> string) list"

record SessionDescription =
  SessionConn :: "string option option"
  MediaDescriptions :: "MediaDescription list"

type_synonym sdp_parser = "string \<Rightarrow> string + SessionDescription"

record Remote =
  Addr :: "udp_addr option"    \<comment> \<open>absent or unspecified means hold\<close>
  Codecs :: "Codec list"       \<comment> \<open>supported codecs in the peer's order\<close>
  DTMFPT :: int                \<comment> \<open>-1 if not offered\<close>
  Dir :: Direction

datatype sdp_error = SdpSyntax string | SdpNoAudio | SdpConnAddress string

definition resolve :: "net_env \<Rightarrow> string \<Rightarrow> sdp_error + ip_addr" where
  "resolve env host =
     (case ParseIP env host of Some ip \<Rightarrow> Inr ip
      | None \<Rightarrow> (case LookupIP env host of Inl _ \<Rightarrow> Inl (SdpConnAddress host)
                 | Inr [] \<Rightarrow> Inl (SdpConnAddress host)
                 | Inr (ip # _) \<Rightarrow> Inr ip))"

text \<open>The attribute loop: encoding names by payload type text, and the direction.\<close>

definition parse_attribute ::
    "(string \<times> string) \<Rightarrow> (string \<rightharpoonup> string) \<times> Direction \<Rightarrow> (string \<rightharpoonup> string) \<times> Direction" where
  "parse_attribute a st =
     (case a of (key, val) \<Rightarrow> case st of (names, dir) \<Rightarrow>
        if key = ''rtpmap'' then
          (let (pt, rest, _) = Cut val '' ''; (name, _, _) = Cut rest ''/''
           in (names(pt \<mapsto> name), dir))
        else if key = dir_str SendRecv then (names, SendRecv)
        else if key = dir_str SendOnly then (names, SendOnly)
        else if key = dir_str RecvOnly then (names, RecvOnly)
        else if key = dir_str Inactive then (names, Inactive)
        else (names, dir))"

text \<open>The format loop: one payload type of the media line.\<close>

definition parse_format :: "(string \<rightharpoonup> string) \<Rightarrow> string \<Rightarrow> Remote \<Rightarrow> Remote" where
  "parse_format names f r =
     (let (n, ok) = Atoi f
      in if \<not> ok \<or> n < 0 \<or> n > 127 then r
         else (let pt = word_of_int n; name = (case names f of None \<Rightarrow> [] | Some s \<Rightarrow> s)
               in if EqualFold name telephoneEvent then r\<lparr>DTMFPT := n\<rparr>
                  else if name \<noteq> [] then
                    (case CodecByName name of
                       Inr c \<Rightarrow> r\<lparr>Codecs := Codecs r @ [c\<lparr>PT := pt\<rparr>]\<rparr> | Inl _ \<Rightarrow> r)
                  else (case codecByPT pt of
                       Some c \<Rightarrow> r\<lparr>Codecs := Codecs r @ [c]\<rparr> | None \<Rightarrow> r)))"

definition parse_audio :: "net_env \<Rightarrow> SessionDescription \<Rightarrow> MediaDescription \<Rightarrow> sdp_error + Remote" where
  "parse_audio env sd md =
     (let r = \<lparr>Addr = None, Codecs = [], DTMFPT = -1, Dir = SendRecv\<rparr>;
          conn = (case MediaConn md of None \<Rightarrow> SessionConn sd | c \<Rightarrow> c);
          port = MediaPort md;
          addr = (case conn of
              Some (Some host) \<Rightarrow>
                (if port \<noteq> 0 then
                   (case resolve env host of Inl e \<Rightarrow> Inl e
                    | Inr ip \<Rightarrow> Inr (Some \<lparr>IP = ip, Port = port\<rparr>))
                 else Inr None)
            | _ \<Rightarrow> Inr None)
      in case addr of Inl e \<Rightarrow> Inl e
         | Inr a \<Rightarrow>
             (let (names, dir) = fold parse_attribute (Attributes md) (Map.empty, Dir r);
                  r2 = fold (parse_format names) (Formats md) (r\<lparr>Addr := a, Dir := dir\<rparr>)
              in Inr (case Addr r2 of
                   None \<Rightarrow> r2\<lparr>Dir := Inactive\<rparr>
                 | Some u \<Rightarrow> if IsUnspecified (IP u) then r2\<lparr>Dir := Inactive\<rparr> else r2)))"

definition ParseSDP :: "sdp_parser \<Rightarrow> net_env \<Rightarrow> string \<Rightarrow> sdp_error + Remote" where
  "ParseSDP unmarshal env body =
     (case unmarshal body of Inl e \<Rightarrow> Inl (SdpSyntax e)
      | Inr sd \<Rightarrow>
          (case find (\<lambda>m. Media m = ''audio'') (MediaDescriptions sd) of
             None \<Rightarrow> Inl SdpNoAudio
           | Some md \<Rightarrow> parse_audio env sd md))"

section \<open>Choosing a codec\<close>

fun choose_answer :: "Codec list \<Rightarrow> Codec list \<Rightarrow> Codec option" where
  "choose_answer [] remote = None"
| "choose_answer (o' # ours) remote =
     (case find (\<lambda>r. Name r = Name o') remote of Some r \<Rightarrow> Some r | None \<Rightarrow> choose_answer ours remote)"

fun choose_offer :: "Codec list \<Rightarrow> Codec list \<Rightarrow> Codec option" where
  "choose_offer ours [] = None"
| "choose_offer ours (r # remote) =
     (if \<exists>o' \<in> set ours. Name r = Name o' then Some r else choose_offer ours remote)"

definition choose_codec :: "Codec list \<Rightarrow> Codec list \<Rightarrow> bool \<Rightarrow> Codec option" where
  "choose_codec ours remote answering =
     (if answering then choose_answer ours remote else choose_offer ours remote)"

section \<open>Rendering\<close>

definition crlf :: string where
  "crlf = [CHR 0x0D, CHR 0x0A]"

definition buildSDP :: "string \<Rightarrow> int \<Rightarrow> Codec list \<Rightarrow> int \<Rightarrow> Direction \<Rightarrow> u64 \<Rightarrow> u64 \<Rightarrow> string" where
  "buildSDP ip port codecs dtmfPT dir sessID version =
     ''v=0'' @ crlf @ ''o=- '' @ Itoa (uint sessID) @ '' '' @ Itoa (uint version) @ '' IN IP4 '' @ ip @ crlf @
     ''s=-'' @ crlf @ ''c=IN IP4 '' @ ip @ crlf @ ''t=0 0'' @ crlf @
     ''m=audio '' @ Itoa port @ '' RTP/AVP'' @
     concat (map (\<lambda>c. '' '' @ Itoa (uint (PT c))) codecs) @
     (if dtmfPT \<ge> 0 then '' '' @ Itoa dtmfPT else []) @ crlf @
     concat (map (\<lambda>c. ''a=rtpmap:'' @ Itoa (uint (PT c)) @ '' '' @ Name c @ ''/'' @ Itoa sampleRate @ crlf) codecs) @
     (if dtmfPT \<ge> 0 then
        ''a=rtpmap:'' @ Itoa dtmfPT @ '' '' @ telephoneEvent @ ''/'' @ Itoa sampleRate @ crlf @
        ''a=fmtp:'' @ Itoa dtmfPT @ '' 0-16'' @ crlf
      else []) @
     ''a=ptime:'' @ Itoa frameDurationMs @ crlf @ ''a='' @ dir_str dir @ crlf"

text \<open>What an SDP parser reads from that text.\<close>

definition sdp_desc :: "string \<Rightarrow> int \<Rightarrow> Codec list \<Rightarrow> int \<Rightarrow> Direction \<Rightarrow> SessionDescription" where
  "sdp_desc ip port codecs dtmfPT dir =
     \<lparr>SessionConn = Some (Some ip),
      MediaDescriptions =
        [\<lparr>Media = ''audio'', MediaPort = port,
          Formats = map (\<lambda>c. Itoa (uint (PT c))) codecs @ (if dtmfPT \<ge> 0 then [Itoa dtmfPT] else []),
          MediaConn = None,
          Attributes =
            map (\<lambda>c. (''rtpmap'', Itoa (uint (PT c)) @ '' '' @ Name c @ ''/'' @ Itoa sampleRate)) codecs @
            (if dtmfPT \<ge> 0 then
               [(''rtpmap'', Itoa dtmfPT @ '' '' @ telephoneEvent @ ''/'' @ Itoa sampleRate),
                (''fmtp'', Itoa dtmfPT @ '' 0-16'')] else []) @
            [(''ptime'', Itoa frameDurationMs), (dir_str dir, [])]\<rparr>]\<rparr>"

section \<open>Directions\<close>

lemma Reverse_simps [simp]:
  "Reverse SendRecv = SendRecv" "Reverse SendOnly = RecvOnly" "Reverse RecvOnly = SendOnly"
  "Reverse Inactive = Inactive"
  by (simp_all add: Reverse_def)

lemma Reverse_Reverse [simp]: "Reverse (Reverse d) = d"
  by (cases d) simp_all

lemma sends_Reverse [simp]: "sends (Reverse d) = receives d" "receives (Reverse d) = sends d"
  by (cases d; simp add: sends_def receives_def)+

section \<open>Which codecs a description can yield\<close>

definition wf_remote :: "Remote \<Rightarrow> bool" where
  "wf_remote r \<longleftrightarrow> list_all known_codec (Codecs r) \<and> (DTMFPT r = -1 \<or> 0 \<le> DTMFPT r \<and> DTMFPT r < 128)"

lemma uint_byte_of_int: "0 \<le> n \<Longrightarrow> n < 256 \<Longrightarrow> uint (word_of_int n :: byte) = n"
  by (simp add: uint_word_of_int)

lemma parse_format_wf: "wf_remote r \<Longrightarrow> wf_remote (parse_format names f r)"
  by (auto simp: parse_format_def wf_remote_def Let_def uint_byte_of_int codecByPT_known
      dest: CodecByName_known split: prod.splits sum.splits option.splits if_splits)

lemma parse_formats_wf: "wf_remote r \<Longrightarrow> wf_remote (fold (parse_format names) fs r)"
  by (induction fs arbitrary: r) (simp_all add: parse_format_wf)

lemma parse_format_frame [simp]:
  "Addr (parse_format names f r) = Addr r" "Dir (parse_format names f r) = Dir r"
  by (simp_all add: parse_format_def Let_def split: prod.splits sum.splits option.splits)

lemma parse_formats_frame [simp]:
  "Addr (fold (parse_format names) fs r) = Addr r" "Dir (fold (parse_format names) fs r) = Dir r"
  by (induction fs arbitrary: r) simp_all

definition held :: "Remote \<Rightarrow> bool" where
  "held r \<longleftrightarrow> (case Addr r of None \<Rightarrow> True | Some u \<Rightarrow> IsUnspecified (IP u))"

lemma parse_audio_wf:
  assumes "parse_audio env sd md = Inr r"
  shows "wf_remote r \<and> (held r \<longrightarrow> Dir r = Inactive)"
proof -
  have base: "wf_remote (fold (parse_format names) fs
      \<lparr>Addr = a, Codecs = [], DTMFPT = - 1, Dir = dir\<rparr>)" for names fs a dir
    by (rule parse_formats_wf) (simp add: wf_remote_def)
  from assms show ?thesis
    by (auto simp: parse_audio_def Let_def held_def split: sum.splits prod.splits option.splits if_splits)
       (use base in \<open>auto simp: wf_remote_def\<close>)
qed

lemma ParseSDP_wf:
  "ParseSDP unmarshal env body = Inr r \<Longrightarrow> wf_remote r \<and> (held r \<longrightarrow> Dir r = Inactive)"
  by (auto simp: ParseSDP_def split: sum.splits option.splits dest: parse_audio_wf)

section \<open>The choice\<close>

lemma find_name_Some: "find (\<lambda>r. Name r = n) rs = Some r \<Longrightarrow> r \<in> set rs \<and> Name r = n"
  by (auto simp: find_Some_iff)

lemma find_name_cases:
  obtains r where "find (\<lambda>r. Name r = n) rs = Some r" "r \<in> set rs" "Name r = n" "n \<in> Name ` set rs"
  | "find (\<lambda>r. Name r = n) rs = None" "n \<notin> Name ` set rs"
proof (cases "find (\<lambda>r. Name r = n) rs")
  case None
  then show ?thesis using that(2) by (auto simp: find_None_iff)
next
  case (Some r)
  then show ?thesis using that(1) find_name_Some [OF Some] by blast
qed

lemma choose_answer_Some:
  "choose_answer ours remote = Some r \<Longrightarrow> r \<in> set remote \<and> Name r \<in> Name ` set ours"
  by (induction ours) (auto split: option.splits dest: find_name_Some)

lemma choose_offer_Some:
  "choose_offer ours remote = Some r \<Longrightarrow> r \<in> set remote \<and> Name r \<in> Name ` set ours"
  by (induction remote) (auto split: if_splits)

lemma choose_answer_None:
  "choose_answer ours remote = None \<longleftrightarrow> Name ` set ours \<inter> Name ` set remote = {}"
proof (induction ours)
  case (Cons c ours)
  show ?case
    by (rule find_name_cases [where n = "Name c" and rs = remote]) (use Cons in auto)
qed simp

lemma choose_offer_None:
  "choose_offer ours remote = None \<longleftrightarrow> Name ` set ours \<inter> Name ` set remote = {}"
  by (induction remote) auto

lemma choose_codec_Some:
  "choose_codec ours remote a = Some r \<Longrightarrow> r \<in> set remote \<and> Name r \<in> Name ` set ours"
  by (auto simp: choose_codec_def split: if_splits dest: choose_answer_Some choose_offer_Some)

lemma choose_codec_None:
  "choose_codec ours remote a = None \<longleftrightarrow> Name ` set ours \<inter> Name ` set remote = {}"
  by (simp add: choose_codec_def choose_answer_None choose_offer_None)

text \<open>An answer carries one codec, and the offerer finds it back.\<close>

lemma choose_single:
  "Name c \<in> Name ` set ours \<Longrightarrow> choose_codec ours [c] False = Some c"
  by (auto simp: choose_codec_def)

section \<open>Reading back what is rendered\<close>

lemma Atoi_Itoa_byte [simp]: "Atoi (Itoa (uint (x :: byte))) = (uint x, True)"
proof (rule Atoi_Itoa)
  show "- (2 ^ 63) \<le> uint x" by (rule order_trans [OF _ uint_ge_0]) simp
  show "uint x < 2 ^ 63" by (rule less_trans [OF uint8_less]) simp
qed

lemma Itoa_byte_inj [simp]: "Itoa (uint a) = Itoa (uint b) \<longleftrightarrow> a = (b :: byte)"
  by (metis Atoi_Itoa_byte prod.inject word_uint_eq_iff)

lemma FormatNat_plain: "c \<in> set (FormatNat n) \<Longrightarrow> is_digit c"
  using FormatNat_digits [of n] by (simp add: list_all_iff)

lemma Itoa_nonneg_plain: "0 \<le> i \<Longrightarrow> \<not> is_digit c \<Longrightarrow> c \<notin> set (Itoa i)"
  by (auto simp: Itoa_def dest: FormatNat_plain)

lemma rtpmap_cut:
  assumes "0 \<le> i" and "CHR ''/'' \<notin> set name"
  shows "parse_attribute (''rtpmap'', Itoa i @ '' '' @ name @ ''/'' @ rate) (names, dir)
      = (names(Itoa i \<mapsto> name), dir)"
proof -
  have "CHR '' '' \<notin> set (Itoa i)"
    by (rule Itoa_nonneg_plain [OF assms(1)]) (simp add: is_digit_def)
  then have "Cut (Itoa i @ '' '' @ name @ ''/'' @ rate) '' '' = (Itoa i, name @ ''/'' @ rate, True)"
    using Cut_char_found [of "CHR '' ''" "Itoa i" "name @ ''/'' @ rate"] by simp
  moreover have "Cut (name @ ''/'' @ rate) ''/'' = (name, rate, True)"
    using Cut_char_found [OF assms(2), of rate] by simp
  ultimately show ?thesis
    by (simp add: parse_attribute_def)
qed

definition add_names :: "Codec list \<Rightarrow> (string \<rightharpoonup> string) \<Rightarrow> (string \<rightharpoonup> string)" where
  "add_names cs names = fold (\<lambda>c m. m(Itoa (uint (PT c)) \<mapsto> Name c)) cs names"

lemma rtpmap_codecs:
  "list_all known_codec cs \<Longrightarrow>
   fold parse_attribute (map (\<lambda>c. (''rtpmap'', Itoa (uint (PT c)) @ '' '' @ Name c @ ''/'' @ rate)) cs) (names, dir)
     = (add_names cs names, dir)"
proof (induction cs arbitrary: names)
  case (Cons c cs)
  then have "CHR ''/'' \<notin> set (Name c)" using known_name [of c] by auto
  with Cons rtpmap_cut [of "uint (PT c)" "Name c" rate names dir] show ?case
    by (simp add: add_names_def)
qed (simp add: add_names_def)

lemma add_names_other: "k \<notin> (\<lambda>c. Itoa (uint (PT c))) ` set cs \<Longrightarrow> add_names cs names k = names k"
  by (induction cs arbitrary: names) (auto simp: add_names_def)

lemma add_names_mem:
  "distinct (map PT cs) \<Longrightarrow> c \<in> set cs \<Longrightarrow> add_names cs names (Itoa (uint (PT c))) = Some (Name c)"
proof (induction cs arbitrary: names)
  case (Cons d cs)
  have step: "add_names (d # cs) names = add_names cs (names(Itoa (uint (PT d)) \<mapsto> Name d))"
    by (simp add: add_names_def)
  show ?case
  proof (cases "c \<in> set cs")
    case True
    with Cons show ?thesis by (simp add: step)
  next
    case False
    with Cons.prems have "c = d" "Itoa (uint (PT c)) \<notin> (\<lambda>c. Itoa (uint (PT c))) ` set cs"
      by auto
    then show ?thesis by (simp add: step add_names_other)
  qed
qed simp

lemma parse_format_codec:
  assumes "known_codec c" and "names (Itoa (uint (PT c))) = Some (Name c)"
  shows "parse_format names (Itoa (uint (PT c))) r = r\<lparr>Codecs := Codecs r @ [c]\<rparr>"
proof -
  have upper: "CodecByName ''PCMU'' = Inr PCMU" "CodecByName ''PCMA'' = Inr PCMA"
    by (simp_all add: CodecByName_def ToUpper_def upper_def TrimSpace_def TrimLeft_def is_space_def char_eval)
  have fold: "\<not> EqualFold ''PCMU'' telephoneEvent" "\<not> EqualFold ''PCMA'' telephoneEvent"
    by (simp_all add: EqualFold_def ToLower_def telephoneEvent_def)
  from assms(1) show ?thesis
    by (rule known_codecE) (use assms(2) upper fold in \<open>simp_all add: parse_format_def\<close>)
qed

lemma parse_formats_codecs:
  "list_all known_codec cs \<Longrightarrow> \<forall>c \<in> set cs. names (Itoa (uint (PT c))) = Some (Name c) \<Longrightarrow>
   fold (parse_format names) (map (\<lambda>c. Itoa (uint (PT c))) cs) r = r\<lparr>Codecs := Codecs r @ cs\<rparr>"
  by (induction cs arbitrary: r) (simp_all add: parse_format_codec)

lemma parse_format_dtmf:
  assumes "0 \<le> n" "n \<le> 127" "names (Itoa n) = Some telephoneEvent"
  shows "parse_format names (Itoa n) r = r\<lparr>DTMFPT := n\<rparr>"
proof -
  have "Atoi (Itoa n) = (n, True)" using assms by (intro Atoi_Itoa) auto
  with assms show ?thesis by (simp add: parse_format_def)
qed

text \<open>The names the attribute loop ends up with for a rendered description.\<close>

definition rendered_names :: "Codec list \<Rightarrow> int \<Rightarrow> (string \<rightharpoonup> string)" where
  "rendered_names cs dtmf =
     (if dtmf \<ge> 0 then (add_names cs Map.empty)(Itoa dtmf \<mapsto> telephoneEvent) else add_names cs Map.empty)"

lemma fmtp_ignored: "parse_attribute (''fmtp'', v) st = st"
  by (cases st) (simp add: parse_attribute_def dir_str_def)

lemma rendered_direction:
  "fold parse_attribute [(''ptime'', Itoa frameDurationMs), (dir_str d, [])] (m, SendRecv) = (m, d)"
  by (cases d) (simp_all add: parse_attribute_def dir_str_def)

lemma rendered_attributes:
  assumes "list_all known_codec cs"
  shows "fold parse_attribute (Attributes (hd (MediaDescriptions (sdp_desc ip p cs dtmf d)))) (Map.empty, SendRecv)
    = (rendered_names cs dtmf, d)"
proof -
  have "CHR ''/'' \<notin> set telephoneEvent" by (simp add: telephoneEvent_def)
  then show ?thesis
    using rtpmap_codecs [OF assms, of "Itoa sampleRate" Map.empty SendRecv] rendered_direction [of d]
      rtpmap_cut [of dtmf telephoneEvent "Itoa sampleRate" "add_names cs Map.empty" SendRecv]
    by (simp add: sdp_desc_def rendered_names_def fmtp_ignored)
qed

text \<open>The event's payload type is not one of the codecs'.\<close>

definition dtmf_distinct :: "Codec list \<Rightarrow> int \<Rightarrow> bool" where
  "dtmf_distinct cs dtmf \<longleftrightarrow> dtmf = -1 \<or> 0 \<le> dtmf \<and> dtmf \<le> 127 \<and> dtmf \<notin> (\<lambda>c. uint (PT c)) ` set cs"

lemma rendered_names_codec:
  assumes "distinct (map PT cs)" "dtmf_distinct cs dtmf" "c \<in> set cs"
  shows "rendered_names cs dtmf (Itoa (uint (PT c))) = Some (Name c)"
proof (cases "dtmf \<ge> 0")
  case True
  with assms(2) have dtmf: "dtmf \<le> 127" "dtmf \<noteq> uint (PT c)" using assms(3) by (auto simp: dtmf_distinct_def)
  have "Atoi (Itoa dtmf) = (dtmf, True)" using True dtmf by (intro Atoi_Itoa) auto
  then have "Itoa (uint (PT c)) \<noteq> Itoa dtmf" using dtmf(2) by (metis Atoi_Itoa_byte prod.inject)
  then show ?thesis using assms by (simp add: rendered_names_def add_names_mem)
qed (use assms in \<open>simp add: rendered_names_def add_names_mem\<close>)

lemma rendered_formats:
  assumes "list_all known_codec cs" "distinct (map PT cs)" "dtmf_distinct cs dtmf"
  shows "fold (parse_format (rendered_names cs dtmf))
      (map (\<lambda>c. Itoa (uint (PT c))) cs @ (if dtmf \<ge> 0 then [Itoa dtmf] else []))
      \<lparr>Addr = x, Codecs = [], DTMFPT = -1, Dir = d\<rparr> = \<lparr>Addr = x, Codecs = cs, DTMFPT = dtmf, Dir = d\<rparr>"
proof -
  have "parse_format (rendered_names cs dtmf) (Itoa dtmf) r = r\<lparr>DTMFPT := dtmf\<rparr>" if "dtmf \<ge> 0" for r
    using that assms(3) by (intro parse_format_dtmf) (auto simp: rendered_names_def dtmf_distinct_def)
  with assms(3) parse_formats_codecs [OF assms(1), of "rendered_names cs dtmf"] rendered_names_codec [OF assms(2,3)]
  show ?thesis by (auto simp: dtmf_distinct_def)
qed

text \<open>The description read back by the parser: the round trip of the rendered attributes.\<close>

lemma parse_rendered:
  assumes "list_all known_codec cs" and "distinct (map PT cs)" and "dtmf_distinct cs dtmf"
    and "resolve env ip = Inr a" and "\<not> IsUnspecified a" and "p \<noteq> 0"
    and "unmarshal body = Inr (sdp_desc ip p cs dtmf d)"
  shows "ParseSDP unmarshal env body =
    Inr \<lparr>Addr = Some \<lparr>IP = a, Port = p\<rparr>, Codecs = cs, DTMFPT = dtmf, Dir = d\<rparr>"
  using assms(4-7) rendered_attributes [OF assms(1), of ip p dtmf d] rendered_formats [OF assms(1-3)]
  by (simp add: ParseSDP_def sdp_desc_def parse_audio_def)

end
