(* ===== verification/Audio.thy ===== *)
theory Audio
  imports Codec
begin

text \<open>
  Audio sources, \<open>media/audio.go\<close>: whole frames of 20 ms (\<open>newAudio\<close>), the WAV reader
  (\<open>ParseWAV\<close>) and the per-codec cache of the encoded source (\<open>encoded\<close>). The mutex of
  the cache is left out: each call holds it from start to end. Tones are in \<open>Tones\<close>.
\<close>

record Audio =
  pcm :: "i16 list"
  enc :: "string \<rightharpoonup> byte list"

definition newAudio :: "i16 list \<Rightarrow> Audio" where
  "newAudio s =
     (let n = length s div frameSamples * frameSamples
      in \<lparr>pcm = (if n > 0 then take n s else replicate frameSamples 0), enc = Map.empty\<rparr>)"

definition Silence :: Audio where
  "Silence = newAudio (replicate frameSamples 0)"

text \<open>\<open>time.Duration(len(a.pcm)) * time.Second / sampleRate\<close>, in nanoseconds.\<close>

definition Duration :: "Audio \<Rightarrow> duration" where
  "Duration a = int (length (pcm a)) * 1000000000 div sampleRate"

text \<open>The encoded source and the audio with the cache filled.\<close>

definition encoded :: "Audio \<Rightarrow> Codec \<Rightarrow> byte list \<times> Audio" where
  "encoded a c =
     (case enc a (Name c) of Some b \<Rightarrow> (b, a)
      | None \<Rightarrow> (let b = map (encode c) (pcm a) in (b, a\<lparr>enc := (enc a)(Name c \<mapsto> b)\<rparr>)))"

section \<open>The WAV reader\<close>

datatype wav_error =
    NotRiff | ShortFmt | DataBeforeFmt | NeedPCM u16 u16 u16 u32 | NoData

definition bytes_of :: "string \<Rightarrow> byte list" where
  "bytes_of s = map (\<lambda>c. word_of_nat (of_char c)) s"

record wav_fmt =
  fmtFound :: bool
  wavFormat :: u16
  channels :: u16
  rate :: u32
  bits :: u16

definition samples_of :: "byte list \<Rightarrow> i16 list" where
  "samples_of body = map (\<lambda>i. get16le body (2 * i)) [0..<length body div 2]"

text \<open>
  The chunk loop at offset \<open>p\<close>. A declared size that runs past the end is cut to what is
  there; chunks are word aligned.
\<close>

function ParseWAV_loop :: "byte list \<Rightarrow> nat \<Rightarrow> wav_fmt \<Rightarrow> wav_error + Audio" where
  "ParseWAV_loop data p f =
     (if p + 8 \<le> length data then
        (let ident = take 4 (drop p data);
             size0 = unat (get32le data (p + 4));
             size = min size0 (length data - (p + 8));
             body = take size (drop (p + 8) data);
             p' = p + (8 + size + size mod 2)
         in if ident = bytes_of ''fmt '' then
              (if size < 16 then Inl ShortFmt
               else ParseWAV_loop data p'
                 \<lparr>fmtFound = True, wavFormat = get16le body 0, channels = get16le body 2,
                  rate = get32le body 4, bits = get16le body 14\<rparr>)
            else if ident = bytes_of ''data'' then
              (if \<not> fmtFound f then Inl DataBeforeFmt
               else if wavFormat f \<noteq> 1 \<or> bits f \<noteq> 16 \<or> channels f \<noteq> 1 \<or> rate f \<noteq> 8000
                 then Inl (NeedPCM (wavFormat f) (bits f) (channels f) (rate f))
               else Inr (newAudio (samples_of body)))
            else ParseWAV_loop data p' f)
      else Inl NoData)"
  by pat_completeness auto
termination
  by (relation "measure (\<lambda>(data, p, f). length data - p)") auto

declare ParseWAV_loop.simps [simp del]

definition ParseWAV :: "byte list \<Rightarrow> wav_error + Audio" where
  "ParseWAV data =
     (if length data < 12 \<or> take 4 data \<noteq> bytes_of ''RIFF'' \<or> take 4 (drop 8 data) \<noteq> bytes_of ''WAVE''
      then Inl NotRiff
      else ParseWAV_loop data 12 \<lparr>fmtFound = False, wavFormat = 0, channels = 0, rate = 0, bits = 0\<rparr>)"

section \<open>Whole frames\<close>

text \<open>
  What the sender relies on when it cuts packets out of the source: at least one frame,
  and no partial one.
\<close>

definition framed :: "'a list \<Rightarrow> bool" where
  "framed xs \<longleftrightarrow> xs \<noteq> [] \<and> length xs mod frameSamples = 0"

lemma newAudio_framed: "framed (pcm (newAudio s))"
proof -
  let ?n = "length s div 160 * 160"
  have "?n \<le> length s" by simp
  then show ?thesis by (auto simp: newAudio_def framed_def Let_def)
qed

lemma newAudio_prefix:
  "frameSamples \<le> length s \<Longrightarrow> pcm (newAudio s) = take (length s div frameSamples * frameSamples) s"
  by (simp add: newAudio_def)

text \<open>The cache only ever holds the encoding of the source.\<close>

definition cache_ok :: "Audio \<Rightarrow> bool" where
  "cache_ok a \<longleftrightarrow> (\<forall>c \<in> {PCMU, PCMA}. enc a (Name c) \<in> {None, Some (map (encode c) (pcm a))})"

lemma cache_ok_new: "cache_ok (newAudio s)"
  by (simp add: cache_ok_def newAudio_def)

lemma encoded_correct:
  assumes "cache_ok a" and "known_codec c"
  shows "fst (encoded a c) = map (encode c) (pcm a)" and "cache_ok (snd (encoded a c))"
    and "pcm (snd (encoded a c)) = pcm a"
proof -
  have "enc a (Name c) \<in> {None, Some (map (encode c) (pcm a))}"
    using assms(2) by (rule known_codecE) (use assms(1) in \<open>simp_all add: cache_ok_def\<close>)
  then consider "encoded a c = (map (encode c) (pcm a), a)"
    | "encoded a c = (map (encode c) (pcm a), a\<lparr>enc := (enc a)(Name c \<mapsto> map (encode c) (pcm a))\<rparr>)"
    by (auto simp: encoded_def Let_def)
  moreover have "cache_ok (a\<lparr>enc := (enc a)(Name c \<mapsto> map (encode c) (pcm a))\<rparr>)"
    using assms(2) by (rule known_codecE) (use assms(1) in \<open>simp_all add: cache_ok_def\<close>)
  ultimately show "fst (encoded a c) = map (encode c) (pcm a)" and "cache_ok (snd (encoded a c))"
    and "pcm (snd (encoded a c)) = pcm a"
    using assms(1) by (cases; simp)+
qed

section \<open>A RIFF file, chunk by chunk\<close>

definition chunk :: "string \<Rightarrow> byte list \<Rightarrow> byte list" where
  "chunk ident body =
     bytes_of ident @ put32le (word_of_nat (length body)) @ body @ (if odd (length body) then [0] else [])"

definition riff :: "byte list \<Rightarrow> byte list" where
  "riff chunks = bytes_of ''RIFF'' @ put32le (word_of_nat (4 + length chunks)) @ bytes_of ''WAVE'' @ chunks"

lemma length_bytes_of [simp]: "length (bytes_of s) = length s"
  by (simp add: bytes_of_def)

lemma length_chunk: "length ident = 4 \<Longrightarrow> length (chunk ident body) = 8 + length body + length body mod 2"
  by (simp add: chunk_def odd_iff_mod_2_eq_one)

lemma bytes_of_inj [simp]: "bytes_of s = bytes_of t \<longleftrightarrow> s = t"
proof -
  have "inj (\<lambda>c. word_of_nat (of_char c) :: byte)"
  proof (rule injI)
    fix c d :: char
    assume "(word_of_nat (of_char c) :: byte) = word_of_nat (of_char d)"
    then have "unat (word_of_nat (of_char c) :: byte) = unat (word_of_nat (of_char d) :: byte)" by simp
    then have "(of_char c :: nat) = of_char d" by (simp add: unat_of_nat)
    then show "c = d" by simp
  qed
  then show ?thesis by (simp add: bytes_of_def inj_map_eq_map)
qed

text \<open>What the loop finds at the start of a chunk that fits in its 32-bit size field.\<close>

lemma chunk_at:
  assumes "length ident = 4" and "length body < 2 ^ 32"
    and data: "data = pre @ chunk ident body @ rest"
  shows "length pre + 8 \<le> length data"
    and "take 4 (drop (length pre) data) = bytes_of ident"
    and "min (unat (get32le data (length pre + 4))) (length data - (length pre + 8)) = length body"
    and "take (length body) (drop (length pre + 8) data) = body"
proof -
  let ?n = "word_of_nat (length body) :: u32"
  have split: "data = (pre @ bytes_of ident) @ put32le ?n @ (body @ (if odd (length body) then [0] else []) @ rest)"
    by (simp add: data chunk_def)
  have "get32le data (length (pre @ bytes_of ident)) = ?n"
    unfolding split by (rule get_put_le)
  then have size: "unat (get32le data (length pre + 4)) = length body"
    using assms(1,2) by (simp add: unat_of_nat)
  show "length pre + 8 \<le> length data" using assms(1) by (simp add: split)
  show "take 4 (drop (length pre) data) = bytes_of ident"
    using assms(1) by (simp add: data chunk_def)
  show "min (unat (get32le data (length pre + 4))) (length data - (length pre + 8)) = length body"
    unfolding size using assms(1) by (simp add: split)
  show "take (length body) (drop (length pre + 8) data) = body"
    using assms(1) by (simp add: split)
qed

lemma ParseWAV_skip:
  assumes "length ident = 4" "length body < 2 ^ 32" "data = pre @ chunk ident body @ rest"
    and "ident \<noteq> ''fmt ''" "ident \<noteq> ''data''"
  shows "ParseWAV_loop data (length pre) f = ParseWAV_loop data (length pre + length (chunk ident body)) f"
  using chunk_at [OF assms(1-3)] assms(1,4,5)
  by (subst ParseWAV_loop.simps) (simp add: Let_def length_chunk)

lemma ParseWAV_fmt:
  assumes "16 \<le> length body" "length body < 2 ^ 32" "data = pre @ chunk ''fmt '' body @ rest"
  shows "ParseWAV_loop data (length pre) f =
    ParseWAV_loop data (length pre + length (chunk ''fmt '' body))
      \<lparr>fmtFound = True, wavFormat = get16le body 0, channels = get16le body 2,
       rate = get32le body 4, bits = get16le body 14\<rparr>"
  using chunk_at [OF _ assms(2,3)] assms(1)
  by (subst ParseWAV_loop.simps) (simp add: Let_def length_chunk)

lemma ParseWAV_data:
  assumes "length body < 2 ^ 32" "data = pre @ chunk ''data'' body @ rest"
  shows "ParseWAV_loop data (length pre) f =
    (if \<not> fmtFound f then Inl DataBeforeFmt
     else if wavFormat f \<noteq> 1 \<or> bits f \<noteq> 16 \<or> channels f \<noteq> 1 \<or> rate f \<noteq> 8000
       then Inl (NeedPCM (wavFormat f) (bits f) (channels f) (rate f))
     else Inr (newAudio (samples_of body)))"
  using chunk_at [OF _ assms]
  by (subst ParseWAV_loop.simps) (simp add: Let_def length_chunk)

definition plain_chunks :: "(string \<times> byte list) list \<Rightarrow> bool" where
  "plain_chunks cs \<longleftrightarrow> list_all (\<lambda>(ident, body). length ident = 4 \<and> length body < 2 ^ 32 \<and>
     ident \<noteq> ''fmt '' \<and> ident \<noteq> ''data'') cs"

definition chunks :: "(string \<times> byte list) list \<Rightarrow> byte list" where
  "chunks cs = concat (map (\<lambda>(ident, body). chunk ident body) cs)"

lemma ParseWAV_skip_all:
  "plain_chunks cs \<Longrightarrow> data = pre @ chunks cs @ rest \<Longrightarrow>
   ParseWAV_loop data (length pre) f = ParseWAV_loop data (length pre + length (chunks cs)) f"
proof (induction cs arbitrary: pre)
  case (Cons c cs)
  obtain ident body where c: "c = (ident, body)" by (cases c)
  from Cons.prems have data: "data = pre @ chunk ident body @ (chunks cs @ rest)"
    "data = (pre @ chunk ident body) @ chunks cs @ rest"
    by (simp_all add: chunks_def c)
  from Cons.prems(1) have "length ident = 4" "length body < 2 ^ 32" "ident \<noteq> ''fmt ''" "ident \<noteq> ''data''"
    "plain_chunks cs" by (simp_all add: plain_chunks_def c)
  with ParseWAV_skip [OF _ _ data(1)] Cons.IH [OF _ data(2)] show ?case
    by (simp add: chunks_def c add.assoc)
qed (simp add: chunks_def)

section \<open>Samples as bytes\<close>

definition sample_bytes :: "i16 list \<Rightarrow> byte list" where
  "sample_bytes s = concat (map put16le s)"

lemma length_sample_bytes [simp]: "length (sample_bytes s) = 2 * length s"
  by (induction s) (simp_all add: sample_bytes_def)

lemma sample_at: "i < length s \<Longrightarrow> get16le (sample_bytes s) (2 * i) = s ! i"
proof -
  assume "i < length s"
  then have "s = take i s @ s ! i # drop (Suc i) s" by (simp add: id_take_nth_drop)
  then have "sample_bytes s = sample_bytes (take i s) @ put16le (s ! i) @ sample_bytes (drop (Suc i) s)"
    by (metis append_assoc concat.simps(2) concat_append list.simps(9) map_append sample_bytes_def)
  moreover have "length (sample_bytes (take i s)) = 2 * i" using \<open>i < length s\<close> by simp
  ultimately show ?thesis by (metis get_put_le(1))
qed

lemma samples_of_bytes [simp]: "samples_of (sample_bytes s) = s"
  by (rule nth_equalityI) (simp_all add: samples_of_def sample_at)

definition fmt_body :: "u16 \<Rightarrow> u16 \<Rightarrow> u32 \<Rightarrow> u32 \<Rightarrow> u16 \<Rightarrow> u16 \<Rightarrow> byte list" where
  "fmt_body fmt ch rt brate align bps =
     put16le fmt @ put16le ch @ put32le rt @ put32le brate @ put16le align @ put16le bps"

lemma fmt_body_fields:
  "get16le (fmt_body fmt ch rt brate align bps @ ext) 0 = fmt"
  "get16le (fmt_body fmt ch rt brate align bps @ ext) 2 = ch"
  "get32le (fmt_body fmt ch rt brate align bps @ ext) 4 = rt"
  "get16le (fmt_body fmt ch rt brate align bps @ ext) 14 = bps"
  "length (fmt_body fmt ch rt brate align bps) = 16"
  using get_put_le(1) [of "[]" fmt] get_put_le(1) [of "put16le fmt" ch]
    get_put_le(2) [of "put16le fmt @ put16le ch" rt]
    get_put_le(1) [of "put16le fmt @ put16le ch @ put32le rt @ put32le brate @ put16le align" bps]
  by (simp_all add: fmt_body_def)

section \<open>The reader accepts every well-formed file\<close>

text \<open>Any chunks before the format, between it and the data, and anything after the data.\<close>

lemma ParseWAV_chunks:
  assumes pre: "plain_chunks before" and mid: "plain_chunks between"
    and fmt: "length ext \<le> 65536" and len: "length body < 2 ^ 32"
  shows "ParseWAV (riff (chunks before @
      chunk ''fmt '' (fmt_body format ch rt brate align bps @ ext) @
      chunks between @ chunk ''data'' body @ rest)) =
    (if format \<noteq> 1 \<or> bps \<noteq> 16 \<or> ch \<noteq> 1 \<or> rt \<noteq> 8000 then Inl (NeedPCM format bps ch rt)
     else Inr (newAudio (samples_of body)))"
    (is "ParseWAV ?data = ?result")
proof -
  let ?fmt = "fmt_body format ch rt brate align bps @ ext"
  let ?tail = "chunks before @ chunk ''fmt '' ?fmt @ chunks between @ chunk ''data'' body @ rest"
  let ?head = "bytes_of ''RIFF'' @ put32le (word_of_nat (4 + length ?tail)) @ bytes_of ''WAVE''"
  let ?f = "\<lparr>fmtFound = True, wavFormat = format, channels = ch, rate = rt, bits = bps\<rparr>"
  have d0: "?data = ?head @ chunks before @ (chunk ''fmt '' ?fmt @ chunks between @ chunk ''data'' body @ rest)"
    and d1: "?data = (?head @ chunks before) @ chunk ''fmt '' ?fmt @ (chunks between @ chunk ''data'' body @ rest)"
    and d2: "?data = (?head @ chunks before @ chunk ''fmt '' ?fmt) @ chunks between @ (chunk ''data'' body @ rest)"
    and d3: "?data = (?head @ chunks before @ chunk ''fmt '' ?fmt @ chunks between) @ chunk ''data'' body @ rest"
    by (simp_all add: riff_def)
  have "length ?fmt < 2 ^ 32" "16 \<le> length ?fmt"
    using fmt by (simp_all add: fmt_body_fields(5))
  note steps = ParseWAV_skip_all [OF pre d0] ParseWAV_fmt [OF this(2,1) d1]
    ParseWAV_skip_all [OF mid d2] ParseWAV_data [OF len d3]
  have "ParseWAV ?data = ParseWAV_loop ?data (length ?head)
      \<lparr>fmtFound = False, wavFormat = 0, channels = 0, rate = 0, bits = 0\<rparr>"
    by (simp add: ParseWAV_def riff_def)
  also have "\<dots> = ParseWAV_loop ?data (length (?head @ chunks before @ chunk ''fmt '' ?fmt @ chunks between)) ?f"
    using steps(1-3) by (simp add: fmt_body_fields add.assoc)
  also have "\<dots> = ?result"
    by (subst steps(4)) simp
  finally show ?thesis .
qed

text \<open>C9: The WAV reader finds the samples of any well-formed 8 kHz mono PCM file: other chunks may stand
  before and between the format and the data, the format chunk may have an extension, and anything
  may follow; the audio is cut to whole frames by \<open>newAudio\<close>.\<close>

theorem ParseWAV_accepts:
  assumes "plain_chunks before" "plain_chunks between" "length ext \<le> 65536" "length s < 2 ^ 31"
  shows "ParseWAV (riff (chunks before @
      chunk ''fmt '' (fmt_body 1 1 8000 brate align 16 @ ext) @
      chunks between @ chunk ''data'' (sample_bytes s) @ rest)) = Inr (newAudio s)"
  using ParseWAV_chunks [OF assms(1-3), of "sample_bytes s" 1 1 8000 brate align 16 rest] assms(4)
  by simp

theorem ParseWAV_accepts_witness:
  "ParseWAV (riff (chunks [(''LIST'', [1, 2, 3])] @ chunk ''fmt '' (fmt_body 1 1 8000 16000 2 16 @ [0, 0]) @
      chunks [] @ chunk ''data'' (sample_bytes [7, 65535]) @ [9])) = Inr (newAudio [7, 65535])"
  by (rule ParseWAV_accepts) (simp_all add: plain_chunks_def)

end
