(* ===== verification/Recorder.thy ===== *)
theory Recorder
  imports Audio "HOL-Library.Multiset" "HOL-Library.Signed_Division"
begin

text \<open>
  Call recording, \<open>media/record.go\<close>: frames placed on a timeline by their RTP timestamp
  (\<open>track.put\<close>), the recorder of the two directions, and the stereo WAV file
  (\<open>WriteWAV\<close>). The recorder's clock is a parameter: \<open>at_pos\<close> converts an instant to a sample
  position; the code computes it in floating point, here it is the exact quotient.
\<close>

definition maxRecordSamples :: int where
  "maxRecordSamples = 15 * 60 * sampleRate"

record track =
  init :: bool
  ssrc :: u32
  ts0 :: u32          \<comment> \<open>RTP timestamp of the first frame of this SSRC\<close>
  off0 :: int         \<comment> \<open>its sample position on the timeline\<close>
  samples :: "i16 list"

record recorder =
  start :: time
  rx :: track
  tx :: track

definition new_track :: track where
  "new_track = \<lparr>init = False, ssrc = 0, ts0 = 0, off0 = 0, samples = []\<rparr>"

definition newRecorder :: "time \<Rightarrow> recorder" where
  "newRecorder now = \<lparr>start = now, rx = new_track, tx = new_track\<rparr>"

definition at_pos :: "recorder \<Rightarrow> time \<Rightarrow> int" where
  "at_pos r now = ((now - start r) * sampleRate) sdiv 1000000000"

text \<open>The final loop of \<open>put\<close>: one sample per payload byte, from position \<open>p\<close> on.\<close>

fun store :: "i16 list \<Rightarrow> nat \<Rightarrow> byte list \<Rightarrow> i16 list \<Rightarrow> i16 list" where
  "store ss p [] table = ss"
| "store ss p (b # bs) table = store (ss[p := table ! unat b]) (Suc p) bs table"

text \<open>The track is grown with silence up to \<open>need\<close>.\<close>

definition grow :: "i16 list \<Rightarrow> nat \<Rightarrow> i16 list" where
  "grow ss need = (if need > length ss then ss @ replicate (need - length ss) 0 else ss)"

definition put :: "track \<Rightarrow> int \<Rightarrow> u32 \<Rightarrow> u32 \<Rightarrow> byte list \<Rightarrow> i16 list \<Rightarrow> track" where
  "put t now ssrc' ts payload table =
     (let t1 = (if \<not> init t \<or> ssrc' \<noteq> ssrc t
                then t\<lparr>init := True, ssrc := ssrc', ts0 := ts, off0 := now\<rparr> else t);
          p = off0 t1 + sint (ts - ts0 t1)
      in if p < 0 \<or> p + int (length payload) > maxRecordSamples then t1
         else t1\<lparr>samples := store (grow (samples t1) (nat p + length payload)) (nat p) payload table\<rparr>)"

record Recording =
  Heard :: "i16 list"
  Sent :: "i16 list"

definition recording_of :: "recorder option \<Rightarrow> Recording option" where
  "recording_of rec = map_option (\<lambda>r. \<lparr>Heard = samples (rx r), Sent = samples (tx r)\<rparr>) rec"

definition pad_frame :: "i16 list \<Rightarrow> nat \<Rightarrow> byte list" where
  "pad_frame s i = (if i < length s then put16le (s ! i) else [0, 0])"

text \<open>The bytes handed to the writer.\<close>

definition WriteWAV :: "Recording \<Rightarrow> byte list" where
  "WriteWAV r =
     (let n = max (length (Heard r)) (length (Sent r)) in
      bytes_of ''RIFF'' @ put32le (word_of_nat (36 + 4 * n)) @ bytes_of ''WAVEfmt '' @
      put32le 16 @ put16le 1 @ put16le 2 @ put32le 8000 @ put32le (8000 * 4) @
      put16le 4 @ put16le 16 @ bytes_of ''data'' @ put32le (word_of_nat (4 * n)) @
      concat (map (\<lambda>i. pad_frame (Heard r) i @ pad_frame (Sent r) i) [0..<n]))"

section \<open>Placing frames\<close>

lemma length_store [simp]: "length (store ss p bs table) = length ss"
  by (induction bs arbitrary: ss p) simp_all

lemma nth_store:
  "p + length bs \<le> length ss \<Longrightarrow> i < length ss \<Longrightarrow>
   store ss p bs table ! i = (if p \<le> i \<and> i < p + length bs then table ! unat (bs ! (i - p)) else ss ! i)"
proof (induction bs arbitrary: ss p)
  case (Cons b bs)
  then show ?case
    by (auto simp: nth_Cons' not_less le_Suc_eq Suc_le_eq dest: le_antisym)
qed auto

lemma length_grow [simp]: "length (grow ss n) = max (length ss) n"
  by (simp add: grow_def)

lemma nth_grow: "i < max (length ss) n \<Longrightarrow> grow ss n ! i = (if i < length ss then ss ! i else 0)"
  by (auto simp: grow_def nth_append)

text \<open>The sample heard at position \<open>i\<close>: silence where nothing was recorded.\<close>

definition sound :: "i16 list \<Rightarrow> nat \<Rightarrow> i16" where
  "sound ss i = (if i < length ss then ss ! i else 0)"

lemma sound_eqI: "length ss = length ss' \<Longrightarrow> (\<And>i. sound ss i = sound ss' i) \<Longrightarrow> ss = ss'"
proof (rule nth_equalityI)
  fix i assume l: "length ss = length ss'" and s: "\<And>i. sound ss i = sound ss' i" and "i < length ss"
  then show "ss ! i = ss' ! i" using s [of i] by (simp add: sound_def)
qed

definition place :: "nat \<Rightarrow> byte list \<Rightarrow> i16 list \<Rightarrow> i16 list \<Rightarrow> i16 list" where
  "place p payload table ss = store (grow ss (p + length payload)) p payload table"

lemma length_place [simp]: "length (place p bs table ss) = max (length ss) (p + length bs)"
  by (simp add: place_def)

lemma sound_place:
  "sound (place p bs table ss) i =
     (if p \<le> i \<and> i < p + length bs then table ! unat (bs ! (i - p)) else sound ss i)"
  by (auto simp: sound_def place_def nth_store nth_grow)

text \<open>Two frames agree if they do not overlap, or are the same frame sent twice.\<close>

definition apart :: "nat \<Rightarrow> byte list \<Rightarrow> nat \<Rightarrow> byte list \<Rightarrow> bool" where
  "apart p bs q cs \<longleftrightarrow> p + length bs \<le> q \<or> q + length cs \<le> p \<or> (p = q \<and> bs = cs)"

lemma place_commute:
  "apart p bs q cs \<Longrightarrow> place p bs table (place q cs table ss) = place q cs table (place p bs table ss)"
  by (rule sound_eqI) (auto simp: sound_place apart_def)

text \<open>The position a frame of the current SSRC is stored at.\<close>

definition position :: "track \<Rightarrow> u32 \<Rightarrow> int" where
  "position t ts = off0 t + sint (ts - ts0 t)"

definition fits :: "track \<Rightarrow> u32 \<times> byte list \<Rightarrow> bool" where
  "fits t f = (0 \<le> position t (fst f) \<and> position t (fst f) + int (length (snd f)) \<le> maxRecordSamples)"

lemma put_same_ssrc:
  "init t \<Longrightarrow> put t now (ssrc t) ts payload table =
     (if fits t (ts, payload)
      then t\<lparr>samples := place (nat (position t ts)) payload table (samples t)\<rparr> else t)"
  by (auto simp: put_def fits_def position_def place_def Let_def)

text \<open>A sequence of frames of one SSRC, each with its RTP timestamp and its arrival position.\<close>

fun puts :: "track \<Rightarrow> u32 \<Rightarrow> i16 list \<Rightarrow> (int \<times> u32 \<times> byte list) list \<Rightarrow> track" where
  "puts t s table [] = t"
| "puts t s table ((now, ts, payload) # fs) = puts (put t now s ts payload table) s table fs"

definition places :: "track \<Rightarrow> i16 list \<Rightarrow> (u32 \<times> byte list) list \<Rightarrow> i16 list \<Rightarrow> i16 list" where
  "places t table fs ss =
     fold (\<lambda>f ss. if fits t f then place (nat (position t (fst f))) (snd f) table ss else ss) fs ss"

lemma fits_samples [simp]: "fits (t\<lparr>samples := ss\<rparr>) = fits t" "position (t\<lparr>samples := ss\<rparr>) = position t"
  by (simp_all add: fits_def position_def fun_eq_iff)

lemma places_samples [simp]: "places (t\<lparr>samples := ss\<rparr>) = places t"
  by (intro ext) (simp add: places_def cong: if_cong)

lemma places_Cons:
  "places t table (f # fs) ss =
     places t table fs (if fits t f then place (nat (position t (fst f))) (snd f) table ss else ss)"
  by (simp add: places_def)

lemma puts_places:
  "init t \<Longrightarrow> puts t (ssrc t) table fs =
     t\<lparr>samples := places t table (map snd fs) (samples t)\<rparr>"
proof (induction fs arbitrary: t)
  case (Cons f fs)
  obtain now ts payload where f: "f = (now, ts, payload)" by (cases f)
  define t' where "t' = put t now (ssrc t) ts payload table"
  have t': "t' = t\<lparr>samples := (if fits t (ts, payload)
      then place (nat (position t ts)) payload table (samples t) else samples t)\<rparr>"
    using Cons.prems by (simp add: t'_def put_same_ssrc)
  have "puts t' (ssrc t') table fs = t'\<lparr>samples := places t' table (map snd fs) (samples t')\<rparr>"
    using Cons.prems by (intro Cons.IH) (simp add: t')
  then show ?case by (simp add: f t' flip: t'_def) (simp add: t' places_Cons)
qed (simp add: places_def)

definition frames_apart :: "track \<Rightarrow> (u32 \<times> byte list) list \<Rightarrow> bool" where
  "frames_apart t fs \<longleftrightarrow> (\<forall>f \<in> set fs. \<forall>g \<in> set fs. fits t f \<longrightarrow> fits t g \<longrightarrow>
     apart (nat (position t (fst f))) (snd f) (nat (position t (fst g))) (snd g))"

lemma places_reorder:
  assumes "mset fs = mset gs" "frames_apart t fs"
  shows "places t table fs ss = places t table gs ss"
proof -
  let ?p = "\<lambda>f ss. if fits t f then place (nat (position t (fst f))) (snd f) table ss else ss"
  have comm: "?p f \<circ> ?p g = ?p g \<circ> ?p f" if "f \<in> set fs" "g \<in> set fs" for f g
    using assms(2) that by (auto simp: fun_eq_iff frames_apart_def intro: place_commute)
  have "fold ?p fs = fold ?p gs"
    by (rule fold_multiset_equiv [OF comm assms(1)])
  then show ?thesis by (simp add: places_def)
qed

text \<open>What is heard where a frame was stored.\<close>

lemma recording_sound:
  assumes "init t" "fits t (ts, payload)" "i < length payload"
  shows "sound (samples (put t now (ssrc t) ts payload table)) (nat (position t ts) + i) = table ! unat (payload ! i)"
  using assms by (simp add: put_same_ssrc sound_place)

lemma recording_frame_apart: 
  assumes "j < nat (position t ts) \<or> nat (position t ts) + length payload \<le> j" "init t"
  shows "sound (samples (put t now (ssrc t) ts payload table)) j = sound (samples t) j"
  using assms by (auto simp: put_same_ssrc sound_place)

text \<open>A recording never exceeds the cap.\<close>

lemma put_cap:
  "int (length (samples t)) \<le> maxRecordSamples \<Longrightarrow>
   int (length (samples (put t now s ts payload table))) \<le> maxRecordSamples"
  by (auto simp: put_def Let_def grow_def)

lemma put_grows: "length (samples t) \<le> length (samples (put t now s ts payload table))"
  by (auto simp: put_def Let_def)

section \<open>The WAV file\<close>

text \<open>Left and right channel of the file: the shorter track is padded with silence.\<close>

definition interleave :: "Recording \<Rightarrow> i16 list" where
  "interleave r = concat (map (\<lambda>i. [sound (Heard r) i, sound (Sent r) i])
     [0..<max (length (Heard r)) (length (Sent r))])"

lemma pad_frame_sound: "pad_frame s i = put16le (sound s i)"
  by (simp add: pad_frame_def sound_def put16le_def)

lemma length_interleave: "length (interleave r) = 2 * max (length (Heard r)) (length (Sent r))"
  by (simp add: interleave_def length_concat comp_def sum_list_triv)

lemma frames_sample_bytes:
  "concat (map (\<lambda>i. pad_frame h i @ pad_frame s i) is) =
   sample_bytes (concat (map (\<lambda>i. [sound h i, sound s i]) is))"
  by (induction "is") (simp_all add: pad_frame_sound sample_bytes_def)

lemma nth_interleave:
  assumes "i < max (length (Heard r)) (length (Sent r))"
  shows "interleave r ! (2 * i) = sound (Heard r) i" "interleave r ! (2 * i + 1) = sound (Sent r) i"
proof -
  have "concat (map (\<lambda>i. [f i, g i]) [0..<n]) ! (2 * i) = f i \<and>
        concat (map (\<lambda>i. [f i, g i]) [0..<n]) ! (2 * i + 1) = g i" if "i < n" for n and f g :: "nat \<Rightarrow> i16"
    using that
  proof (induction n)
    case (Suc n)
    have "length (concat (map (\<lambda>i. [f i, g i]) [0..<n])) = 2 * n" by (induction n) simp_all
    with Suc show ?case by (cases "i = n") (simp_all add: nth_append)
  qed simp
  from this [OF assms] show "interleave r ! (2 * i) = sound (Heard r) i"
    "interleave r ! (2 * i + 1) = sound (Sent r) i" by (simp_all add: interleave_def)
qed

text \<open>What the code writes by offsets is one \<open>fmt\<close> chunk and one \<open>data\<close> chunk in a RIFF envelope.\<close>

lemma WriteWAV_riff:
  "WriteWAV r = riff (chunk ''fmt '' (fmt_body 1 2 8000 32000 4 16) @ chunk ''data'' (sample_bytes (interleave r)))"
proof -
  have "36 + 4 * n = 4 + (24 + (8 + 4 * n))" for n :: nat by simp
  then show ?thesis
    by (simp add: WriteWAV_def riff_def chunk_def Let_def frames_sample_bytes fmt_body_def length_interleave
        bytes_of_def flip: interleave_def)
qed

text \<open>The tracks of a recorder stay under the cap, so the sizes fit in the header's 32-bit fields.\<close>

lemma recording_fits:
  "int (length (Heard r)) \<le> maxRecordSamples \<Longrightarrow> int (length (Sent r)) \<le> maxRecordSamples \<Longrightarrow>
   length (sample_bytes (interleave r)) < 2 ^ 32"
  by (simp add: length_interleave maxRecordSamples_def)

text \<open>
  The track that a run of frames of SSRC \<open>s\<close> is placed on: the first frame anchors a fresh track, or a
  track of another SSRC, at the position of its arrival; a track of this SSRC keeps its anchor.
\<close>

definition anchored :: "track \<Rightarrow> u32 \<Rightarrow> (int \<times> u32 \<times> byte list) list \<Rightarrow> track" where
  "anchored t s fs =
     (case fs of [] \<Rightarrow> t
      | (now, ts, _) # _ \<Rightarrow>
          if init t \<and> ssrc t = s then t else t\<lparr>init := True, ssrc := s, ts0 := ts, off0 := now\<rparr>)"

lemma anchored_frame:
  assumes "fs \<noteq> []"
  shows "init (anchored t s fs)" "ssrc (anchored t s fs) = s"
  using assms by (auto simp: anchored_def split: list.split)

lemma puts_anchored: "puts t s table fs = puts (anchored t s fs) s table fs"
  by (cases fs) (auto simp: anchored_def put_def Let_def)

lemma anchored_same:
  "init t \<and> ssrc t = s \<or> hd fs = hd gs \<Longrightarrow> fs \<noteq> [] \<Longrightarrow> gs \<noteq> [] \<Longrightarrow> anchored t s fs = anchored t s gs"
  by (cases fs; cases gs) (auto simp: anchored_def split: prod.split)

text \<open>C10: A recording does not depend on the order its frames arrive in: any two arrival orders of the
  same frames of one SSRC leave the same track, when frames do not overlap unless they are the same
  packet twice (jitter, reordering and duplicates do not shift the audio). The two orders must share
  the frame that anchors the track: on a track that already has the SSRC any two orders do; on a fresh
  track, or after a change of SSRC, both must begin with the same frame, whose arrival fixes where the
  stream starts.\<close>

theorem recording_reorder:
  assumes "mset (map snd fs) = mset (map snd gs)" "init t \<and> ssrc t = s \<or> hd fs = hd gs"
    and "frames_apart (anchored t s fs) (map snd fs)"
  shows "puts t s table fs = puts t s table gs"
proof (cases "fs = []")
  case False
  have gs: "gs \<noteq> []" using assms(1) False by auto
  let ?t = "anchored t s fs"
  have "puts ?t (ssrc ?t) table fs = puts ?t (ssrc ?t) table gs"
    using assms(1,3) anchored_frame(1) [OF False] by (simp add: puts_places places_reorder)
  then show ?thesis
    using anchored_same [OF assms(2) False gs] anchored_frame(2) [OF False, of t s]
    by (simp add: puts_anchored [of t s table fs] puts_anchored [of t s table gs])
qed (use assms(1) in simp)

definition demo_track :: track where
  "demo_track = \<lparr>init = True, ssrc = 7, ts0 = 4294967290, off0 = 100, samples = []\<rparr>"

text \<open>Once on a track that has the SSRC, with different first frames, and once on a fresh track.\<close>

theorem recording_reorder_witness:
  "puts demo_track 7 ulawTable [(100, 4294967290, [1, 2]), (102, 4294967292, [3]), (101, 5, [9, 9])] =
   puts demo_track 7 ulawTable [(100, 5, [9, 9]), (105, 4294967290, [1, 2]), (110, 4294967292, [3])] \<and>
   puts new_track 7 ulawTable [(100, 4294967290, [1, 2]), (102, 4294967292, [3]), (101, 5, [9, 9])] =
   puts new_track 7 ulawTable [(100, 4294967290, [1, 2]), (105, 5, [9, 9]), (110, 4294967292, [3])]"
proof -
  let ?fs = "[(100, 4294967290, [1, 2]), (102, 4294967292, [3]), (101, 5, [9, 9])]"
  have demo: "init demo_track \<and> ssrc demo_track = 7" by (simp add: demo_track_def)
  have apart: "frames_apart (anchored demo_track 7 ?fs) (map snd ?fs)" "frames_apart (anchored new_track 7 ?fs) (map snd ?fs)"
    by (simp_all add: frames_apart_def apart_def position_def demo_track_def new_track_def anchored_def fits_def maxRecordSamples_def)
  show ?thesis
    using recording_reorder [OF _ _ apart(1), of "[(100, 5, [9, 9]), (105, 4294967290, [1, 2]), (110, 4294967292, [3])]" ulawTable] demo
      recording_reorder [OF _ _ apart(2), of "[(100, 4294967290, [1, 2]), (105, 5, [9, 9]), (110, 4294967292, [3])]" ulawTable]
    by simp
qed

text \<open>A saved recording is a canonical stereo WAV file, so the program's own reader, which takes mono
  files only, refuses it with the format it found.\<close>

theorem WriteWAV_stereo:
  assumes "int (length (Heard r)) \<le> maxRecordSamples" "int (length (Sent r)) \<le> maxRecordSamples"
  shows "WriteWAV r = riff (chunk ''fmt '' (fmt_body 1 2 8000 32000 4 16) @ chunk ''data'' (sample_bytes (interleave r)))
    \<and> ParseWAV (WriteWAV r) = Inl (NeedPCM 1 16 2 8000)"
  using ParseWAV_chunks [of "[]" "[]" "[]" "sample_bytes (interleave r)" 1 2 8000 32000 4 16 "[]"]
    recording_fits [OF assms]
  by (simp add: WriteWAV_riff chunks_def plain_chunks_def)

theorem WriteWAV_stereo_witness:
  "ParseWAV (WriteWAV \<lparr>Heard = [1, 2, 3], Sent = [65535]\<rparr>) = Inl (NeedPCM 1 16 2 8000)"
  by (rule WriteWAV_stereo [THEN conjunct2]) (simp_all add: maxRecordSamples_def)

end
