(* ===== verification/RtpStream.thy ===== *)
theory RtpStream
  imports Complex_Main Sdp Recorder
begin

text \<open>
  The RTP stream of a call, \<open>media/stream.go\<close>: its state, the negotiation operations and
  the statistics. Sending is in \<open>RtpSend\<close>, receiving in \<open>RtpReceive\<close>. Every operation
  of the code holds the stream's mutex from its first access to its last, so an operation is
  a function from the state before to the state after. The socket is the environment: \<open>New\<close>
  takes the port it got, and the random identifiers. \<open>heardCloses\<close> counts how often the
  channel \<open>heardCh\<close> was closed (a second close would panic), \<open>digitSigs\<close> how often
  \<open>digitSig\<close> was closed and replaced. The shared audio is kept by value.
\<close>

section \<open>State\<close>

record Config =
  cfgIP :: string
  cfgCodecs :: "Codec list"
  cfgAudio :: "Audio option"
  NoLatch :: bool
  cfgRecord :: bool

record rxStats =
  rxInit :: bool
  rxSsrc :: u32
  baseSeq :: u16
  maxSeq :: u16
  cycles :: u64
  received :: u64
  prevExp :: u64       \<comment> \<open>expected and received of earlier SSRCs\<close>
  prevRecv :: u64
  lastTransit :: u32
  haveTransit :: bool
  jitter :: rat        \<comment> \<open>in timestamp units\<close>

record dtmfJob =
  event :: byte
  packets :: nat       \<comment> \<open>event duration in 20 ms packets\<close>
  gap :: nat           \<comment> \<open>silence after the event, in packets\<close>
  jobSent :: nat
  ended :: nat
  jobTs :: u32

record Stream =
  cfg :: Config
  audio :: Audio       \<comment> \<open>\<open>cfg.Audio\<close>\<close>
  port :: int
  sessID :: u64
  shard :: "nat option"
  closed :: bool
  version :: u64
  remote :: "udp_addr option"
  latched :: bool
  codec :: Codec
  hasCodec :: bool
  remoteDTMF :: int
  dir :: Direction     \<comment> \<open>our direction\<close>
  started :: bool
  mySsrc :: u32
  seq :: u16
  ts :: u32
  src :: "byte list"
  pos :: nat
  marker :: bool
  dtmfQ :: "dtmfJob list"
  sent :: u64
  heardThr :: int      \<comment> \<open>mean square threshold\<close>
  rxs :: rxStats
  rxStart :: time
  heard :: nat
  heardCloses :: nat
  digits :: string
  lastEvTS :: u32
  haveEv :: bool
  digitSigs :: nat
  rec :: "recorder option"

abbreviation heardFrames :: nat where "heardFrames \<equiv> 5"

definition zero_codec :: Codec where
  "zero_codec = \<lparr>Name = [], PT = 0, encode = (\<lambda>_. 0), decode = []\<rparr>"

definition zero_rx :: rxStats where
  "zero_rx = \<lparr>rxInit = False, rxSsrc = 0, baseSeq = 0, maxSeq = 0, cycles = 0, received = 0,
     prevExp = 0, prevRecv = 0, lastTransit = 0, haveTransit = False, jitter = 0\<rparr>"

text \<open>What \<open>New\<close> draws from its environment; \<open>envThr\<close> is \<open>int64(amp * amp)\<close>.\<close>

record new_env =
  envPort :: int
  envSess :: u64
  envSsrc :: u32
  envSeq :: u16
  envTs :: u32
  envThr :: int
  envNow :: time
  envDefaultAudio :: Audio

definition New :: "new_env \<Rightarrow> Config \<Rightarrow> Stream" where
  "New env c =
     (let c1 = (if cfgCodecs c = [] then c\<lparr>cfgCodecs := [PCMU, PCMA]\<rparr> else c);
          a = (case cfgAudio c1 of None \<Rightarrow> envDefaultAudio env | Some a \<Rightarrow> a);
          c2 = c1\<lparr>cfgAudio := Some a\<rparr>
      in \<lparr>cfg = c2, audio = a, port = envPort env, sessID = drop_bit 1 (envSess env),
          shard = None, closed = False, version = 0, remote = None, latched = False,
          codec = zero_codec, hasCodec = False, remoteDTMF = -1, dir = SendRecv, started = False,
          mySsrc = envSsrc env, seq = envSeq env, ts = envTs env, src = [], pos = 0, marker = True,
          dtmfQ = [], sent = 0, heardThr = envThr env, rxs = zero_rx, rxStart = envNow env,
          heard = 0, heardCloses = 0, digits = [], lastEvTS = 0, haveEv = False, digitSigs = 0,
          rec = (if cfgRecord c2 then Some (newRecorder (envNow env)) else None)\<rparr>)"

section \<open>Negotiation\<close>

definition Offer :: "Stream \<Rightarrow> Direction \<Rightarrow> Stream \<times> string" where
  "Offer s d =
     (let s1 = s\<lparr>dir := d, version := version s + 1\<rparr>
      in (s1, buildSDP (cfgIP (cfg s1)) (port s1) (cfgCodecs (cfg s1)) defaultDTMFPT d (sessID s1) (version s1)))"

text \<open>The address part that \<open>setRemoteLocked\<close> and \<open>Update\<close> share.\<close>

definition set_addr :: "Stream \<Rightarrow> Remote \<Rightarrow> Stream" where
  "set_addr s r =
     (case Addr r of None \<Rightarrow> s
      | Some a \<Rightarrow> if IsUnspecified (IP a) then s else s\<lparr>remote := Some a, latched := False\<rparr>)"

definition setRemoteLocked :: "Stream \<Rightarrow> Remote \<Rightarrow> Codec \<Rightarrow> Stream" where
  "setRemoteLocked s r c =
     (let s1 = set_addr s r;
          s2 = (if \<not> hasCodec s1 \<or> Name (codec s1) \<noteq> Name c
                then (let (b, a) = encoded (audio s1) c in s1\<lparr>src := b, pos := 0, audio := a\<rparr>)
                else s1)
      in s2\<lparr>codec := c, hasCodec := True, remoteDTMF := DTMFPT r\<rparr>)"

definition sdpLocked :: "Stream \<Rightarrow> Stream \<times> string" where
  "sdpLocked s =
     (let s1 = s\<lparr>version := version s + 1\<rparr>;
          dtmf = (if remoteDTMF s1 \<ge> 0 then remoteDTMF s1 else -1)
      in (s1, buildSDP (cfgIP (cfg s1)) (port s1) [codec s1] dtmf (dir s1) (sessID s1) (version s1)))"

datatype media_error = NoCommonCodec | NoCommonCodecInAnswer

definition Answer :: "Stream \<Rightarrow> Remote \<Rightarrow> media_error + (Stream \<times> string)" where
  "Answer s r =
     (case choose_codec (cfgCodecs (cfg s)) (Codecs r) True of
        None \<Rightarrow> Inl NoCommonCodec
      | Some c \<Rightarrow> Inr (sdpLocked ((setRemoteLocked s r c)\<lparr>dir := Reverse (Dir r)\<rparr>)))"

definition ApplyAnswer :: "Stream \<Rightarrow> Remote \<Rightarrow> media_error + Stream" where
  "ApplyAnswer s r =
     (case choose_codec (cfgCodecs (cfg s)) (Codecs r) False of
        None \<Rightarrow> Inl NoCommonCodecInAnswer
      | Some c \<Rightarrow> Inr ((setRemoteLocked s r c)\<lparr>dir := Reverse (Dir r)\<rparr>))"

definition Update :: "Stream \<Rightarrow> Remote \<Rightarrow> Stream \<times> string" where
  "Update s r = sdpLocked ((set_addr s r)\<lparr>dir := Reverse (Dir r)\<rparr>)"

definition SetDirection :: "Stream \<Rightarrow> Direction \<Rightarrow> Stream" where
  "SetDirection s d = s\<lparr>dir := d\<rparr>"

definition codec_name :: "Stream \<Rightarrow> string" where
  "codec_name s = (if \<not> hasCodec s then [] else Name (codec s))"

section \<open>Statistics, start and close\<close>

record Stats =
  stCodec :: string
  PacketsSent :: u64
  PacketsReceived :: u64
  PacketsExpected :: u64
  PacketsLost :: u64
  Jitter :: duration
  Heard_time :: duration
  DTMF :: string

definition rx_expected :: "rxStats \<Rightarrow> u64" where
  "rx_expected r = cycles r + ucast (maxSeq r) - ucast (baseSeq r) + 1"

definition statsLocked :: "Stream \<Rightarrow> Stats" where
  "statsLocked s =
     (let r = rxs s;
          expd = (if rxInit r then prevExp r + rx_expected r else prevExp r);
          recv = (if rxInit r then prevRecv r + received r else prevRecv r)
      in \<lparr>stCodec = (if hasCodec s then Name (codec s) else []),
          PacketsSent = sent s, PacketsReceived = recv, PacketsExpected = expd,
          PacketsLost = (if expd > recv then expd - recv else 0),
          Jitter = \<lfloor>jitter r / of_int sampleRate * 1000000000\<rfloor>,
          Heard_time = int (heard s) * frameDurationMs * 1000000,
          DTMF = digits s\<rparr>)"

text \<open>\<open>add\<close> is the scheduler's: it returns the shard that took the stream.\<close>

definition Start :: "(nat \<times> 'sched) \<Rightarrow> Stream \<Rightarrow> Stream" where
  "Start added s = (if started s \<or> closed s then s else s\<lparr>started := True, shard := Some (fst added)\<rparr>)"

text \<open>\<open>Close\<close> also tells which shard the stream has to be removed from.\<close>

definition Close :: "Stream \<Rightarrow> Stream \<times> Stats \<times> nat option" where
  "Close s = (if closed s then (s, statsLocked s, None)
              else (s\<lparr>closed := True\<rparr>, statsLocked s, shard s))"

section \<open>Well-formed streams\<close>

lemma known_same_name:
  "known_codec c \<Longrightarrow> known_codec d \<Longrightarrow> Name c = Name d \<Longrightarrow> encode c = encode d \<and> decode c = decode d"
  by (elim known_codecE) simp_all

text \<open>The source is the audio encoded with the negotiated codec, and the position is a frame boundary.\<close>

definition source_ok :: "Stream \<Rightarrow> bool" where
  "source_ok s \<longleftrightarrow> framed (pcm (audio s)) \<and> cache_ok (audio s) \<and>
     (hasCodec s \<longrightarrow> known_codec (codec s) \<and> src s = map (encode (codec s)) (pcm (audio s)) \<and>
        pos s mod frameSamples = 0 \<and> pos s < length (src s))"

text \<open>The first \<^const>\<open>heardFrames\<close> loud frames close \<open>heardCh\<close>, once.\<close>

definition heard_ok :: "Stream \<Rightarrow> bool" where
  "heard_ok s \<longleftrightarrow> heardCloses s = (if heard s \<ge> heardFrames then 1 else 0)"

definition job_ok :: "dtmfJob \<Rightarrow> bool" where
  "job_ok j \<longleftrightarrow> 1 \<le> packets j \<and> jobSent j \<le> packets j \<and> ended j \<le> 3 \<and>
     (ended j > 0 \<longrightarrow> jobSent j = packets j) \<and> event j \<le> 15"

definition dtmf_pt_ok :: "int \<Rightarrow> bool" where
  "dtmf_pt_ok n \<longleftrightarrow> n = -1 \<or> 0 \<le> n \<and> n < 128"

definition wf_stream :: "Stream \<Rightarrow> bool" where
  "wf_stream s \<longleftrightarrow> source_ok s \<and> heard_ok s \<and> list_all job_ok (dtmfQ s) \<and> dtmf_pt_ok (remoteDTMF s)"

lemma New_fields [simp]:
  "cfgIP (cfg (New env c)) = cfgIP c" "NoLatch (cfg (New env c)) = NoLatch c"
  "cfgCodecs (cfg (New env c)) = (if cfgCodecs c = [] then [PCMU, PCMA] else cfgCodecs c)"
  "audio (New env c) = (case cfgAudio c of None \<Rightarrow> envDefaultAudio env | Some a \<Rightarrow> a)"
  "port (New env c) = envPort env" "sessID (New env c) = drop_bit 1 (envSess env)" "version (New env c) = 0"
  "\<not> hasCodec (New env c)" "\<not> closed (New env c)" "\<not> started (New env c)" "remote (New env c) = None"
  "dtmfQ (New env c) = []" "heard (New env c) = 0" "heardCloses (New env c) = 0" "remoteDTMF (New env c) = -1"
  "digits (New env c) = []" "\<not> haveEv (New env c)" "sent (New env c) = 0" "rxs (New env c) = zero_rx"
  "dir (New env c) = SendRecv" "ts (New env c) = envTs env" "seq (New env c) = envSeq env"
  by (simp_all add: New_def Let_def)

lemma newAudio_ok: "framed (pcm (newAudio s)) \<and> cache_ok (newAudio s)"
  by (simp add: newAudio_framed cache_ok_new)

lemma New_wf:
  assumes "\<And>a. cfgAudio c = Some a \<Longrightarrow> framed (pcm a) \<and> cache_ok a"
    and "framed (pcm (envDefaultAudio env)) \<and> cache_ok (envDefaultAudio env)"
  shows "wf_stream (New env c)"
  using assms by (auto simp: wf_stream_def New_def Let_def source_ok_def heard_ok_def dtmf_pt_ok_def split: option.splits)

lemma set_addr_fields [simp]:
  "cfg (set_addr s r) = cfg s" "audio (set_addr s r) = audio s" "hasCodec (set_addr s r) = hasCodec s"
  "codec (set_addr s r) = codec s" "src (set_addr s r) = src s" "pos (set_addr s r) = pos s"
  "heard (set_addr s r) = heard s" "heardCloses (set_addr s r) = heardCloses s" "dtmfQ (set_addr s r) = dtmfQ s"
  "remoteDTMF (set_addr s r) = remoteDTMF s" "closed (set_addr s r) = closed s" "port (set_addr s r) = port s"
  "sessID (set_addr s r) = sessID s" "version (set_addr s r) = version s" "digits (set_addr s r) = digits s"
  by (simp_all add: set_addr_def split: option.splits)

lemma setRemoteLocked_fields [simp]:
  "codec (setRemoteLocked s r c) = c" "hasCodec (setRemoteLocked s r c)"
  "remoteDTMF (setRemoteLocked s r c) = DTMFPT r" "cfg (setRemoteLocked s r c) = cfg s"
  "remote (setRemoteLocked s r c) = remote (set_addr s r)" "latched (setRemoteLocked s r c) = latched (set_addr s r)"
  "heard (setRemoteLocked s r c) = heard s" "heardCloses (setRemoteLocked s r c) = heardCloses s"
  "dtmfQ (setRemoteLocked s r c) = dtmfQ s" "closed (setRemoteLocked s r c) = closed s"
  "port (setRemoteLocked s r c) = port s" "sessID (setRemoteLocked s r c) = sessID s"
  "version (setRemoteLocked s r c) = version s"
  by (simp_all add: setRemoteLocked_def Let_def split: prod.splits)

lemma not_framed_Nil [simp]: "\<not> framed []"
  by (simp add: framed_def)

lemma framed_pos: "framed xs \<Longrightarrow> 0 < length xs"
  by (simp add: framed_def)

lemma setRemoteLocked_source:
  assumes "source_ok s" "known_codec c"
  shows "source_ok (setRemoteLocked s r c)" "pcm (audio (setRemoteLocked s r c)) = pcm (audio s)"
proof -
  have "cache_ok (audio s)" using assms(1) by (simp add: source_ok_def)
  note e = encoded_correct [OF this assms(2)]
  obtain b a where ba: "encoded (audio s) c = (b, a)" by fastforce
  show "source_ok (setRemoteLocked s r c)"
    using assms e ba known_same_name [OF _ assms(2), of "codec s"]
    by (auto simp: source_ok_def setRemoteLocked_def Let_def framed_pos)
  show "pcm (audio (setRemoteLocked s r c)) = pcm (audio s)"
    using e ba by (simp add: setRemoteLocked_def Let_def)
qed

lemma source_ok_other [simp]:
  "source_ok (s\<lparr>dir := d\<rparr>) = source_ok s" "source_ok (s\<lparr>version := v\<rparr>) = source_ok s"
  "source_ok (s\<lparr>started := b, shard := x\<rparr>) = source_ok s" "source_ok (s\<lparr>closed := b\<rparr>) = source_ok s"
  "source_ok (s\<lparr>remote := a, latched := b\<rparr>) = source_ok s"
  by (simp_all add: source_ok_def)

lemma set_addr_source [simp]: "source_ok (set_addr s r) = source_ok s"
  by (simp add: source_ok_def)

lemma wf_stream_cong:
  "source_ok s' = source_ok s \<Longrightarrow> heard s' = heard s \<Longrightarrow> heardCloses s' = heardCloses s \<Longrightarrow>
   dtmfQ s' = dtmfQ s \<Longrightarrow> remoteDTMF s' = remoteDTMF s \<Longrightarrow> wf_stream s' = wf_stream s"
  by (simp add: wf_stream_def heard_ok_def)

lemma wf_remote_dtmf: "wf_remote r \<Longrightarrow> dtmf_pt_ok (DTMFPT r)"
  by (auto simp: wf_remote_def dtmf_pt_ok_def)

lemma setRemoteLocked_wf:
  "wf_stream s \<Longrightarrow> wf_remote r \<Longrightarrow> known_codec c \<Longrightarrow> wf_stream (setRemoteLocked s r c)"
  by (simp add: wf_stream_def setRemoteLocked_source wf_remote_dtmf heard_ok_def)

lemma wf_stream_dir [simp]: "wf_stream (s\<lparr>dir := d\<rparr>) = wf_stream s"
  "wf_stream (s\<lparr>version := v\<rparr>) = wf_stream s" "wf_stream (set_addr s r) = wf_stream s"
  "wf_stream (s\<lparr>started := b, shard := x\<rparr>) = wf_stream s" "wf_stream (s\<lparr>closed := b\<rparr>) = wf_stream s"
  by (rule wf_stream_cong; simp)+

lemma wf_remote_choice: "wf_remote r \<Longrightarrow> choose_codec ours (Codecs r) a = Some c \<Longrightarrow> known_codec c"
  by (auto simp: wf_remote_def list_all_iff dest!: choose_codec_Some)

text \<open>Every negotiation operation keeps the stream well formed.\<close>

lemma Offer_wf: "wf_stream s \<Longrightarrow> wf_stream (fst (Offer s d))"
  by (simp add: Offer_def Let_def)

lemma Answer_wf: "wf_stream s \<Longrightarrow> wf_remote r \<Longrightarrow> Answer s r = Inr (s', sdp) \<Longrightarrow> wf_stream s'"
  by (auto simp: Answer_def sdpLocked_def Let_def setRemoteLocked_wf wf_remote_choice split: option.splits)

lemma ApplyAnswer_wf: "wf_stream s \<Longrightarrow> wf_remote r \<Longrightarrow> ApplyAnswer s r = Inr s' \<Longrightarrow> wf_stream s'"
  by (auto simp: ApplyAnswer_def setRemoteLocked_wf wf_remote_choice split: option.splits)

lemma Update_wf: "wf_stream s \<Longrightarrow> wf_stream (fst (Update s r))"
  by (simp add: Update_def sdpLocked_def Let_def)

lemma Start_Close_wf: "wf_stream s \<Longrightarrow> wf_stream (Start a s) \<and> wf_stream (fst (Close s))"
  by (simp add: Start_def Close_def)

text \<open>A stream for concrete runs: sequence number and timestamp are about to wrap.\<close>

definition demo_new :: "string \<Rightarrow> int \<Rightarrow> Codec list \<Rightarrow> Stream" where
  "demo_new ip p cs = New \<lparr>envPort = p, envSess = 84, envSsrc = 0xCAFE, envSeq = 65534, envTs = 4294967200,
     envThr = 33000, envNow = 0, envDefaultAudio = newAudio [1000, 2000, 3000]\<rparr>
     \<lparr>cfgIP = ip, cfgCodecs = cs, cfgAudio = None, NoLatch = False, cfgRecord = False\<rparr>"

lemma demo_new_wf: "wf_stream (demo_new ip p cs)"
  unfolding demo_new_def by (rule New_wf) (simp_all add: newAudio_framed cache_ok_new)

end
