(* ===== verification/RtpSend.thy ===== *)
theory RtpSend
  imports RtpStream
begin

text \<open>
  The sending side of \<open>media/stream.go\<close>: the RTP header, the queue of RFC 4733 events and
  \<open>tick\<close>, called by the scheduler every 20 ms. The packet buffer is overwritten from its
  first to its last byte by every packet, so a packet is a list of bytes.
\<close>

definition dtmfEvents :: "char \<Rightarrow> byte option" where
  "dtmfEvents = map_of
    [(CHR ''0'', 0), (CHR ''1'', 1), (CHR ''2'', 2), (CHR ''3'', 3), (CHR ''4'', 4), (CHR ''5'', 5),
     (CHR ''6'', 6), (CHR ''7'', 7), (CHR ''8'', 8), (CHR ''9'', 9), (CHR ''*'', 10), (CHR ''#'', 11),
     (CHR ''A'', 12), (CHR ''B'', 13), (CHR ''C'', 14), (CHR ''D'', 15)]"

datatype dtmf_error = InvalidDigit char | NoTelephoneEvent

fun dtmf_jobs :: "string \<Rightarrow> nat \<Rightarrow> dtmf_error + dtmfJob list" where
  "dtmf_jobs [] n = Inr []"
| "dtmf_jobs (r # rs) n =
     (case dtmfEvents r of None \<Rightarrow> Inl (InvalidDigit r)
      | Some ev \<Rightarrow>
          (case dtmf_jobs rs n of Inl e \<Rightarrow> Inl e
           | Inr jobs \<Rightarrow> Inr (\<lparr>event = ev, packets = n, gap = 3, jobSent = 0, ended = 0, jobTs = 0\<rparr> # jobs)))"

definition dtmf_packets :: "duration \<Rightarrow> nat" where
  "dtmf_packets dur =
     (let d = (if dur \<le> 0 then 100 * 1000000 else dur)
      in nat (max (d div (frameDurationMs * 1000000)) 1))"

definition SendDTMF :: "Stream \<Rightarrow> string \<Rightarrow> duration \<Rightarrow> dtmf_error + Stream" where
  "SendDTMF s ds dur =
     (case dtmf_jobs (ToUpper ds) (dtmf_packets dur) of Inl e \<Rightarrow> Inl e
      | Inr jobs \<Rightarrow> if remoteDTMF s < 0 then Inl NoTelephoneEvent else Inr (s\<lparr>dtmfQ := dtmfQ s @ jobs\<rparr>))"

text \<open>The job to send in this tick (it is the head of the queue returned), or audio.\<close>

fun nextDTMF :: "dtmfJob list \<Rightarrow> dtmfJob option \<times> dtmfJob list" where
  "nextDTMF [] = (None, [])"
| "nextDTMF (j # q) =
     (if jobSent j < packets j \<or> ended j < 3 then (Some j, j # q)
      else if gap j > 0 then (None, j\<lparr>gap := gap j - 1\<rparr> # q)
      else nextDTMF q)"

definition header :: "Stream \<Rightarrow> byte \<Rightarrow> bool \<Rightarrow> u32 \<Rightarrow> byte list" where
  "header s pt mark t =
     [0x80, (let b = pt AND 0x7F in if mark then b OR 0x80 else b)] @
     put16be (seq s) @ put32be t @ put32be (mySsrc s)"

definition dtmf_end :: "dtmfJob \<Rightarrow> bool" where
  "dtmf_end j \<longleftrightarrow> jobSent j \<ge> packets j"

text \<open>The four bytes of the event payload.\<close>

definition dtmf_payload :: "dtmfJob \<Rightarrow> byte list" where
  "dtmf_payload j =
     [event j, (if dtmf_end j then 10 OR 0x80 else 10)] @
     put16be (word_of_nat (min (jobSent j + 1) (packets j) * frameSamples))"

definition dtmf_advance :: "dtmfJob \<Rightarrow> dtmfJob" where
  "dtmf_advance j = (if dtmf_end j then j\<lparr>ended := ended j + 1\<rparr> else j\<lparr>jobSent := jobSent j + 1\<rparr>)"

text \<open>The packet of a tick, and the state with everything advanced but the packet count.\<close>

definition tick_packet :: "time \<Rightarrow> Stream \<Rightarrow> u32 \<Rightarrow> Stream \<times> byte list" where
  "tick_packet now s t =
     (let (job, q) = nextDTMF (dtmfQ s)
      in case job of
        Some j \<Rightarrow>
          (let j1 = (if jobSent j = 0 then j\<lparr>jobTs := t\<rparr> else j);
               j2 = dtmf_advance j1
           in (s\<lparr>dtmfQ := j2 # tl q, seq := seq s + 1\<rparr>,
               header s (word_of_int (remoteDTMF s)) (jobSent j2 = 1 \<and> \<not> dtmf_end j1) (jobTs j1)
                 @ dtmf_payload j1))
      | None \<Rightarrow>
          (let frame = take frameSamples (drop (pos s) (src s));
               rc = map_option (\<lambda>r. r\<lparr>tx := put (tx r) (at_pos r now) (mySsrc s) t frame (decode (codec s))\<rparr>) (rec s)
           in (s\<lparr>dtmfQ := q, rec := rc, pos := (pos s + frameSamples) mod length (src s),
                 marker := False, seq := seq s + 1\<rparr>,
               header s (PT (codec s)) (marker s) t @ frame)))"

text \<open>\<open>written\<close> says whether the socket took the packet.\<close>

definition tick :: "time \<Rightarrow> bool \<Rightarrow> Stream \<Rightarrow> Stream \<times> (udp_addr \<times> byte list) option" where
  "tick now written s =
     (let t = ts s; s1 = s\<lparr>ts := ts s + of_nat frameSamples\<rparr>
      in case remote s1 of
        None \<Rightarrow> (s1\<lparr>marker := True\<rparr>, None)
      | Some addr \<Rightarrow>
          if closed s1 \<or> \<not> hasCodec s1 \<or> \<not> sends (dir s1) then (s1\<lparr>marker := True\<rparr>, None)
          else (let (s2, b) = tick_packet now s1 t
                in if written then (s2\<lparr>sent := sent s2 + 1\<rparr>, Some (addr, b)) else (s2, None)))"

section \<open>When a tick sends\<close>

definition can_send :: "Stream \<Rightarrow> bool" where
  "can_send s \<longleftrightarrow> remote s \<noteq> None \<and> \<not> closed s \<and> hasCodec s \<and> sends (dir s)"

lemma tick_packet_fields [simp]:
  "closed (fst (tick_packet now s t)) = closed s" "remote (fst (tick_packet now s t)) = remote s"
  "hasCodec (fst (tick_packet now s t)) = hasCodec s" "dir (fst (tick_packet now s t)) = dir s"
  "codec (fst (tick_packet now s t)) = codec s" "src (fst (tick_packet now s t)) = src s"
  "audio (fst (tick_packet now s t)) = audio s" "remoteDTMF (fst (tick_packet now s t)) = remoteDTMF s"
  "ts (fst (tick_packet now s t)) = ts s" "sent (fst (tick_packet now s t)) = sent s"
  "seq (fst (tick_packet now s t)) = seq s + 1" "mySsrc (fst (tick_packet now s t)) = mySsrc s"
  "heard (fst (tick_packet now s t)) = heard s" "heardCloses (fst (tick_packet now s t)) = heardCloses s"
  by (simp_all add: tick_packet_def Let_def split: prod.splits option.splits)

lemma tick_silent: "\<not> can_send s \<Longrightarrow> tick now w s = (s\<lparr>ts := ts s + 160, marker := True\<rparr>, None)"
  by (auto simp: tick_def can_send_def Let_def split: option.splits)

lemma tick_sends:
  assumes "can_send s"
  shows "tick now w s =
     (let (s2, b) = tick_packet now (s\<lparr>ts := ts s + 160\<rparr>) (ts s)
      in if w then (s2\<lparr>sent := sent s + 1\<rparr>, Some (the (remote s), b)) else (s2, None))"
proof -
  obtain s2 b where p: "tick_packet now (s\<lparr>ts := ts s + 160\<rparr>) (ts s) = (s2, b)" by fastforce
  have "sent s2 = sent s" using tick_packet_fields(10) [of now "s\<lparr>ts := ts s + 160\<rparr>" "ts s"] by (simp add: p)
  with assms p show ?thesis by (auto simp: tick_def can_send_def Let_def)
qed

lemma tick_fields:
  "closed (fst (tick now w s)) = closed s" "remote (fst (tick now w s)) = remote s"
  "hasCodec (fst (tick now w s)) = hasCodec s" "dir (fst (tick now w s)) = dir s"
  "codec (fst (tick now w s)) = codec s" "remoteDTMF (fst (tick now w s)) = remoteDTMF s"
  "ts (fst (tick now w s)) = ts s + 160" "mySsrc (fst (tick now w s)) = mySsrc s"
  "heard (fst (tick now w s)) = heard s" "heardCloses (fst (tick now w s)) = heardCloses s"
  "seq (fst (tick now w s)) = (if can_send s then seq s + 1 else seq s)"
proof -
  let ?s1 = "s\<lparr>ts := ts s + 160\<rparr>"
  obtain s2 b where p: "tick_packet now ?s1 (ts s) = (s2, b)" by fastforce
  note f = tick_packet_fields [of now ?s1 "ts s", unfolded p fst_conv]
  show "closed (fst (tick now w s)) = closed s" "remote (fst (tick now w s)) = remote s"
    "hasCodec (fst (tick now w s)) = hasCodec s" "dir (fst (tick now w s)) = dir s"
    "codec (fst (tick now w s)) = codec s" "remoteDTMF (fst (tick now w s)) = remoteDTMF s"
    "ts (fst (tick now w s)) = ts s + 160" "mySsrc (fst (tick now w s)) = mySsrc s"
    "heard (fst (tick now w s)) = heard s" "heardCloses (fst (tick now w s)) = heardCloses s"
    "seq (fst (tick now w s)) = (if can_send s then seq s + 1 else seq s)"
    by (cases "can_send s"; simp add: tick_silent tick_sends p f)+
qed

lemma tick_can_send [simp]: "can_send (fst (tick now w s)) = can_send s"
  by (simp add: can_send_def tick_fields)

section \<open>The queue of events\<close>

lemma dtmf_packets_pos: "1 \<le> dtmf_packets dur"
  by (simp add: dtmf_packets_def Let_def)

lemma dtmf_event_le: "dtmfEvents c = Some e \<Longrightarrow> e \<le> 15"
  by (auto simp: dtmfEvents_def split: if_splits)

text \<open>The digit a byte of the event payload stands for, as the receiver spells it.\<close>

lemma dtmf_event_char: "dtmfEvents c = Some e \<Longrightarrow> ''0123456789*#ABCD'' ! unat e = c"
  by (auto simp: dtmfEvents_def split: if_splits)

definition valid_digit :: "char \<Rightarrow> bool" where
  "valid_digit c \<longleftrightarrow> dtmfEvents c \<noteq> None"

definition digit_job :: "nat \<Rightarrow> char \<Rightarrow> dtmfJob" where
  "digit_job n c = \<lparr>event = the (dtmfEvents c), packets = n, gap = 3, jobSent = 0, ended = 0, jobTs = 0\<rparr>"

lemma dtmf_jobs_valid: "list_all valid_digit ds \<Longrightarrow> dtmf_jobs ds n = Inr (map (digit_job n) ds)"
  by (induction ds) (auto simp: valid_digit_def digit_job_def)

lemma dtmf_jobs_invalid:
  "\<not> list_all valid_digit ds \<Longrightarrow> dtmf_jobs ds n = Inl (InvalidDigit (hd (dropWhile valid_digit ds)))"
proof (induction ds)
  case (Cons c ds)
  show ?case
  proof (cases "valid_digit c")
    case True
    with Cons show ?thesis by (auto simp: valid_digit_def)
  next
    case False
    then show ?thesis by (simp add: valid_digit_def)
  qed
qed simp

lemma SendDTMF_cases:
  "SendDTMF s ds dur =
     (if \<not> list_all valid_digit (ToUpper ds) then Inl (InvalidDigit (hd (dropWhile valid_digit (ToUpper ds))))
      else if remoteDTMF s < 0 then Inl NoTelephoneEvent
      else Inr (s\<lparr>dtmfQ := dtmfQ s @ map (digit_job (dtmf_packets dur)) (ToUpper ds)\<rparr>))"
  by (simp add: SendDTMF_def dtmf_jobs_valid dtmf_jobs_invalid)

lemma digit_job_ok: "valid_digit c \<Longrightarrow> 1 \<le> n \<Longrightarrow> job_ok (digit_job n c)"
  by (auto simp: job_ok_def digit_job_def valid_digit_def dest: dtmf_event_le)

lemma wf_stream_counters [simp]:
  "wf_stream (s\<lparr>ts := t\<rparr>) = wf_stream s" "wf_stream (s\<lparr>marker := m\<rparr>) = wf_stream s"
  "wf_stream (s\<lparr>sent := n\<rparr>) = wf_stream s"
  by (rule wf_stream_cong; simp add: source_ok_def)+

lemma source_ok_dtmfQ [simp]: "source_ok (s\<lparr>dtmfQ := q\<rparr>) = source_ok s"
  by (simp add: source_ok_def)

lemma SendDTMF_wf: "wf_stream s \<Longrightarrow> SendDTMF s ds dur = Inr s' \<Longrightarrow> wf_stream s'"
  using dtmf_packets_pos [of dur]
  by (auto simp: SendDTMF_cases wf_stream_def heard_ok_def list_all_iff digit_job_ok split: if_splits)

lemma nextDTMF_ok:
  "list_all job_ok q \<Longrightarrow> nextDTMF q = (x, q') \<Longrightarrow> list_all job_ok q' \<and>
     (\<forall>j. x = Some j \<longrightarrow> q' = j # tl q' \<and> (jobSent j < packets j \<or> ended j < 3))"
  by (induction q arbitrary: x q') (auto simp: job_ok_def split: if_splits)

lemma dtmf_advance_ok:
  "job_ok j \<Longrightarrow> jobSent j < packets j \<or> ended j < 3 \<Longrightarrow> job_ok (dtmf_advance (j\<lparr>jobTs := t\<rparr>))"
  by (auto simp: job_ok_def dtmf_advance_def dtmf_end_def)

lemma frame_in_source:
  assumes "source_ok s" "hasCodec s"
  shows "pos s + frameSamples \<le> length (src s)"
    and "length (take frameSamples (drop (pos s) (src s))) = frameSamples"
    and "(pos s + frameSamples) mod length (src s) mod frameSamples = 0"
    and "(pos s + frameSamples) mod length (src s) < length (src s)"
proof -
  have len: "length (src s) mod 160 = 0" "pos s mod 160 = 0" "pos s < length (src s)"
    using assms by (auto simp: source_ok_def framed_def)
  then show *: "pos s + frameSamples \<le> length (src s)"
    by (auto simp: mod_eq_0_iff_dvd elim!: dvdE)
  then show "length (take frameSamples (drop (pos s) (src s))) = frameSamples" by simp
  show "(pos s + frameSamples) mod length (src s) mod frameSamples = 0"
    using len(1,2) by (metis mod_add_self2 mod_0_imp_dvd mod_mod_cancel)
  show "(pos s + frameSamples) mod length (src s) < length (src s)"
    using len(3) by (intro mod_less_divisor) linarith
qed

lemma tick_packet_audio:
  "nextDTMF (dtmfQ s) = (None, q) \<Longrightarrow>
   tick_packet now s t =
     (s\<lparr>dtmfQ := q,
        rec := map_option (\<lambda>r. r\<lparr>tx := put (tx r) (at_pos r now) (mySsrc s) t
          (take frameSamples (drop (pos s) (src s))) (decode (codec s))\<rparr>) (rec s),
        pos := (pos s + frameSamples) mod length (src s), marker := False, seq := seq s + 1\<rparr>,
      header s (PT (codec s)) (marker s) t @ take frameSamples (drop (pos s) (src s)))"
  by (simp add: tick_packet_def Let_def)

definition stamped :: "dtmfJob \<Rightarrow> u32 \<Rightarrow> dtmfJob" where
  "stamped j t = (if jobSent j = 0 then j\<lparr>jobTs := t\<rparr> else j)"

lemma tick_packet_event:
  "nextDTMF (dtmfQ s) = (Some j, j # q) \<Longrightarrow>
   tick_packet now s t =
     (s\<lparr>dtmfQ := dtmf_advance (stamped j t) # q, seq := seq s + 1\<rparr>,
      header s (word_of_int (remoteDTMF s)) (jobSent j = 0 \<and> \<not> dtmf_end j) (jobTs (stamped j t))
        @ dtmf_payload (stamped j t))"
  by (simp add: tick_packet_def Let_def stamped_def dtmf_advance_def dtmf_end_def)

lemma nextDTMF_Some:
  assumes "nextDTMF q = (Some j, q')"
  obtains r where "q' = j # r" "jobSent j < packets j \<or> ended j < 3"
  using assms by (induction q) (auto split: if_splits)

lemma wf_after_audio:
  assumes "wf_stream s" "hasCodec s" "list_all job_ok q" "p mod frameSamples = 0" "p < length (src s)"
  shows "wf_stream (s\<lparr>dtmfQ := q, rec := r, pos := p, marker := m, seq := n\<rparr>)"
proof -
  have "source_ok (s\<lparr>dtmfQ := q, rec := r, pos := p, marker := m, seq := n\<rparr>)"
    using assms(1,2,4,5) by (simp add: wf_stream_def source_ok_def)
  then show ?thesis using assms(1,3) by (simp add: wf_stream_def heard_ok_def)
qed

lemma wf_after_event:
  "wf_stream s \<Longrightarrow> list_all job_ok q \<Longrightarrow> wf_stream (s\<lparr>dtmfQ := q, seq := n\<rparr>)"
proof -
  have "source_ok (s\<lparr>dtmfQ := q, seq := n\<rparr>) = source_ok s" by (simp add: source_ok_def)
  then show "wf_stream s \<Longrightarrow> list_all job_ok q \<Longrightarrow> wf_stream (s\<lparr>dtmfQ := q, seq := n\<rparr>)"
    by (simp add: wf_stream_def heard_ok_def)
qed

lemma tick_packet_wf:
  assumes wf: "wf_stream s" and codec: "hasCodec s"
  shows "wf_stream (fst (tick_packet now s t))"
proof -
  obtain x q where nx: "nextDTMF (dtmfQ s) = (x, q)" by fastforce
  have src: "source_ok s" and qok: "list_all job_ok (dtmfQ s)" using wf by (simp_all add: wf_stream_def)
  show ?thesis
  proof (cases x)
    case None
    then show ?thesis
      using wf_after_audio [OF wf codec] frame_in_source(3,4) [OF src codec] nextDTMF_ok [OF qok nx] nx
      by (simp add: tick_packet_audio)
  next
    case (Some j)
    with nx obtain r where q: "q = j # r" "jobSent j < packets j \<or> ended j < 3"
      by (auto elim: nextDTMF_Some)
    then have "job_ok (dtmf_advance (stamped j t))" "list_all job_ok r"
      using nextDTMF_ok [OF qok nx] dtmf_advance_ok [of j t] dtmf_advance_ok [of j "jobTs j"]
      by (auto simp: stamped_def)
    then show ?thesis using wf_after_event [OF wf] nx Some q by (simp add: tick_packet_event)
  qed
qed

lemma tick_wf: "wf_stream s \<Longrightarrow> wf_stream (fst (tick now w s))"
proof (cases "can_send s")
  case True
  assume wf: "wf_stream s"
  obtain s2 b where p: "tick_packet now (s\<lparr>ts := ts s + 160\<rparr>) (ts s) = (s2, b)" by fastforce
  have "wf_stream (s\<lparr>ts := ts s + 160\<rparr>)" using wf by simp
  then have "wf_stream s2" using tick_packet_wf [of "s\<lparr>ts := ts s + 160\<rparr>" now "ts s"] True
    by (simp add: p can_send_def)
  then show ?thesis using True by (simp add: tick_sends p)
next
  case False
  assume "wf_stream s"
  then show ?thesis using False by (simp add: tick_silent)
qed

end
