(* ===== verification/RtpReceive.thy ===== *)
theory RtpReceive
  imports RtpStream
begin

text \<open>
  The receiving side of \<open>media/stream.go\<close>: the RTP parser at the head of \<open>receive\<close>,
  the RFC 3550 counters, jitter, the detection of audio and the RFC 4733 receiver. Jitter
  is an exact rational where the code has a float.
\<close>

record rtp_packet =
  rtpPT :: byte
  rtpSeq :: u16
  rtpTs :: u32
  rtpSsrc :: u32
  rtpPayload :: "byte list"

text \<open>The checks and field reads of \<open>receive\<close> before it takes the lock.\<close>

definition parse_rtp :: "byte list \<Rightarrow> rtp_packet option" where
  "parse_rtp b =
     (if length b < 12 \<or> drop_bit 6 (b ! 0) \<noteq> 2 then None
      else let pt = b ! 1 AND 0x7F
      in if pt \<ge> 72 \<and> pt \<le> 76 then None
      else let hl = 12 + 4 * unat (b ! 0 AND 0x0F);
               ext = b ! 0 AND 0x10 \<noteq> 0
      in if ext \<and> length b < hl + 4 then None
      else let hl' = (if ext then hl + (4 + 4 * unat (get16be b (hl + 2))) else hl);
               stop = (if b ! 0 AND 0x20 \<noteq> 0 \<and> length b > 0
                       then int (length b) - uint (b ! (length b - 1)) else int (length b))
      in if int hl' > stop then None
      else Some \<lparr>rtpPT = pt, rtpSeq = get16be b 2, rtpTs = get32be b 4, rtpSsrc = get32be b 8,
                 rtpPayload = drop hl' (take (nat stop) b)\<rparr>)"

definition countSeq :: "rxStats \<Rightarrow> u32 \<Rightarrow> u16 \<Rightarrow> rxStats" where
  "countSeq r0 sid sq =
     (let r = (if rxInit r0 \<and> sid \<noteq> rxSsrc r0
               then r0\<lparr>prevExp := prevExp r0 + rx_expected r0, prevRecv := prevRecv r0 + received r0,
                       rxInit := False, haveTransit := False\<rparr> else r0)
      in if \<not> rxInit r
         then \<lparr>rxInit = True, rxSsrc = sid, baseSeq = sq, maxSeq = sq, cycles = 0, received = 1,
               prevExp = prevExp r, prevRecv = prevRecv r, lastTransit = 0, haveTransit = False,
               jitter = jitter r\<rparr>
         else (let r1 = r\<lparr>received := received r + 1\<rparr>; delta = sq - maxSeq r1
               in if delta \<noteq> 0 \<and> delta < 0x8000
                  then (if sq < maxSeq r1 then r1\<lparr>cycles := cycles r1 + 0x10000\<rparr> else r1)\<lparr>maxSeq := sq\<rparr>
                  else r1))"

text \<open>\<open>arrival\<close> is the time since the start of the stream in timestamp units.\<close>

definition arrival :: "time \<Rightarrow> time \<Rightarrow> u32" where
  "arrival start' now = word_of_int (((now - start') * sampleRate) sdiv 1000000000)"

definition update_jitter :: "rxStats \<Rightarrow> u32 \<Rightarrow> u32 \<Rightarrow> rxStats" where
  "update_jitter r arr t =
     (let transit = arr - t;
          r1 = (if haveTransit r
                then r\<lparr>jitter := jitter r +
                   (\<bar>of_int (sint (transit - lastTransit r))\<bar> - jitter r) / 16\<rparr>
                else r)
      in r1\<lparr>lastTransit := transit, haveTransit := True\<rparr>)"

definition loud :: "byte list \<Rightarrow> i16 list \<Rightarrow> int \<Rightarrow> bool" where
  "loud payload table thr =
     (if payload = [] then False
      else (\<Sum>x\<leftarrow>payload. sint (table ! unat x) * sint (table ! unat x)) div int (length payload) > thr)"

definition audioFrame :: "Stream \<Rightarrow> time \<Rightarrow> rtp_packet \<Rightarrow> i16 list \<Rightarrow> Stream" where
  "audioFrame s now p table =
     (let s1 = s\<lparr>rxs := update_jitter (rxs s) (arrival (rxStart s) now) (rtpTs p)\<rparr>;
          s2 = (if loud (rtpPayload p) table (heardThr s1)
                then (let h = heard s1 + 1
                      in s1\<lparr>heard := h,
                            heardCloses := (if h = heardFrames then heardCloses s1 + 1 else heardCloses s1)\<rparr>)
                else s1)
      in s2\<lparr>rec := map_option
             (\<lambda>r. r\<lparr>rx := put (rx r) (at_pos r now) (rtpSsrc p) (rtpTs p) (rtpPayload p) table\<rparr>) (rec s2)\<rparr>)"

definition receiveDTMF :: "Stream \<Rightarrow> byte list \<Rightarrow> u32 \<Rightarrow> Stream" where
  "receiveDTMF s p t =
     (if length p < 4 \<or> p ! 0 > 15 then s
      else if haveEv s \<and> t = lastEvTS s then s
      else s\<lparr>haveEv := True, lastEvTS := t, digits := digits s @ [''0123456789*#ABCD'' ! unat (p ! 0)],
             digitSigs := digitSigs s + 1\<rparr>)"

text \<open>The switch at the end of \<open>receive\<close>.\<close>

definition dispatch :: "Stream \<Rightarrow> time \<Rightarrow> rtp_packet \<Rightarrow> Stream" where
  "dispatch s now p =
     (if (remoteDTMF s \<ge> 0 \<and> uint (rtpPT p) = remoteDTMF s)
         \<or> (uint (rtpPT p) = defaultDTMFPT \<and> remoteDTMF s < 0)
      then receiveDTMF s (rtpPayload p) (rtpTs p)
      else if hasCodec s \<and> rtpPT p = PT (codec s) then audioFrame s now p (decode (codec s))
      else (case codecByPT (rtpPT p) of Some c \<Rightarrow> audioFrame s now p (decode c) | None \<Rightarrow> s))"

definition receive :: "Stream \<Rightarrow> time \<Rightarrow> byte list \<Rightarrow> udp_addr \<Rightarrow> Stream" where
  "receive s now b from =
     (case parse_rtp b of None \<Rightarrow> s
      | Some p \<Rightarrow>
          if closed s then s
          else (let s1 = (if \<not> NoLatch (cfg s) \<and> \<not> latched s
                          then s\<lparr>remote := Some from, latched := True\<rparr> else s);
                    s2 = s1\<lparr>rxs := countSeq (rxs s1) (rtpSsrc p) (rtpSeq p)\<rparr>
                in dispatch s2 now p))"

section \<open>The sequence counters\<close>

text \<open>
  Sequence numbers as the sender counts them, without the 16-bit wrap: \<open>es\<close> are the
  numbers received after the first, each less than half the number space away from the
  highest one so far, in any order.
\<close>

fun in_window :: "int \<Rightarrow> int list \<Rightarrow> bool" where
  "in_window m [] = True"
| "in_window m (e # es) = (m - 0x8000 \<le> e \<and> e < m + 0x8000 \<and> in_window (max m e) es)"

definition counts :: "rxStats \<Rightarrow> u32 \<Rightarrow> int \<Rightarrow> int \<Rightarrow> nat \<Rightarrow> bool" where
  "counts r sid first high n \<longleftrightarrow> rxInit r \<and> rxSsrc r = sid \<and> baseSeq r = word_of_int first \<and>
     maxSeq r = word_of_int high \<and> cycles r + ucast (maxSeq r) - ucast (baseSeq r) = word_of_int (high - first) \<and>
     received r = word_of_nat n"

lemma mod_add_small:
  fixes m d :: int
  assumes "0 \<le> d" "d < 65536"
  shows "(m + d) mod 65536 = (if m mod 65536 + d < 65536 then m mod 65536 + d else m mod 65536 + d - 65536)"
proof -
  have "(m + d) mod 65536 = (m mod 65536 + d) mod 65536" by (simp add: mod_add_left_eq)
  also have "\<dots> = (if m mod 65536 + d < 65536 then m mod 65536 + d else m mod 65536 + d - 65536)"
  proof (cases "m mod 65536 + d < 65536")
    case True
    then show ?thesis using assms by simp
  next
    case False
    have "m mod 65536 < 65536" by simp
    with False assms have "(m mod 65536 + d - 65536) mod 65536 = m mod 65536 + d - 65536"
      by (intro mod_pos_pos_trivial) linarith+
    with False show ?thesis by (metis minus_mod_self2)
  qed
  finally show ?thesis .
qed

lemma mod_step:
  fixes e m :: int
  assumes "0 < e - m" "e - m < 0x8000"
  shows "(if e mod 65536 < m mod 65536 then 65536 else 0) + e mod 65536 - m mod 65536 = e - m"
  using mod_add_small [of "e - m" m] assms by (auto split: if_splits)

lemma seq_step:
  fixes e m :: int
  assumes "0 < e - m" "e - m < 0x8000"
  shows "(if (word_of_int e :: u16) < word_of_int m then 0x10000 else 0) + ucast (word_of_int e :: u16) -
    ucast (word_of_int m :: u16) = (word_of_int (e - m) :: u64)"
proof -
  have "(word_of_int e :: u16) < word_of_int m \<longleftrightarrow> e mod 65536 < m mod 65536"
    by (simp add: word_less_alt uint_word_of_int)
  moreover have "(ucast (word_of_int x :: u16) :: u64) = word_of_int (x mod 65536)" for x
    by (simp add: ucast_eq uint_word_of_int)
  moreover have "(if e mod 65536 < m mod 65536 then 65536 else 0) + e mod 65536 - m mod 65536 = e - m"
    by (rule mod_step) (use assms in simp_all)
  then have "(word_of_int ((if e mod 65536 < m mod 65536 then 65536 else 0) + e mod 65536 - m mod 65536) :: u64)
      = word_of_int (e - m)" by simp
  ultimately show ?thesis by (auto split: if_splits)
qed

lemma word_of_int_0_16: "(word_of_int x :: u16) = 0 \<longleftrightarrow> x mod 65536 = 0"
  using word_of_int_eq_0_iff [where ?'a = 16, of x] by (simp add: dvd_eq_mod_eq_0)

lemma seq_forward:
  fixes e m :: int
  assumes "m - 0x8000 \<le> e" "e < m + 0x8000"
  shows "(word_of_int e - word_of_int m :: u16) \<noteq> 0 \<and> (word_of_int e - word_of_int m :: u16) < 0x8000 \<longleftrightarrow> m < e"
proof -
  have eq: "(word_of_int e - word_of_int m :: u16) = word_of_int (e - m)" by simp
  have "(word_of_int (e - m) :: u16) < 0x8000 \<longleftrightarrow> (e - m) mod 65536 < 0x8000"
    unfolding word_less_alt uint_word_of_int by simp
  moreover have "e - m \<ge> 0 \<Longrightarrow> (e - m) mod 65536 = e - m" "e - m < 0 \<Longrightarrow> (e - m) mod 65536 = e - m + 65536"
    using assms mod_pos_pos_trivial [of "e - m + 65536" 65536] by simp_all
  ultimately show ?thesis using assms unfolding eq word_of_int_0_16 by (cases "e - m < 0") auto
qed

lemma countSeq_known:
  "rxInit r \<Longrightarrow> rxSsrc r = sid \<Longrightarrow> countSeq r sid sq =
     (if sq - maxSeq r \<noteq> 0 \<and> sq - maxSeq r < 0x8000
      then r\<lparr>received := received r + 1, cycles := cycles r + (if sq < maxSeq r then 0x10000 else 0), maxSeq := sq\<rparr>
      else r\<lparr>received := received r + 1\<rparr>)"
  by (simp add: countSeq_def Let_def)

lemma countSeq_step:
  assumes c: "counts r sid first high n" and "high - 0x8000 \<le> e" "e < high + 0x8000"
  shows "counts (countSeq r sid (word_of_int e)) sid first (max high e) (Suc n)"
proof -
  have r: "rxInit r" "rxSsrc r = sid" "maxSeq r = word_of_int high" "received r = word_of_nat n"
    "baseSeq r = word_of_int first"
    and cyc: "cycles r + ucast (maxSeq r) - ucast (baseSeq r) = word_of_int (high - first)"
    using c unfolding counts_def by blast+
  note fwd = seq_forward [OF assms(2,3)]
  show ?thesis
  proof (cases "high < e")
    case True
    let ?s = "word_of_int e :: u16"
    let ?k = "if ?s < maxSeq r then 0x10000 else 0 :: u64"
    have "cycles r + ?k + ucast ?s - ucast (baseSeq r) =
        (cycles r + ucast (maxSeq r) - ucast (baseSeq r)) + (?k + ucast ?s - ucast (maxSeq r))"
      by (simp only: algebra_simps)
    also have "?k + ucast ?s - ucast (maxSeq r) = word_of_int (e - high)"
      using seq_step [of e high] True assms(3) by (simp add: r)
    also have "cycles r + ucast (maxSeq r) - ucast (baseSeq r) + word_of_int (e - high) = word_of_int (e - first)"
      unfolding cyc by simp
    finally have "cycles r + ?k + ucast ?s - ucast (baseSeq r) = word_of_int (e - first)" .
    moreover have "countSeq r sid ?s = r\<lparr>received := received r + 1, cycles := cycles r + ?k, maxSeq := ?s\<rparr>"
      using fwd True by (simp only: countSeq_known [OF r(1,2)] r(3)) simp
    ultimately show ?thesis using r True by (simp add: counts_def)
  next
    case False
    then have "countSeq r sid (word_of_int e) = r\<lparr>received := received r + 1\<rparr>"
      using fwd by (simp only: countSeq_known [OF r(1,2)] r(3)) simp
    then show ?thesis using c False by (auto simp: counts_def max_def)
  qed
qed

lemma countSeq_first:
  "\<not> rxInit r \<Longrightarrow> counts (countSeq r sid (word_of_int e)) sid e e 1"
  by (simp add: counts_def countSeq_def Let_def)

lemma counts_expected: "counts r sid first high n \<Longrightarrow> rx_expected r = word_of_int (high - first + 1)"
proof -
  assume "counts r sid first high n"
  then have "cycles r + ucast (maxSeq r) - ucast (baseSeq r) = word_of_int (high - first)"
    unfolding counts_def by blast
  then show "rx_expected r = word_of_int (high - first + 1)" by (simp add: rx_expected_def)
qed

lemma fold_max_Max: "fold max es (m :: int) = Max (insert m (set es))"
  using Max.set_eq_fold [of m es] by simp

text \<open>How many numbers of the range from the first to the highest one never arrived.\<close>

definition missing :: "int list \<Rightarrow> nat" where
  "missing es = card ({hd es..Max (set es)} - set es)"

text \<open>The packets that were sent before the one that arrived first.\<close>

definition early :: "int list \<Rightarrow> nat" where
  "early es = length (filter (\<lambda>x. x < hd es) es)"

lemma missing_eq:
  assumes "es \<noteq> []" "distinct es"
  shows "int (missing es) - int (early es) = Max (set es) - hd es + 1 - int (length es)"
proof -
  let ?span = "{hd es..Max (set es)}"
  have "hd es \<le> Max (set es)" using assms(1) by simp
  then have "int (card ?span) = Max (set es) - hd es + 1" by simp
  moreover have "int (missing es) = int (card ?span) - int (card (?span \<inter> set es))"
  proof -
    have "card (?span \<inter> set es) \<le> card ?span" by (intro card_mono) auto
    then show ?thesis by (simp add: missing_def card_Diff_subset_Int)
  qed
  moreover have "length es = early es + card (?span \<inter> set es)"
  proof -
    have "?span \<inter> set es = set (filter (\<lambda>x. \<not> x < hd es) es)" by auto
    then have "card (?span \<inter> set es) = length (filter (\<lambda>x. \<not> x < hd es) es)"
      using assms(2) by (metis distinct_card distinct_filter)
    then show ?thesis using sum_length_filter_compl [of "\<lambda>x. x < hd es" es] by (simp add: early_def)
  qed
  ultimately show ?thesis by simp
qed

lemma in_window_lower: "in_window m es \<Longrightarrow> e \<in> set es \<Longrightarrow> m - 0x8000 \<le> e"
  by (induction m es rule: in_window.induct) force+

lemma in_window_length:
  assumes "es \<noteq> []" "in_window (hd es) (tl es)" "distinct es" "Max (set es) - hd es < 2 ^ 63"
  shows "int (length es) < 2 ^ 64"
proof -
  have "hd es - 0x8000 \<le> e" if "e \<in> set es" for e
    using that assms(1) in_window_lower [OF assms(2), of e] by (cases es) auto
  then have "set es \<subseteq> {hd es - 0x8000..Max (set es)}" by auto
  then have "card (set es) \<le> card {hd es - 0x8000..Max (set es)}" by (intro card_mono) auto
  then have "length es \<le> nat (Max (set es) - hd es + 0x8001)"
    using distinct_card [OF assms(3)] by simp
  then show ?thesis using assms(4) by simp
qed

section \<open>Jitter\<close>

lemma update_jitter_step:
  "haveTransit r \<Longrightarrow> jitter (update_jitter r arr t) =
     jitter r * (15 / 16) + \<bar>of_int (sint (arr - t - lastTransit r))\<bar> / 16"
  by (simp add: update_jitter_def Let_def field_simps)

lemma update_jitter_first: "\<not> haveTransit r \<Longrightarrow> jitter (update_jitter r arr t) = jitter r"
  by (simp add: update_jitter_def Let_def)

text \<open>The estimate stays between 0 and the largest transit difference seen.\<close>

lemma update_jitter_bound:
  assumes "0 \<le> jitter r" "jitter r \<le> d" "haveTransit r \<Longrightarrow> \<bar>of_int (sint (arr - t - lastTransit r))\<bar> \<le> d"
  shows "0 \<le> jitter (update_jitter r arr t) \<and> jitter (update_jitter r arr t) \<le> d"
proof (cases "haveTransit r")
  case True
  have "jitter r * (15 / 16) + d / 16 \<le> d" using assms(2) by (simp add: field_simps)
  with assms True show ?thesis
    unfolding update_jitter_step [OF True]
    by (intro conjI) (simp, use assms(3) [OF True] in linarith)
qed (use assms in \<open>simp add: update_jitter_first\<close>)

section \<open>What a packet changes\<close>

lemma audioFrame_fields [simp]:
  "digits (audioFrame s now p tb) = digits s" "haveEv (audioFrame s now p tb) = haveEv s"
  "lastEvTS (audioFrame s now p tb) = lastEvTS s" "closed (audioFrame s now p tb) = closed s"
  "remoteDTMF (audioFrame s now p tb) = remoteDTMF s" "cfg (audioFrame s now p tb) = cfg s"
  "codec (audioFrame s now p tb) = codec s" "hasCodec (audioFrame s now p tb) = hasCodec s"
  "dtmfQ (audioFrame s now p tb) = dtmfQ s" "src (audioFrame s now p tb) = src s"
  "pos (audioFrame s now p tb) = pos s" "audio (audioFrame s now p tb) = audio s"
  "remote (audioFrame s now p tb) = remote s" "dir (audioFrame s now p tb) = dir s"
  by (simp_all add: audioFrame_def Let_def)

lemma audioFrame_heard: "heard_ok s \<Longrightarrow> heard_ok (audioFrame s now p tb)"
  by (auto simp: audioFrame_def Let_def heard_ok_def split: if_splits)

lemma receiveDTMF_fields [simp]:
  "heard (receiveDTMF s b t) = heard s" "heardCloses (receiveDTMF s b t) = heardCloses s"
  "closed (receiveDTMF s b t) = closed s" "remoteDTMF (receiveDTMF s b t) = remoteDTMF s"
  "cfg (receiveDTMF s b t) = cfg s" "codec (receiveDTMF s b t) = codec s"
  "hasCodec (receiveDTMF s b t) = hasCodec s" "dtmfQ (receiveDTMF s b t) = dtmfQ s"
  "src (receiveDTMF s b t) = src s" "pos (receiveDTMF s b t) = pos s" "audio (receiveDTMF s b t) = audio s"
  "rxs (receiveDTMF s b t) = rxs s" "rec (receiveDTMF s b t) = rec s" "remote (receiveDTMF s b t) = remote s"
  by (simp_all add: receiveDTMF_def)

lemma dispatch_fields [simp]:
  "closed (dispatch s now p) = closed s" "remoteDTMF (dispatch s now p) = remoteDTMF s"
  "cfg (dispatch s now p) = cfg s" "codec (dispatch s now p) = codec s" "hasCodec (dispatch s now p) = hasCodec s"
  "dtmfQ (dispatch s now p) = dtmfQ s" "src (dispatch s now p) = src s" "pos (dispatch s now p) = pos s"
  "audio (dispatch s now p) = audio s" "remote (dispatch s now p) = remote s"
  by (simp_all add: dispatch_def split: option.splits)

lemma dispatch_heard: "heard_ok s \<Longrightarrow> heard_ok (dispatch s now p)"
  by (auto simp: dispatch_def audioFrame_heard heard_ok_def [of "receiveDTMF _ _ _"] heard_ok_def [of s] split: option.splits)

lemma receive_fields [simp]:
  "closed (receive s now b src') = closed s" "remoteDTMF (receive s now b src') = remoteDTMF s"
  "cfg (receive s now b src') = cfg s" "codec (receive s now b src') = codec s"
  "hasCodec (receive s now b src') = hasCodec s" "dtmfQ (receive s now b src') = dtmfQ s"
  "src (receive s now b src') = src s" "pos (receive s now b src') = pos s" "audio (receive s now b src') = audio s"
  by (simp_all add: receive_def Let_def split: option.splits)

lemma receive_wf: "wf_stream s \<Longrightarrow> wf_stream (receive s now b src')"
proof -
  assume wf: "wf_stream s"
  have "source_ok (receive s now b src') = source_ok s" by (simp add: source_ok_def)
  moreover have "heard_ok (receive s now b src')"
    using wf by (auto simp: receive_def Let_def wf_stream_def split: option.splits intro!: dispatch_heard)
      (simp_all add: heard_ok_def)
  ultimately show ?thesis using wf by (simp add: wf_stream_def)
qed

text \<open>The state the payload is dispatched in: latched and counted.\<close>

definition accepted :: "Stream \<Rightarrow> rtp_packet \<Rightarrow> udp_addr \<Rightarrow> Stream" where
  "accepted s p src' =
     (if \<not> NoLatch (cfg s) \<and> \<not> latched s then s\<lparr>remote := Some src', latched := True\<rparr> else s)
       \<lparr>rxs := countSeq (rxs s) (rtpSsrc p) (rtpSeq p)\<rparr>"

lemma receive_accepted:
  "parse_rtp b = Some p \<Longrightarrow> \<not> closed s \<Longrightarrow> receive s now b src' = dispatch (accepted s p src') now p"
  by (simp add: receive_def accepted_def Let_def)

lemma accepted_fields [simp]:
  "rec (accepted s p src') = rec s" "digits (accepted s p src') = digits s" "haveEv (accepted s p src') = haveEv s"
  "lastEvTS (accepted s p src') = lastEvTS s" "heard (accepted s p src') = heard s"
  "heardThr (accepted s p src') = heardThr s" "codec (accepted s p src') = codec s"
  "hasCodec (accepted s p src') = hasCodec s" "remoteDTMF (accepted s p src') = remoteDTMF s"
  "rxStart (accepted s p src') = rxStart s"
  by (simp_all add: accepted_def)

text \<open>A packet that is not RTP, or one after the close, changes nothing.\<close>

lemma receive_ignored: "parse_rtp b = None \<or> closed s \<Longrightarrow> receive s now b src' = s"
  by (auto simp: receive_def split: option.splits)

text \<open>Only the first packet latches: later sources do not move the stream's destination.\<close>

lemma receive_remote:
  "remote (receive s now b src') =
     (if parse_rtp b \<noteq> None \<and> \<not> closed s \<and> \<not> NoLatch (cfg s) \<and> \<not> latched s then Some src' else remote s)"
  by (auto simp: receive_def Let_def split: option.splits)

section \<open>Loss\<close>

text \<open>Packets in arrival order, each with its time and source.\<close>

definition receive_all :: "Stream \<Rightarrow> (time \<times> byte list \<times> udp_addr) list \<Rightarrow> Stream" where
  "receive_all s ps = fold (\<lambda>(now, b, src') s. receive s now b src') ps s"

text \<open>The packet is RTP of that SSRC and carries the sender's number \<open>e\<close>, cut to 16 bits.\<close>

definition carries :: "u32 \<Rightarrow> (time \<times> byte list \<times> udp_addr) \<Rightarrow> int \<Rightarrow> bool" where
  "carries sid p e \<longleftrightarrow> (case parse_rtp (fst (snd p)) of None \<Rightarrow> False
     | Some q \<Rightarrow> rtpSsrc q = sid \<and> rtpSeq q = word_of_int e)"

lemma update_jitter_counts [simp]:
  "counts (update_jitter r arr t) sid first high n = counts r sid first high n"
  "prevExp (update_jitter r arr t) = prevExp r" "prevRecv (update_jitter r arr t) = prevRecv r"
  by (simp_all add: update_jitter_def Let_def counts_def)

lemma dispatch_counts [simp]:
  "counts (rxs (dispatch s now p)) sid first high n = counts (rxs s) sid first high n"
  "prevExp (rxs (dispatch s now p)) = prevExp (rxs s)" "prevRecv (rxs (dispatch s now p)) = prevRecv (rxs s)"
  by (simp_all add: dispatch_def audioFrame_def Let_def split: option.splits)

lemma receive_rxs:
  assumes "parse_rtp b = Some p" "\<not> closed s"
  shows "counts (rxs (receive s now b src')) sid first high n =
      counts (countSeq (rxs s) (rtpSsrc p) (rtpSeq p)) sid first high n"
    and "prevExp (rxs (receive s now b src')) = prevExp (countSeq (rxs s) (rtpSsrc p) (rtpSeq p))"
    and "prevRecv (rxs (receive s now b src')) = prevRecv (countSeq (rxs s) (rtpSsrc p) (rtpSeq p))"
  using assms by (simp_all add: receive_def Let_def)

lemma countSeq_prev:
  "\<not> rxInit r \<or> rxSsrc r = sid \<Longrightarrow> prevExp (countSeq r sid sq) = prevExp r \<and> prevRecv (countSeq r sid sq) = prevRecv r"
  by (auto simp: countSeq_def Let_def)

lemma receive_all_counts:
  assumes "list_all2 (carries sid) ps es" "\<not> closed s" "counts (rxs s) sid first high n" "in_window high es"
  shows "counts (rxs (receive_all s ps)) sid first (fold max es high) (n + length es) \<and>
    prevExp (rxs (receive_all s ps)) = prevExp (rxs s) \<and> prevRecv (rxs (receive_all s ps)) = prevRecv (rxs s)"
  using assms
proof (induction ps es arbitrary: s high n rule: list_all2_induct)
  case (Cons p ps e es)
  obtain now b src' where p: "p = (now, b, src')" by (cases p)
  from Cons.hyps(1) obtain q where q: "parse_rtp b = Some q" "rtpSsrc q = sid" "rtpSeq q = word_of_int e"
    by (auto simp: carries_def p split: option.splits)
  let ?s = "receive s now b src'"
  note r = receive_rxs [OF q(1) Cons.prems(1), unfolded q(2,3)]
  have "counts (rxs ?s) sid first (max high e) (Suc n)"
    using Cons.prems unfolding r(1) by (intro countSeq_step) auto
  moreover have "prevExp (rxs ?s) = prevExp (rxs s)" "prevRecv (rxs ?s) = prevRecv (rxs s)"
    using Cons.prems countSeq_prev [of "rxs s" sid] unfolding r(2,3) by (auto simp: counts_def)
  ultimately show ?case
    using Cons.IH [of ?s "max high e" "Suc n"] Cons.prems by (simp add: receive_all_def p max.commute)
qed (simp add: receive_all_def)

lemma receive_first:
  assumes "carries sid (now, b, src') e" "\<not> closed s" "rxs s = zero_rx"
  shows "counts (rxs (receive s now b src')) sid e e 1 \<and>
    prevExp (rxs (receive s now b src')) = 0 \<and> prevRecv (rxs (receive s now b src')) = 0"
proof -
  from assms(1) obtain q where q: "parse_rtp b = Some q" "rtpSsrc q = sid" "rtpSeq q = word_of_int e"
    by (auto simp: carries_def split: option.splits)
  have "\<not> rxInit zero_rx" "prevExp zero_rx = 0" "prevRecv zero_rx = 0" by (simp_all add: zero_rx_def)
  then show ?thesis
    using receive_rxs [OF q(1) assms(2), unfolded q(2,3)] countSeq_first [of zero_rx sid e] countSeq_prev [of zero_rx sid]
    by (simp add: assms(3))
qed

lemma uint64_of_int: "0 \<le> x \<Longrightarrow> x < 2 ^ 64 \<Longrightarrow> uint (word_of_int x :: u64) = x"
  by (simp add: uint_word_of_int)

lemma stats_counts:
  assumes "counts (rxs s) sid first high n" "prevExp (rxs s) = 0" "prevRecv (rxs s) = 0"
    and "int n < 2 ^ 64" "0 \<le> high - first + 1" "high - first + 1 < 2 ^ 64"
  shows "uint (PacketsExpected (statsLocked s)) = high - first + 1"
    and "uint (PacketsReceived (statsLocked s)) = int n"
    and "uint (PacketsLost (statsLocked s)) = max 0 (high - first + 1 - int n)"
proof -
  have "rxInit (rxs s)" "received (rxs s) = word_of_int (int n)" using assms(1) by (auto simp: counts_def)
  moreover have span: "uint (word_of_int (high - first + 1) :: u64) = high - first + 1"
    and n: "uint (word_of_int (int n) :: u64) = int n"
    using assms(4-6) by (intro uint64_of_int; linarith)+
  moreover have "uint (word_of_int (high - first + 1) - word_of_int (int n) :: u64) = high - first + 1 - int n"
    if "int n < high - first + 1"
    using that assms(6) by (simp only: uint_word_of_int flip: of_int_diff) simp
  ultimately show "uint (PacketsExpected (statsLocked s)) = high - first + 1"
    "uint (PacketsReceived (statsLocked s)) = int n"
    "uint (PacketsLost (statsLocked s)) = max 0 (high - first + 1 - int n)"
    using assms(2,3) counts_expected [OF assms(1)]
    by (simp_all only: statsLocked_def Let_def Stats.simps if_True add_0 word_less_alt) auto
qed

text \<open>C2: Loss accounting through the 16-bit wrap: for packets of one SSRC that arrive in any order
  within half the number space, without duplicates, the statistics of the stream report as received the
  packets, as expected the numbers from that of the packet that arrived first (the sender may have sent
  others before it) to the highest, and as lost the numbers of this span that never arrived, less the
  packets that arrived late from before the span, and never less than none. When the first to arrive has
  the lowest number the lost ones are exactly the numbers that never arrived.\<close>

theorem receive_loss:
  assumes "list_all2 (carries sid) ps es" "es \<noteq> []" "\<not> closed s" "rxs s = zero_rx"
    and "in_window (hd es) (tl es)" "distinct es"
    and "Max (set es) - hd es < 2 ^ 63"
  shows "uint (PacketsExpected (statsLocked (receive_all s ps))) = Max (set es) - hd es + 1 \<and>
    uint (PacketsReceived (statsLocked (receive_all s ps))) = int (length es) \<and>
    uint (PacketsLost (statsLocked (receive_all s ps))) = max 0 (int (missing es) - int (early es))"
proof -
  obtain e es' where es: "es = e # es'" using assms(2) by (cases es) auto
  with assms(1) obtain now b src' ps' where ps: "ps = (now, b, src') # ps'" "carries sid (now, b, src') e"
    "list_all2 (carries sid) ps' es'" by (auto simp: list_all2_Cons2)
  let ?s = "receive s now b src'"
  have first: "counts (rxs ?s) sid e e 1" "prevExp (rxs ?s) = 0" "prevRecv (rxs ?s) = 0"
    using receive_first [OF ps(2) assms(3,4)] by simp_all
  have all: "receive_all s ps = receive_all ?s ps'" by (simp add: receive_all_def ps(1))
  have "counts (rxs (receive_all s ps)) sid e (Max (set es)) (length es)"
    "prevExp (rxs (receive_all s ps)) = 0" "prevRecv (rxs (receive_all s ps)) = 0"
    using receive_all_counts [OF ps(3) _ first(1)] first assms(3,5) es
    by (simp_all add: all fold_max_Max)
  moreover have "e \<le> Max (set es)" by (simp add: es)
  ultimately show ?thesis
    using stats_counts [of "receive_all s ps" sid e "Max (set es)" "length es"] assms(7)
      in_window_length [OF assms(2,5,6,7)] missing_eq [OF assms(2,6)] es by simp
qed

text \<open>Four packets around the wrap: the third one late, the last one from before the first, two never received.\<close>

definition demo_rtp :: "byte \<Rightarrow> byte \<Rightarrow> byte list" where
  "demo_rtp hi lo = [0x80, 0, hi, lo, 0, 0, 0, 160, 0, 0, 0, 7]"

definition demo_packets :: "udp_addr \<Rightarrow> (time \<times> byte list \<times> udp_addr) list" where
  "demo_packets a = [(0, demo_rtp 255 254, a), (20000000, demo_rtp 0 2, a), (21000000, demo_rtp 255 255, a), (22000000, demo_rtp 255 250, a)]"

lemma demo_carries: "list_all2 (carries 7) (demo_packets a) [65534, 65538, 65535, 65530]"
  by (simp add: demo_packets_def demo_rtp_def carries_def parse_rtp_def get16be_def get32be_def Let_def)

lemma demo_missing: "missing [65534, 65538, 65535, 65530] = 2" "early [65534, 65538, 65535, 65530] = 1"
proof -
  have "{65534..65538} - {65534, 65538, 65535, 65530} = {65536, 65537 :: int}" by auto
  then show "missing [65534, 65538, 65535, 65530] = 2" by (simp add: missing_def)
qed (simp add: early_def)

theorem receive_loss_witness:
  "uint (PacketsExpected (statsLocked (receive_all (demo_new ''10.0.0.1'' 4000 []) (demo_packets \<lparr>IP = IPv4 1, Port = 9\<rparr>)))) = 5 \<and>
   uint (PacketsLost (statsLocked (receive_all (demo_new ''10.0.0.1'' 4000 []) (demo_packets \<lparr>IP = IPv4 1, Port = 9\<rparr>)))) = 1"
  using receive_loss [OF demo_carries, of "demo_new ''10.0.0.1'' 4000 []" "\<lparr>IP = IPv4 1, Port = 9\<rparr>"]
  by (simp add: demo_missing demo_new_def)

text \<open>The jitter estimate never leaves the range from 0 to the largest transit difference: a packet
  moves it a sixteenth of the way towards the new difference, and a stream with constant transit
  lets it decay.\<close>

theorem jitter_bounded:
  assumes "0 \<le> jitter r" "jitter r \<le> d" "haveTransit r \<Longrightarrow> \<bar>of_int (sint (arr - t - lastTransit r))\<bar> \<le> d"
  shows "0 \<le> jitter (update_jitter r arr t) \<and> jitter (update_jitter r arr t) \<le> d \<and>
    (haveTransit r \<and> arr - t = lastTransit r \<longrightarrow> jitter (update_jitter r arr t) = jitter r * (15 / 16))"
  using update_jitter_bound [OF assms] by (simp add: update_jitter_step)

theorem jitter_bounded_witness:
  "jitter (update_jitter (zero_rx\<lparr>haveTransit := True, jitter := 32, lastTransit := 5\<rparr>) 3 8) \<le> 32"
  using jitter_bounded [of "zero_rx\<lparr>haveTransit := True, jitter := 32, lastTransit := 5\<rparr>" 32 3 8]
  by (simp add: zero_rx_def)

end
