(* ===== verification/SdpText.thy ===== *)
theory SdpText
  imports Sdp
begin

text \<open>
  The text of a session description. \<open>github.com/pion/sdp\<close> parses it for the program; what the
  program relies on is the format of RFC 4566, so that format is written down here as a reader of its
  own, \<open>read_sdp\<close>, for descriptions of one IPv4 audio stream: the lines v, o, s, c, t, m and the attributes,
  each ended by CR LF, their fields separated by single spaces. The assumption on the package,
  \<open>pion_sdp\<close>, is that it reads every text of this format as what it says. What the program renders is
  proved to be such a text: nothing is assumed of the program's own descriptions.
\<close>

section \<open>The format\<close>

text \<open>The lines of a text of which every line is ended by CR LF.\<close>

definition text_lines :: "string \<Rightarrow> string list option" where
  "text_lines s =
     (let ls = Split s (CHR 0x0A)
      in if last ls = [] \<and> list_all (\<lambda>l. l \<noteq> [] \<and> last l = CHR 0x0D) (butlast ls)
         then Some (map butlast (butlast ls)) else None)"

text \<open>The value of a line of type \<open>k\<close>, and its fields.\<close>

definition line_value :: "char \<Rightarrow> string \<Rightarrow> string option" where
  "line_value k l = (if HasPrefix l [k, CHR ''=''] then Some (drop 2 l) else None)"

definition line_fields :: "char \<Rightarrow> string \<Rightarrow> string list" where
  "line_fields k l =
     (case line_value k l of None \<Rightarrow> []
      | Some v \<Rightarrow> (let fs = Split v (CHR '' '') in if [] \<in> set fs then [] else fs))"

definition numeric :: "string \<Rightarrow> bool" where
  "numeric s \<longleftrightarrow> (case ParseDigits s of None \<Rightarrow> False | Some n \<Rightarrow> n < 2 ^ 64)"

definition origin_line :: "string \<Rightarrow> bool" where
  "origin_line l \<longleftrightarrow>
     (case line_fields (CHR ''o'') l of
        [user, sid, ver, nettype, addrtype, addr] \<Rightarrow> numeric sid \<and> numeric ver \<and> nettype = ''IN'' \<and> addrtype = ''IP4''
      | _ \<Rightarrow> False)"

definition connection_line :: "string \<Rightarrow> string option" where
  "connection_line l =
     (case line_fields (CHR ''c'') l of
        [nettype, addrtype, addr] \<Rightarrow>
          if nettype = ''IN'' \<and> addrtype = ''IP4'' \<and> CHR ''/'' \<notin> set addr then Some addr else None
      | _ \<Rightarrow> None)"

definition timing_line :: "string \<Rightarrow> bool" where
  "timing_line l \<longleftrightarrow>
     (case line_fields (CHR ''t'') l of [a, b] \<Rightarrow> numeric a \<and> numeric b | _ \<Rightarrow> False)"

definition media_line :: "string \<Rightarrow> (int \<times> string list) option" where
  "media_line l =
     (case line_fields (CHR ''m'') l of
        media # port # proto # fmts \<Rightarrow>
          (case ParseDigits port of None \<Rightarrow> None
           | Some n \<Rightarrow> if media = ''audio'' \<and> proto = ''RTP/AVP'' \<and> fmts \<noteq> [] \<and> n < 65536 then Some (int n, fmts) else None)
      | _ \<Rightarrow> None)"

text \<open>An attribute is a name, or a name and a value after the first colon.\<close>

definition attribute_line :: "string \<Rightarrow> (string \<times> string) option" where
  "attribute_line l =
     (case line_value (CHR ''a'') l of None \<Rightarrow> None
      | Some v \<Rightarrow> (let (name, val, _) = Cut v '':'' in if name = [] then None else Some (name, val)))"

definition read_sdp :: "string \<Rightarrow> SessionDescription option" where
  "read_sdp s =
     (case text_lines s of
        Some (v # o' # sn # c # t # m # as) \<Rightarrow>
          (if CHR 0x09 \<notin> set s \<and> v = ''v=0'' \<and> origin_line o' \<and> line_fields (CHR ''s'') sn \<noteq> [] \<and> timing_line t
           then (case (connection_line c, media_line m, those (map attribute_line as)) of
                   (Some addr, Some (port, fmts), Some attrs) \<Rightarrow>
                     Some \<lparr>SessionConn = Some (Some addr),
                       MediaDescriptions = [\<lparr>Media = ''audio'', MediaPort = port, Formats = fmts, MediaConn = None,
                                             Attributes = attrs\<rparr>]\<rparr>
                 | _ \<Rightarrow> None)
           else None)
      | _ \<Rightarrow> None)"

definition pion_sdp :: "sdp_parser \<Rightarrow> bool" where
  "pion_sdp unmarshal \<longleftrightarrow> (\<forall>s sd. read_sdp s = Some sd \<longrightarrow> unmarshal s = Inr sd)"

text \<open>The format's own reader, as a parser.\<close>

definition format_parser :: sdp_parser where
  "format_parser s = (case read_sdp s of Some sd \<Rightarrow> Inr sd | None \<Rightarrow> Inl ''syntax'')"

lemma pion_format: "pion_sdp format_parser"
  by (simp add: pion_sdp_def format_parser_def)

section \<open>The program's descriptions have it\<close>

text \<open>A host that can stand in a connection line.\<close>

definition sdp_host :: "string \<Rightarrow> bool" where
  "sdp_host h \<longleftrightarrow> h \<noteq> [] \<and> set h \<inter> set [CHR '' '', CHR ''/'', CHR 0x09, CHR 0x0A, CHR 0x0D] = {}"

definition rtpmap_line :: "int \<Rightarrow> string \<Rightarrow> string" where
  "rtpmap_line pt name = ''a=rtpmap:'' @ Itoa pt @ '' '' @ name @ ''/'' @ Itoa sampleRate"

definition formats_of :: "Codec list \<Rightarrow> int \<Rightarrow> string list" where
  "formats_of codecs dtmfPT = map (\<lambda>c. Itoa (uint (PT c))) codecs @ (if dtmfPT \<ge> 0 then [Itoa dtmfPT] else [])"

definition attribute_lines :: "Codec list \<Rightarrow> int \<Rightarrow> Direction \<Rightarrow> string list" where
  "attribute_lines codecs dtmfPT d =
     map (\<lambda>c. rtpmap_line (uint (PT c)) (Name c)) codecs @
     (if dtmfPT \<ge> 0 then [rtpmap_line dtmfPT telephoneEvent, ''a=fmtp:'' @ Itoa dtmfPT @ '' 0-16''] else []) @
     [''a=ptime:'' @ Itoa frameDurationMs, ''a='' @ dir_str d]"

definition head_lines :: "string \<Rightarrow> int \<Rightarrow> Codec list \<Rightarrow> int \<Rightarrow> u64 \<Rightarrow> u64 \<Rightarrow> string list" where
  "head_lines ip port codecs dtmfPT sessID ver =
     [''v=0'', ''o=- '' @ Itoa (uint sessID) @ '' '' @ Itoa (uint ver) @ '' IN IP4 '' @ ip, ''s=-'', ''c=IN IP4 '' @ ip,
      ''t=0 0'', ''m=audio '' @ Itoa port @ '' RTP/AVP'' @ concat (map (\<lambda>f. '' '' @ f) (formats_of codecs dtmfPT))]"

lemma buildSDP_lines:
  "buildSDP ip port codecs dtmfPT d sessID ver =
     concat (map (\<lambda>l. l @ crlf) (head_lines ip port codecs dtmfPT sessID ver @ attribute_lines codecs dtmfPT d))"
proof -
  have f: "concat (map (\<lambda>f. '' '' @ f) (formats_of codecs dtmfPT)) =
      concat (map (\<lambda>c. '' '' @ Itoa (uint (PT c))) codecs) @ (if dtmfPT \<ge> 0 then '' '' @ Itoa dtmfPT else [])"
    by (simp add: formats_of_def comp_def)
  have a: "concat (map (\<lambda>l. l @ crlf) (map (\<lambda>c. rtpmap_line (uint (PT c)) (Name c)) codecs)) =
      concat (map (\<lambda>c. ''a=rtpmap:'' @ Itoa (uint (PT c)) @ '' '' @ Name c @ ''/'' @ Itoa sampleRate @ crlf) codecs)"
    by (simp add: rtpmap_line_def comp_def)
  show ?thesis
    unfolding buildSDP_def head_lines_def attribute_lines_def map_append concat_append a f
    by (simp add: rtpmap_line_def)
qed

lemma Split_crlf_lines:
  "list_all (\<lambda>l. CHR 0x0A \<notin> set l) ls \<Longrightarrow>
   Split (concat (map (\<lambda>l. l @ crlf) ls)) (CHR 0x0A) = map (\<lambda>l. l @ [CHR 0x0D]) ls @ [[]]"
proof (induction ls)
  case (Cons l ls)
  then show ?case
    using Split_append [of "CHR 0x0A" "l @ [CHR 0x0D]" "concat (map (\<lambda>l. l @ crlf) ls)"] by (simp add: crlf_def)
qed simp

lemma text_lines_crlf:
  "list_all (\<lambda>l. CHR 0x0A \<notin> set l) ls \<Longrightarrow> text_lines (concat (map (\<lambda>l. l @ crlf) ls)) = Some ls"
  by (simp add: text_lines_def Split_crlf_lines Let_def comp_def list_all_iff)

text \<open>The fields of a line that was put together from them.\<close>

lemma Split_words:
  "list_all (\<lambda>w. CHR '' '' \<notin> set w) (w # ws) \<Longrightarrow> Split (w @ concat (map (\<lambda>f. '' '' @ f) ws)) (CHR '' '') = w # ws"
proof (induction ws arbitrary: w)
  case (Cons v ws)
  then show ?case
    using Split_append [of "CHR '' ''" w "v @ concat (map (\<lambda>f. '' '' @ f) ws)"] by simp
qed (simp add: Split_absent)

definition field_word :: "string \<Rightarrow> bool" where
  "field_word w \<longleftrightarrow> w \<noteq> [] \<and> CHR '' '' \<notin> set w"

lemma line_fields_words:
  assumes "list_all field_word (w # ws)"
  shows "line_fields k (k # CHR ''='' # w @ concat (map (\<lambda>f. '' '' @ f) ws)) = w # ws"
proof -
  have "Split (w @ concat (map (\<lambda>f. '' '' @ f) ws)) (CHR '' '') = w # ws"
    by (rule Split_words) (use assms in \<open>auto simp: field_word_def list_all_iff\<close>)
  then show ?thesis
    using assms by (auto simp: line_fields_def line_value_def HasPrefix_def field_word_def list_all_iff)
qed

lemma Itoa_word: "0 \<le> i \<Longrightarrow> field_word (Itoa i)"
  using Itoa_nonneg_plain [of i "CHR '' ''"] FormatNat_digits [of "nat i"]
  by (auto simp: field_word_def Itoa_def is_digit_def)

lemma ParseDigits_Itoa: "0 \<le> i \<Longrightarrow> ParseDigits (Itoa i) = Some (nat i)"
  by (simp add: Itoa_def)

lemma numeric_u64 [simp]: "numeric (Itoa (uint (x :: u64)))"
proof -
  have "unat x < 2 ^ 64" by (rule order_less_le_trans [OF unsigned_less]) simp
  then show ?thesis by (simp add: numeric_def ParseDigits_Itoa)
qed

lemma host_word: "sdp_host h \<Longrightarrow> field_word h \<and> CHR ''/'' \<notin> set h"
  by (auto simp: sdp_host_def field_word_def)

lemma origin_rendered:
  assumes "sdp_host ip"
  shows "origin_line (''o=- '' @ Itoa (uint (x :: u64)) @ '' '' @ Itoa (uint (y :: u64)) @ '' IN IP4 '' @ ip)"
proof -
  have "line_fields (CHR ''o'') (''o='' @ ''-'' @ concat (map (\<lambda>f. '' '' @ f) [Itoa (uint x), Itoa (uint y), ''IN'', ''IP4'', ip])) =
      [''-'', Itoa (uint x), Itoa (uint y), ''IN'', ''IP4'', ip]"
    using line_fields_words [of "''-''" "[Itoa (uint x), Itoa (uint y), ''IN'', ''IP4'', ip]" "CHR ''o''"]
      host_word [OF assms] Itoa_word [of "uint x"] Itoa_word [of "uint y"] by (simp add: field_word_def)
  then show ?thesis by (simp add: origin_line_def)
qed

lemma connection_rendered: "sdp_host ip \<Longrightarrow> connection_line (''c=IN IP4 '' @ ip) = Some ip"
  using line_fields_words [of "''IN''" "[''IP4'', ip]" "CHR ''c''"] host_word [of ip]
  by (simp add: connection_line_def field_word_def)

lemma timing_rendered: "timing_line ''t=0 0''"
  by (simp add: timing_line_def line_fields_def line_value_def HasPrefix_def numeric_def ParseDigits_def is_digit_def digit_val_def char_eval)

lemma formats_words:
  "list_all field_word (formats_of codecs dtmfPT)"
  by (auto simp: formats_of_def list_all_iff Itoa_word)

lemma media_rendered:
  assumes "0 \<le> port" "port < 65536" "codecs \<noteq> [] \<or> dtmfPT \<ge> 0"
  shows "media_line (''m=audio '' @ Itoa port @ '' RTP/AVP'' @ concat (map (\<lambda>f. '' '' @ f) (formats_of codecs dtmfPT))) =
    Some (port, formats_of codecs dtmfPT)"
proof -
  have "list_all field_word (''audio'' # Itoa port # ''RTP/AVP'' # formats_of codecs dtmfPT)"
    using formats_words Itoa_word [OF assms(1)] by (simp add: field_word_def)
  from line_fields_words [OF this, of "CHR ''m''"] assms show ?thesis
    by (auto simp: media_line_def ParseDigits_Itoa formats_of_def)
qed

lemma rtpmap_rendered: "attribute_line (rtpmap_line i name) = Some (''rtpmap'', Itoa i @ '' '' @ name @ ''/'' @ Itoa sampleRate)"
  by (simp add: attribute_line_def rtpmap_line_def line_value_def HasPrefix_def)

lemma attributes_rendered:
  "those (map attribute_line (attribute_lines codecs dtmfPT d)) =
   Some (Attributes (hd (MediaDescriptions (sdp_desc ip port codecs dtmfPT d))))"
proof -
  have app: "those (xs @ ys) = (case those xs of None \<Rightarrow> None | Some us \<Rightarrow> map_option ((@) us) (those ys))" for xs ys :: "'a option list"
    by (induction xs) (auto split: option.splits simp: map_option_case)
  have maps: "those (map (\<lambda>c. Some (f c)) cs) = Some (map f cs)" for f :: "Codec \<Rightarrow> 'a" and cs
    by (induction cs) simp_all
  have rest: "attribute_line (''a=fmtp:'' @ Itoa dtmfPT @ '' 0-16'') = Some (''fmtp'', Itoa dtmfPT @ '' 0-16'')"
    "attribute_line (''a=ptime:'' @ Itoa frameDurationMs) = Some (''ptime'', Itoa frameDurationMs)"
    by (simp_all add: attribute_line_def line_value_def HasPrefix_def)
  have dir: "attribute_line (''a='' @ dir_str d) = Some (dir_str d, [])"
    by (cases d) (simp_all add: attribute_line_def line_value_def HasPrefix_def dir_str_def)
  show ?thesis
    by (simp add: attribute_lines_def sdp_desc_def app maps comp_def rtpmap_rendered rest [simplified] dir [simplified])
qed

text \<open>No byte of the rendered lines ends a line, and there is no tab.\<close>

definition line_text :: "string \<Rightarrow> bool" where
  "line_text s \<longleftrightarrow> CHR 0x09 \<notin> set s \<and> CHR 0x0A \<notin> set s"

lemma line_text_simps [simp]:
  "line_text []" "line_text (s @ s') \<longleftrightarrow> line_text s \<and> line_text s'"
  "line_text (c # s) \<longleftrightarrow> c \<noteq> CHR 0x09 \<and> c \<noteq> CHR 0x0A \<and> line_text s"
  by (auto simp: line_text_def)

lemma line_text_Itoa [simp]: "0 \<le> i \<Longrightarrow> line_text (Itoa i)"
  by (simp add: line_text_def Itoa_nonneg_plain is_digit_def char_eval)

lemma line_text_rendered:
  assumes "sdp_host ip" "0 \<le> port" "list_all known_codec codecs"
  shows "list_all line_text (head_lines ip port codecs dtmfPT x y @ attribute_lines codecs dtmfPT d)"
proof -
  have ip: "line_text ip" using assms(1) by (auto simp: sdp_host_def line_text_def)
  have cs: "line_text (Name c)" if "c \<in> set codecs" for c
    using known_name [of c] assms(3) that by (auto simp: list_all_iff)
  have dir: "line_text (dir_str d)" by (cases d) (simp_all add: dir_str_def)
  have fs: "line_text (concat (map (\<lambda>f. CHR '' '' # f) fs))" if "list_all line_text fs" for fs
    using that by (induction fs) simp_all
  have "list_all line_text (formats_of codecs dtmfPT)" by (auto simp: formats_of_def list_all_iff)
  with ip cs dir fs assms(2) show ?thesis
    by (auto simp: head_lines_def attribute_lines_def rtpmap_line_def telephoneEvent_def list_all_iff)
qed

lemma no_tab_lines: "list_all line_text ls \<Longrightarrow> CHR 0x09 \<notin> set (concat (map (\<lambda>l. l @ crlf) ls))"
  by (induction ls) (auto simp: line_text_def crlf_def)

text \<open>The rendered text is one of the format, and it says what was to be said.\<close>

lemma read_buildSDP:
  assumes "sdp_host ip" "0 \<le> port" "port < 65536" "list_all known_codec codecs" "codecs \<noteq> [] \<or> dtmfPT \<ge> 0"
  shows "read_sdp (buildSDP ip port codecs dtmfPT d x y) = Some (sdp_desc ip port codecs dtmfPT d)"
proof -
  note plain = line_text_rendered [OF assms(1,2,4), of dtmfPT x y d]
  have "text_lines (buildSDP ip port codecs dtmfPT d x y) =
      Some (head_lines ip port codecs dtmfPT x y @ attribute_lines codecs dtmfPT d)"
    unfolding buildSDP_lines
    by (rule text_lines_crlf) (use plain in \<open>auto simp: list_all_iff line_text_def\<close>)
  moreover have "CHR 0x09 \<notin> set (buildSDP ip port codecs dtmfPT d x y)"
    unfolding buildSDP_lines by (rule no_tab_lines [OF plain])
  moreover have "line_fields (CHR ''s'') ''s=-'' \<noteq> []"
    by (simp add: line_fields_def line_value_def HasPrefix_def)
  ultimately show ?thesis
    using origin_rendered [OF assms(1), of x y] connection_rendered [OF assms(1)] timing_rendered
      media_rendered [OF assms(2,3,5)] attributes_rendered [of codecs dtmfPT d ip port]
    by (simp add: read_sdp_def head_lines_def sdp_desc_def formats_of_def)
qed

text \<open>So a parser that keeps to the format reads it as that.\<close>

lemma unmarshal_buildSDP:
  assumes "pion_sdp unmarshal" "sdp_host ip" "0 \<le> port" "port < 65536" "list_all known_codec codecs" "codecs \<noteq> [] \<or> dtmfPT \<ge> 0"
  shows "unmarshal (buildSDP ip port codecs dtmfPT d x y) = Inr (sdp_desc ip port codecs dtmfPT d)"
  using assms(1) read_buildSDP [OF assms(2-6)] by (simp add: pion_sdp_def)

lemma parse_buildSDP:
  assumes "pion_sdp unmarshal" "sdp_host ip" "0 < port" "port < 65536" "list_all known_codec codecs" "codecs \<noteq> [] \<or> dtmfPT \<ge> 0"
    and "distinct (map PT codecs)" "dtmf_distinct codecs dtmfPT" "resolve env ip = Inr a" "\<not> IsUnspecified a"
  shows "ParseSDP unmarshal env (buildSDP ip port codecs dtmfPT d x y) =
    Inr \<lparr>Addr = Some \<lparr>IP = a, Port = port\<rparr>, Codecs = codecs, DTMFPT = dtmfPT, Dir = d\<rparr>"
proof (rule parse_rendered [OF assms(5,7,8,9,10)])
  show "port \<noteq> 0" using assms(3) by simp
  show "unmarshal (buildSDP ip port codecs dtmfPT d x y) = Inr (sdp_desc ip port codecs dtmfPT d)"
    using unmarshal_buildSDP assms by simp
qed

end
