(* ===== verification/Negotiation.thy ===== *)
theory Negotiation
  imports RtpStream SdpText
begin

text \<open>
  The offer/answer exchange of two streams. What a caller of \<open>Answer\<close> and
  \<open>ApplyAnswer\<close> relies on is the interface \<open>negotiator\<close>; \<open>RtpStream\<close>
  provides it, and the agreement of the two ends follows from the interface alone.
\<close>

locale negotiator =
  fixes ours :: "'s \<Rightarrow> Codec list"
    and codec_of :: "'s \<Rightarrow> Codec"
    and events_of :: "'s \<Rightarrow> int"
    and direction :: "'s \<Rightarrow> Direction"
    and answer :: "'s \<Rightarrow> Remote \<Rightarrow> 's option"
    and applied :: "'s \<Rightarrow> Remote \<Rightarrow> 's option"
  assumes answer_direction: "answer s r = Some s' \<Longrightarrow> direction s' = Reverse (Dir r)"
    and answer_codec: "answer s r = Some s' \<Longrightarrow> codec_of s' \<in> set (Codecs r) \<and> Name (codec_of s') \<in> Name ` set (ours s)"
    and answer_events: "answer s r = Some s' \<Longrightarrow> events_of s' = DTMFPT r"
    and answer_refused: "answer s r = None \<longleftrightarrow> Name ` set (ours s) \<inter> Name ` set (Codecs r) = {}"
    and applied_direction: "applied s r = Some s' \<Longrightarrow> direction s' = Reverse (Dir r)"
    and applied_codec: "applied s r = Some s' \<Longrightarrow> codec_of s' \<in> set (Codecs r)"
    and applied_events: "applied s r = Some s' \<Longrightarrow> events_of s' = DTMFPT r"
    and applied_refused: "applied s r = None \<longleftrightarrow> Name ` set (ours s) \<inter> Name ` set (Codecs r) = {}"
begin

text \<open>
  \<open>a\<close> described itself as \<open>r\<close> (its own codecs); \<open>b\<close> answered and described
  itself as \<open>r'\<close> (the one codec it chose).
\<close>

lemma agreement:
  assumes "Codecs r = ours a" and b: "answer b r = Some b'"
    and r': "Codecs r' = [codec_of b']" "DTMFPT r' = events_of b'" "Dir r' = direction b'"
  shows "\<exists>a'. applied a r' = Some a' \<and> codec_of a' = codec_of b' \<and> events_of a' = DTMFPT r \<and>
    events_of b' = DTMFPT r \<and> direction a' = Dir r \<and> direction b' = Reverse (Dir r)"
proof -
  have "codec_of b' \<in> set (ours a)" using answer_codec [OF b] assms(1) by simp
  then have "applied a r' \<noteq> None" by (auto simp: applied_refused r')
  then obtain a' where a': "applied a r' = Some a'" by blast
  show ?thesis
    using a' applied_codec [OF a'] applied_direction [OF a'] applied_events [OF a']
      answer_direction [OF b] answer_events [OF b]
    by (simp add: r')
qed

lemma no_exchange:
  assumes "Codecs r = ours a" "Name ` set (ours a) \<inter> Name ` set (ours b) = {}"
  shows "answer b r = None"
  using assms by (simp add: answer_refused Int_commute)

end

text \<open>The stream's operations, without the text they return.\<close>

definition stream_answer :: "Stream \<Rightarrow> Remote \<Rightarrow> Stream option" where
  "stream_answer s r = (case Answer s r of Inl _ \<Rightarrow> None | Inr (s', _) \<Rightarrow> Some s')"

definition stream_apply :: "Stream \<Rightarrow> Remote \<Rightarrow> Stream option" where
  "stream_apply s r = (case ApplyAnswer s r of Inl _ \<Rightarrow> None | Inr s' \<Rightarrow> Some s')"

lemma sdpLocked_simps [simp]:
  "fst (sdpLocked s) = s\<lparr>version := version s + 1\<rparr>"
  "snd (sdpLocked s) = buildSDP (cfgIP (cfg s)) (port s) [codec s] (if remoteDTMF s \<ge> 0 then remoteDTMF s else -1)
     (dir s) (sessID s) (version s + 1)"
  by (simp_all add: sdpLocked_def Let_def)

lemma Answer_Inr:
  "Answer s r = Inr (s', sdp) \<longleftrightarrow>
   (\<exists>c. choose_codec (cfgCodecs (cfg s)) (Codecs r) True = Some c \<and>
        sdpLocked ((setRemoteLocked s r c)\<lparr>dir := Reverse (Dir r)\<rparr>) = (s', sdp))"
  by (auto simp: Answer_def split: option.splits)

lemma stream_answer_eq:
  "stream_answer s r = map_option
     (\<lambda>c. (setRemoteLocked s r c)\<lparr>dir := Reverse (Dir r), version := version s + 1\<rparr>)
     (choose_codec (cfgCodecs (cfg s)) (Codecs r) True)"
  by (simp add: stream_answer_def Answer_def sdpLocked_def Let_def split: option.splits)

lemma stream_apply_eq:
  "stream_apply s r = map_option (\<lambda>c. (setRemoteLocked s r c)\<lparr>dir := Reverse (Dir r)\<rparr>)
     (choose_codec (cfgCodecs (cfg s)) (Codecs r) False)"
  by (simp add: stream_apply_def ApplyAnswer_def split: option.splits)

interpretation rtp: negotiator "\<lambda>s. cfgCodecs (cfg s)" codec remoteDTMF dir stream_answer stream_apply
  by unfold_locales
     (auto simp: stream_answer_eq stream_apply_eq choose_codec_None dest!: choose_codec_Some)

section \<open>Two streams over the rendered text\<close>

text \<open>A stream another end can reach: a resolvable, specified address and a UDP port. An offer: codecs on distinct payload types.\<close>

definition reachable_at :: "net_env \<Rightarrow> Stream \<Rightarrow> ip_addr \<Rightarrow> bool" where
  "reachable_at env s a \<longleftrightarrow> sdp_host (cfgIP (cfg s)) \<and> resolve env (cfgIP (cfg s)) = Inr a \<and> \<not> IsUnspecified a \<and>
     0 < port s \<and> port s < 65536"

definition offerable :: "Stream \<Rightarrow> bool" where
  "offerable s \<longleftrightarrow> list_all known_codec (cfgCodecs (cfg s)) \<and> distinct (map PT (cfgCodecs (cfg s))) \<and>
     dtmf_distinct (cfgCodecs (cfg s)) defaultDTMFPT"

lemma Offer_text:
  "Offer a d = (a', offer) \<Longrightarrow> cfg a' = cfg a \<and> port a' = port a \<and> closed a' = closed a"
  by (auto simp: Offer_def Let_def)

lemma set_addr_remote:
  "Addr r = Some u \<Longrightarrow> \<not> IsUnspecified (IP u) \<Longrightarrow> remote (set_addr s r) = Some u"
  by (simp add: set_addr_def)

lemma Answer_desc:
  assumes "Answer s r = Inr (s', sdp)"
  shows "cfg s' = cfg s" "port s' = port s" "stream_answer s r = Some s'"
    "Addr r = Some u \<Longrightarrow> \<not> IsUnspecified (IP u) \<Longrightarrow> remote s' = Some u"
  using assms by (auto simp: stream_answer_def Answer_def sdpLocked_def Let_def set_addr_remote split: option.splits)

lemma ApplyAnswer_desc:
  assumes "stream_apply s r = Some s'"
  shows "ApplyAnswer s r = Inr s'"
    "Addr r = Some u \<Longrightarrow> \<not> IsUnspecified (IP u) \<Longrightarrow> remote s' = Some u"
  using assms by (auto simp: stream_apply_def ApplyAnswer_def set_addr_remote split: sum.splits option.splits)

text \<open>What the other end reads of an offer, of an answer, and of what \<open>Update\<close> renders.\<close>

lemma ParseSDP_Offer:
  assumes "pion_sdp unmarshal" "offerable a" "reachable_at env a ip"
  shows "ParseSDP unmarshal env (snd (Offer a d)) =
    Inr \<lparr>Addr = Some \<lparr>IP = ip, Port = port a\<rparr>, Codecs = cfgCodecs (cfg a), DTMFPT = defaultDTMFPT, Dir = d\<rparr>"
  using assms by (simp add: Offer_def Let_def parse_buildSDP reachable_at_def offerable_def)

lemma ParseSDP_sdpLocked:
  assumes "pion_sdp unmarshal" "reachable_at env b ip" "known_codec (codec b)" "dtmf_distinct [codec b] (remoteDTMF b)"
  shows "ParseSDP unmarshal env (snd (sdpLocked b)) =
    Inr \<lparr>Addr = Some \<lparr>IP = ip, Port = port b\<rparr>, Codecs = [codec b], DTMFPT = remoteDTMF b, Dir = dir b\<rparr>"
proof -
  have "(if remoteDTMF b \<ge> 0 then remoteDTMF b else -1) = remoteDTMF b"
    using assms(4) by (auto simp: dtmf_distinct_def)
  then show ?thesis
    using assms by (simp add: parse_buildSDP reachable_at_def)
qed

lemma ParseSDP_Answer:
  assumes "pion_sdp unmarshal" "reachable_at env b ip" "Answer b r = Inr (b', text)" "known_codec (codec b')"
    and "dtmf_distinct [codec b'] (remoteDTMF b')"
  shows "ParseSDP unmarshal env text =
    Inr \<lparr>Addr = Some \<lparr>IP = ip, Port = port b\<rparr>, Codecs = [codec b'], DTMFPT = remoteDTMF b', Dir = dir b'\<rparr>"
proof -
  obtain s where s: "sdpLocked s = (b', text)" "cfg s = cfg b" "port s = port b"
    using assms(3) by (auto simp: Answer_Inr)
  have b': "codec b' = codec s" "remoteDTMF b' = remoteDTMF s" "dir b' = dir s" "text = snd (sdpLocked s)"
    using s(1) by (auto simp: sdpLocked_def Let_def)
  show ?thesis
    using ParseSDP_sdpLocked [OF assms(1), of env s ip] assms(2,4,5) s(2,3) b' by (simp add: reachable_at_def)
qed

text \<open>C1: The full exchange through the descriptions each end renders and the parser reads: whenever the two
  ends are reachable (a host that resolves, a UDP port) and have a codec in common, and the offerer's codecs
  have payload types of their own, an offer in any direction is parsed and answered, the answer is parsed and
  applied, and both ends are left with the same codec and payload type, the same telephone-event payload
  type, dual directions, and each other's address and port. Of the parser only the format of RFC 4566 is
  assumed, nothing of the program's own texts.\<close>

theorem offer_answer_agree:
  assumes pion: "pion_sdp unmarshal"
    and a: "offerable a" "reachable_at env a ipa" and b: "reachable_at env b ipb"
    and common: "Name ` set (cfgCodecs (cfg a)) \<inter> Name ` set (cfgCodecs (cfg b)) \<noteq> {}"
    and offer: "Offer a d = (a', offer)"
  shows "\<exists>r b' answer r' a''. ParseSDP unmarshal env offer = Inr r \<and> Answer b r = Inr (b', answer) \<and>
    ParseSDP unmarshal env answer = Inr r' \<and> ApplyAnswer a' r' = Inr a'' \<and>
    codec a'' = codec b' \<and> codec b' \<in> set (cfgCodecs (cfg a)) \<and>
    remoteDTMF a'' = defaultDTMFPT \<and> remoteDTMF b' = defaultDTMFPT \<and>
    dir a'' = d \<and> dir b' = Reverse d \<and>
    remote a'' = Some \<lparr>IP = ipb, Port = port b\<rparr> \<and> remote b' = Some \<lparr>IP = ipa, Port = port a\<rparr>"
proof -
  define r where "r = \<lparr>Addr = Some \<lparr>IP = ipa, Port = port a\<rparr>, Codecs = cfgCodecs (cfg a), DTMFPT = defaultDTMFPT, Dir = d\<rparr>"
  have r: "ParseSDP unmarshal env offer = Inr r"
    using ParseSDP_Offer [OF pion a, of d] offer by (simp add: r_def)
  have "stream_answer b r \<noteq> None"
    using common by (auto simp: rtp.answer_refused r_def)
  then obtain b' answer where answer: "Answer b r = Inr (b', answer)"
    by (auto simp: stream_answer_def split: sum.splits)
  note b' = Answer_desc [OF answer]
  have codec: "codec b' \<in> set (cfgCodecs (cfg a))" "remoteDTMF b' = defaultDTMFPT"
    using rtp.answer_codec [OF b'(3)] rtp.answer_events [OF b'(3)] by (simp_all add: r_def)
  then have known: "known_codec (codec b')" and dt: "dtmf_distinct [codec b'] (remoteDTMF b')"
    using a(1) by (auto simp: offerable_def dtmf_distinct_def list_all_iff)
  define r' where "r' = \<lparr>Addr = Some \<lparr>IP = ipb, Port = port b\<rparr>, Codecs = [codec b'], DTMFPT = remoteDTMF b', Dir = dir b'\<rparr>"
  have r': "ParseSDP unmarshal env answer = Inr r'"
    using ParseSDP_Answer [OF pion b answer known dt] by (simp add: r'_def)
  have "cfg a' = cfg a" using Offer_text [OF offer] by simp
  then obtain a'' where "stream_apply a' r' = Some a''" "codec a'' = codec b'" "remoteDTMF a'' = DTMFPT r"
    "remoteDTMF b' = DTMFPT r" "dir a'' = Dir r" "dir b' = Reverse (Dir r)"
    using rtp.agreement [of r a' b b' r', OF _ b'(3)] by (auto simp: r_def r'_def)
  then show ?thesis
    using r r' answer codec(1) ApplyAnswer_desc(1) [of a' r' a''] ApplyAnswer_desc(2) [of a' r' a'' "\<lparr>IP = ipb, Port = port b\<rparr>"]
      b'(4) [of "\<lparr>IP = ipa, Port = port a\<rparr>"] a(2) b
    by (simp add: r_def r'_def reachable_at_def)
qed

section \<open>A concrete exchange\<close>

text \<open>A default stream offers to send only, the other end knows PCMA alone.\<close>

definition demo_net :: net_env where
  "demo_net = \<lparr>parseIPv6 = (\<lambda>_. None), LookupIP = (\<lambda>_. Inl ''no such host'')\<rparr>"

definition demo_a :: Stream where "demo_a = demo_new ''10.0.0.1'' 4000 []"
definition demo_b :: Stream where "demo_b = demo_new ''10.0.0.2'' 5000 [PCMA]"

definition demo_remote :: Remote where
  "demo_remote = \<lparr>Addr = Some \<lparr>IP = IPv4 0x0A000001, Port = 4000\<rparr>, Codecs = [PCMU, PCMA], DTMFPT = 101, Dir = SendOnly\<rparr>"

definition demo_answer :: "Stream \<times> string" where
  "demo_answer = (case Answer demo_b demo_remote of Inr x \<Rightarrow> x | Inl _ \<Rightarrow> (demo_b, []))"

lemma demo_ip: "resolve demo_net ''10.0.0.1'' = Inr (IPv4 0x0A000001)" "resolve demo_net ''10.0.0.2'' = Inr (IPv4 0x0A000002)"
  by (simp_all add: resolve_def ParseIP_def parseIPv4_def parse_octet_def  demo_net_def ParseDigits_def is_digit_def digit_val_def char_eval)

lemma demo_ready: "offerable demo_a" "reachable_at demo_net demo_a (IPv4 0x0A000001)" "reachable_at demo_net demo_b (IPv4 0x0A000002)"
  by (simp_all add: offerable_def reachable_at_def demo_ip demo_a_def demo_b_def demo_new_def dtmf_distinct_def IsUnspecified_def sdp_host_def)

lemma demo_parse: "ParseSDP format_parser demo_net (snd (Offer demo_a SendOnly)) = Inr demo_remote"
proof -
  have "cfgCodecs (cfg demo_a) = [PCMU, PCMA]" "port demo_a = 4000" by (simp_all add: demo_a_def demo_new_def)
  then show ?thesis
    using ParseSDP_Offer [OF pion_format demo_ready(1,2), of SendOnly] by (simp add: demo_remote_def)
qed

lemma demo_answered: "Answer demo_b demo_remote = Inr demo_answer"
  "codec (fst demo_answer) = PCMA" "remoteDTMF (fst demo_answer) = 101" "dir (fst demo_answer) = RecvOnly"
  by (simp_all add: demo_answer_def Answer_def demo_b_def demo_new_def demo_remote_def choose_codec_def sdpLocked_def Let_def)

theorem offer_answer_agree_witness:
  "\<exists>r' a''. ParseSDP format_parser demo_net (snd demo_answer) = Inr r' \<and>
     ApplyAnswer (fst (Offer demo_a SendOnly)) r' = Inr a'' \<and> codec a'' = PCMA \<and> dir a'' = SendOnly"
proof -
  have common: "Name ` set (cfgCodecs (cfg demo_a)) \<inter> Name ` set (cfgCodecs (cfg demo_b)) \<noteq> {}"
    by (simp add: demo_a_def demo_b_def demo_new_def)
  obtain r b' answer r' a'' where "ParseSDP format_parser demo_net (snd (Offer demo_a SendOnly)) = Inr r"
    "Answer demo_b r = Inr (b', answer)" "ParseSDP format_parser demo_net answer = Inr r'"
    "ApplyAnswer (fst (Offer demo_a SendOnly)) r' = Inr a''" "codec a'' = codec b'" "dir a'' = SendOnly"
    using offer_answer_agree [OF pion_format demo_ready common prod.collapse [symmetric]] by metis
  then show ?thesis using demo_parse demo_answered by (metis Inr_inject prod.collapse prod.inject)
qed

end
