(* ===== verification/RtpLink.thy ===== *)
theory RtpLink
  imports RtpSend RtpReceive Negotiation
begin

text \<open>
  Two streams over a network that may lose packets: what \<open>tick\<close> of one builds is what
  \<open>receive\<close> of the other reads, audio arrives within the companding error, and the
  digits queued on one side are the digits the other side reports.
\<close>

section \<open>The packet format\<close>

lemma length_header [simp]: "length (header s pt m t) = 12"
  by (simp add: header_def)

lemma header_bytes:
  "header s pt m t ! 0 = 0x80"
  "header s pt m t ! 1 AND 0x7F = pt AND 0x7F"
  "get16be (header s pt m t @ payload) 2 = seq s"
  "get32be (header s pt m t @ payload) 4 = t"
  "get32be (header s pt m t @ payload) 8 = mySsrc s"
proof -
  show "header s pt m t ! 0 = 0x80" by (simp add: header_def)
  show "header s pt m t ! 1 AND 0x7F = pt AND 0x7F"
    by (simp add: header_def Let_def bit.conj_disj_distrib2 and.assoc)
  let ?h = "[0x80, (let b = pt AND 0x7F in if m then b OR 0x80 else b)] :: byte list"
  show "get16be (header s pt m t @ payload) 2 = seq s"
    using get_put_be(1) [of ?h "seq s" "put32be t @ put32be (mySsrc s) @ payload"] by (simp add: header_def numeral_2_eq_2)
  show "get32be (header s pt m t @ payload) 4 = t"
    using get_put_be(2) [of "?h @ put16be (seq s)" t "put32be (mySsrc s) @ payload"] by (simp add: header_def)
  show "get32be (header s pt m t @ payload) 8 = mySsrc s"
    using get_put_be(2) [of "?h @ put16be (seq s) @ put32be t" "mySsrc s" payload] by (simp add: header_def)
qed

text \<open>A payload type the receiver does not take for RTCP.\<close>

definition rtp_pt :: "byte \<Rightarrow> bool" where
  "rtp_pt pt \<longleftrightarrow> pt < 128 \<and> \<not> (72 \<le> pt \<and> pt \<le> 76)"

lemma and_127: "pt < 128 \<Longrightarrow> pt AND 0x7F = (pt :: byte)"
proof -
  assume "pt < 128"
  have "pt AND mask 7 = pt"
    using \<open>pt < 128\<close> by (intro less_mask_eq) simp_all
  then show ?thesis by (simp add: mask_eq_exp_minus_1)
qed

lemma parse_header:
  assumes "rtp_pt pt"
  shows "parse_rtp (header s pt m t @ payload) =
    Some \<lparr>rtpPT = pt, rtpSeq = seq s, rtpTs = t, rtpSsrc = mySsrc s, rtpPayload = payload\<rparr>"
proof -
  let ?b = "header s pt m t @ payload"
  have b: "?b ! 0 = 0x80" "?b ! Suc 0 AND 0x7F = pt"
    using assms header_bytes(1,2) [of s pt m t] by (simp_all add: nth_append rtp_pt_def and_127)
  have len: "length ?b = 12 + length payload" by simp
  then show ?thesis
    using assms by (simp add: parse_rtp_def Let_def b len rtp_pt_def header_bytes)
qed

section \<open>Audio\<close>

text \<open>What arrives of sample \<open>x\<close>: the quantisation error of either law.\<close>

definition near :: "i16 \<Rightarrow> i16 \<Rightarrow> bool" where
  "near x y \<longleftrightarrow> 32 * \<bar>sint y - sint x\<bar> \<le> \<bar>sint x\<bar> + 256"

lemma decoded_near: "known_codec c \<Longrightarrow> near x (decode c ! unat (encode c x))"
  using companding.quantisation [OF known_companding] by (simp add: near_def)

lemma take_drop_map: "take n (drop p (map f xs)) = map f (take n (drop p xs))"
  by (simp add: take_map drop_map)

text \<open>The samples a tick sends.\<close>

definition current_frame :: "Stream \<Rightarrow> i16 list" where
  "current_frame s = take frameSamples (drop (pos s) (pcm (audio s)))"

lemma source_frame:
  "source_ok s \<Longrightarrow> hasCodec s \<Longrightarrow>
   take frameSamples (drop (pos s) (src s)) = map (encode (codec s)) (current_frame s)"
  by (simp add: source_ok_def current_frame_def take_drop_map)

text \<open>\<open>b\<close> takes packets of the payload type \<open>a\<close> sends audio with as that codec.\<close>

definition audio_link :: "Stream \<Rightarrow> Stream \<Rightarrow> bool" where
  "audio_link a b \<longleftrightarrow> can_send a \<and> \<not> closed b \<and> hasCodec b \<and> codec b = codec a \<and>
     rtp_pt (PT (codec a)) \<and> remoteDTMF b = remoteDTMF a \<and> 0 \<le> remoteDTMF a \<and> remoteDTMF a < 128 \<and>
     remoteDTMF a \<noteq> uint (PT (codec a)) \<and> rtp_pt (word_of_int (remoteDTMF a))"

lemma tick_audio:
  assumes "can_send a" "nextDTMF (dtmfQ a) = (None, q)"
  shows "snd (tick now True a) = Some (the (remote a),
    header a (PT (codec a)) (marker a) (ts a) @ take frameSamples (drop (pos a) (src a)))"
    and "dtmfQ (fst (tick now True a)) = q"
    and "pos (fst (tick now True a)) = (pos a + frameSamples) mod length (src a)"
  using assms by (simp_all add: tick_sends tick_packet_audio header_def)

lemma receive_audio:
  assumes "audio_link a b"
  defines "p t payload \<equiv> \<lparr>rtpPT = PT (codec a), rtpSeq = seq a, rtpTs = t, rtpSsrc = mySsrc a, rtpPayload = payload\<rparr>"
  shows "receive b now (header a (PT (codec a)) m t @ payload) src' =
      audioFrame (accepted b (p t payload) src') now (p t payload) (decode (codec a))"
  using assms by (simp add: audio_link_def receive_accepted parse_header dispatch_def)

lemma audioFrame_rec:
  "rec (audioFrame s now p tb) = map_option
     (\<lambda>r. r\<lparr>rx := put (rx r) (at_pos r now) (rtpSsrc p) (rtpTs p) (rtpPayload p) tb\<rparr>) (rec s)"
  by (simp add: audioFrame_def Let_def)

text \<open>
  Where the recorder puts a frame: the first of its SSRC at its arrival, a later one by its RTP
  timestamp, counted from that first one.
\<close>

definition put_place :: "track \<Rightarrow> int \<Rightarrow> u32 \<Rightarrow> u32 \<Rightarrow> int" where
  "put_place t here s stamp = (if init t \<and> ssrc t = s then off0 t + sint (stamp - ts0 t) else here)"

lemma put_placed:
  assumes "0 \<le> put_place t now s stamp" "put_place t now s stamp + int (length payload) \<le> maxRecordSamples"
  shows "samples (put t now s stamp payload tb) = place (nat (put_place t now s stamp)) payload tb (samples t)"
  using assms by (auto simp: put_def Let_def place_def put_place_def)

lemma place_near:
  assumes "known_codec c" "i < length xs"
  shows "near (xs ! i) (sound (place p (map (encode c) xs) (decode c) ss) (p + i))"
  using assms by (simp add: sound_place decoded_near)

text \<open>C3: Audio end to end: the frame a well-formed stream with no digit queued sends in a tick arrives at a
  recording peer that takes its codec, sample by sample within the quantisation error of the codec, at its
  place in the recording: the place of its arrival when it is the first of its SSRC there, else the place
  its RTP timestamp gives relative to that first one, as long as this place is inside the recording.\<close>

theorem audio_arrives:
  assumes wf: "wf_stream a" and link: "audio_link a b" and idle: "dtmfQ a = []"
    and rec: "rec b = Some r" and p: "p = put_place (rx r) (at_pos r now') (mySsrc a) (ts a)"
    and inside: "0 \<le> p" "p + int frameSamples \<le> maxRecordSamples"
  shows "\<exists>addr packet r'. snd (tick now True a) = Some (addr, packet) \<and> Some addr = remote a \<and>
    rec (receive b now' packet src') = Some r' \<and> length (current_frame a) = frameSamples \<and>
    (\<forall>i < frameSamples. near (current_frame a ! i) (sound (samples (rx r')) (nat p + i)))"
proof -
  from link have send: "can_send a" "hasCodec a" by (auto simp: audio_link_def can_send_def)
  from wf have src: "source_ok a" and known: "known_codec (codec a)"
    using send(2) by (auto simp: wf_stream_def source_ok_def)
  let ?f = "map (encode (codec a)) (current_frame a)"
  have len: "length (current_frame a) = frameSamples"
    using frame_in_source(2) [OF src send(2)] source_frame [OF src send(2)] by (metis length_map)
  have pkt: "snd (tick now True a) = Some (the (remote a), header a (PT (codec a)) (marker a) (ts a) @ ?f)"
    using tick_audio(1) [OF send(1)] source_frame [OF src send(2)] idle by simp
  have "Some (the (remote a)) = remote a" using send(1) by (auto simp: can_send_def)
  with pkt len show ?thesis
    using place_near [OF known, where xs = "current_frame a"] inside
    by (auto simp: receive_audio [OF link] audioFrame_rec rec put_placed p)
qed

section \<open>Digits\<close>

text \<open>One tick of \<open>a\<close>; the flag says whether its packet reaches \<open>b\<close>.\<close>

fun link_step :: "udp_addr \<Rightarrow> time \<times> bool \<Rightarrow> Stream \<times> Stream \<Rightarrow> Stream \<times> Stream" where
  "link_step from' (now, arrives) (a, b) =
     (let (a', out) = tick now True a
      in (a', case out of None \<Rightarrow> b
          | Some (_, packet) \<Rightarrow> if arrives then receive b now packet from' else b))"

definition link_run :: "udp_addr \<Rightarrow> (time \<times> bool) list \<Rightarrow> Stream \<times> Stream \<Rightarrow> Stream \<times> Stream" where
  "link_run from' = fold (link_step from')"

definition arrived :: "(time \<times> bool) list \<Rightarrow> bool" where
  "arrived fl \<longleftrightarrow> (\<exists>x \<in> set fl. snd x)"

lemma link_step_eq:
  "link_step from' f (a, b) =
     (fst (tick (fst f) True a),
      case snd (tick (fst f) True a) of None \<Rightarrow> b
      | Some (_, packet) \<Rightarrow> if snd f then receive b (fst f) packet from' else b)"
  by (cases f) (simp split: prod.splits option.splits)

lemma audio_link_step:
  assumes "audio_link a b"
  shows "audio_link (fst (link_step from' f (a, b))) (snd (link_step from' f (a, b)))"
  using assms by (simp add: link_step_eq audio_link_def tick_fields split: option.splits)

text \<open>Jobs whose pause is over are skipped.\<close>

definition finished :: "dtmfJob \<Rightarrow> bool" where
  "finished j \<longleftrightarrow> jobSent j \<ge> packets j \<and> ended j \<ge> 3 \<and> gap j = 0"

definition pending :: "dtmfJob list \<Rightarrow> dtmfJob list" where
  "pending q = dropWhile finished q"

lemma nextDTMF_pending: "nextDTMF (pending q) = nextDTMF q"
  by (induction q) (auto simp: pending_def finished_def)

definition job_active :: "dtmfJob \<Rightarrow> bool" where
  "job_active j \<longleftrightarrow> jobSent j < packets j \<or> ended j < 3"

lemma nextDTMF_active: "pending q = j # r \<Longrightarrow> job_active j \<Longrightarrow> nextDTMF q = (Some j, j # r)"
  by (metis job_active_def nextDTMF.simps(2) nextDTMF_pending)

lemma nextDTMF_gap:
  "pending q = j # r \<Longrightarrow> \<not> job_active j \<Longrightarrow> 0 < gap j \<Longrightarrow> nextDTMF q = (None, j\<lparr>gap := gap j - 1\<rparr> # r)"
  by (metis job_active_def nextDTMF.simps(2) nextDTMF_pending)

lemma receive_event:
  assumes "audio_link a b" "e \<le> 15"
  shows "haveEv (receive b now (header a (word_of_int (remoteDTMF a)) m t @ [e, v] @ put16be d) src')"
    and "lastEvTS (receive b now (header a (word_of_int (remoteDTMF a)) m t @ [e, v] @ put16be d) src') = t"
    and "digits (receive b now (header a (word_of_int (remoteDTMF a)) m t @ [e, v] @ put16be d) src') =
      (if haveEv b \<and> t = lastEvTS b then digits b else digits b @ [''0123456789*#ABCD'' ! unat e])"
proof -
  have pt: "rtp_pt (word_of_int (remoteDTMF a))" "uint (word_of_int (remoteDTMF a) :: byte) = remoteDTMF b" "0 \<le> remoteDTMF b"
    "\<not> closed b" using assms(1) by (auto simp: audio_link_def uint_word_of_int)
  let ?p = "\<lparr>rtpPT = word_of_int (remoteDTMF a), rtpSeq = seq a, rtpTs = t, rtpSsrc = mySsrc a,
    rtpPayload = [e, v] @ put16be d\<rparr>"
  have recv: "receive b now (header a (word_of_int (remoteDTMF a)) m t @ [e, v] @ put16be d) src' =
      receiveDTMF (accepted b ?p src') ([e, v] @ put16be d) t"
    using receive_accepted [OF parse_header [OF pt(1)] pt(4)] pt(2,3) by (simp add: dispatch_def)
  have "\<not> length ([e, v] @ put16be d) < 4" "\<not> e > 15" using assms(2) by simp_all
  then show "haveEv (receive b now (header a (word_of_int (remoteDTMF a)) m t @ [e, v] @ put16be d) src')"
    "lastEvTS (receive b now (header a (word_of_int (remoteDTMF a)) m t @ [e, v] @ put16be d) src') = t"
    "digits (receive b now (header a (word_of_int (remoteDTMF a)) m t @ [e, v] @ put16be d) src') =
      (if haveEv b \<and> t = lastEvTS b then digits b else digits b @ [''0123456789*#ABCD'' ! unat e])"
    unfolding recv by (simp_all add: receiveDTMF_def)
qed

text \<open>What the receiver knows: the digits, and the timestamp of the last event.\<close>

definition heard_event :: "Stream \<Rightarrow> u32 \<Rightarrow> bool" where
  "heard_event b t \<longleftrightarrow> haveEv b \<and> lastEvTS b = t"

lemma link_step_event:
  assumes link: "audio_link a b" and q: "pending (dtmfQ a) = j # r" "job_active j" "event j \<le> 15"
    and t_def: "t = jobTs (stamped j (ts a))" and ab_def: "ab = link_step from' f (a, b)"
  shows "dtmfQ (fst ab) = dtmf_advance (stamped j (ts a)) # r" and "ts (fst ab) = ts a + 160"
    and "heard_event (snd ab) t \<longleftrightarrow> snd f \<or> heard_event b t"
    and "digits (snd ab) = (if snd f \<and> \<not> heard_event b t then digits b @ [''0123456789*#ABCD'' ! unat (event j)] else digits b)"
proof -
  have send: "can_send a" using link by (simp add: audio_link_def)
  note nx = nextDTMF_active [OF q(1,2)]
  have ev: "dtmf_payload (stamped j x) = [event j, (if dtmf_end j then 10 OR 0x80 else 10)] @
      put16be (word_of_nat (min (jobSent j + 1) (packets j) * frameSamples))" for x
    by (simp add: dtmf_payload_def stamped_def dtmf_end_def)
  have tk: "fst (tick (fst f) True a) = a\<lparr>ts := ts a + 160, dtmfQ := dtmf_advance (stamped j (ts a)) # r, seq := seq a + 1,
        sent := sent a + 1\<rparr>"
    "snd (tick (fst f) True a) = Some (the (remote a),
      header a (word_of_int (remoteDTMF a)) (jobSent j = 0 \<and> \<not> dtmf_end j) t @ dtmf_payload (stamped j (ts a)))"
    using nx by (simp_all add: tick_sends [OF send] tick_packet_event t_def header_def)
  show "dtmfQ (fst ab) = dtmf_advance (stamped j (ts a)) # r" "ts (fst ab) = ts a + 160"
    by (simp_all add: ab_def link_step_eq tk(1))
  note rcv = receive_event [OF link q(3), unfolded append.simps]
  show "heard_event (snd ab) t \<longleftrightarrow> snd f \<or> heard_event b t"
    "digits (snd ab) = (if snd f \<and> \<not> heard_event b t then digits b @ [''0123456789*#ABCD'' ! unat (event j)] else digits b)"
    unfolding ab_def link_step_eq tk(2) ev heard_event_def by (auto simp: rcv)
qed

lemma link_step_gap:
  assumes link: "audio_link a b" and q: "pending (dtmfQ a) = j # r" "\<not> job_active j" "0 < gap j"
    and ab_def: "ab = link_step from' f (a, b)"
  shows "dtmfQ (fst ab) = j\<lparr>gap := gap j - 1\<rparr> # r" and "ts (fst ab) = ts a + 160"
    and "heard_event (snd ab) t = heard_event b t" and "digits (snd ab) = digits b"
proof -
  have send: "can_send a" using link by (simp add: audio_link_def)
  note tk = tick_audio(1,2) [OF send nextDTMF_gap [OF q]]
  show "dtmfQ (fst ab) = j\<lparr>gap := gap j - 1\<rparr> # r" "ts (fst ab) = ts a + 160"
    by (simp_all add: ab_def link_step_eq tk tick_fields)
  show "heard_event (snd ab) t = heard_event b t" "digits (snd ab) = digits b"
    by (simp_all add: ab_def link_step_eq tk receive_audio [OF link] heard_event_def)
qed

text \<open>A run of ticks, one flag each.\<close>

lemma link_run_simps [simp]:
  "link_run from' [] ab = ab" "link_run from' (f # fs) ab = link_run from' fs (link_step from' f ab)"
  "link_run from' (fs @ gs) ab = link_run from' gs (link_run from' fs ab)"
  by (simp_all add: link_run_def)

lemma audio_link_run:
  "audio_link a b \<Longrightarrow> audio_link (fst (link_run from' fs (a, b))) (snd (link_run from' fs (a, b)))"
proof (induction fs arbitrary: a b)
  case (Cons f fs)
  from Cons.IH [OF audio_link_step [OF Cons.prems]] show ?case by simp
qed simp

definition job_ticks :: "dtmfJob \<Rightarrow> nat" where
  "job_ticks j = (packets j - jobSent j) + (3 - ended j)"

lemma advance_ticks:
  assumes "job_ok j" "job_active j"
  shows "job_ok (dtmf_advance (stamped j t))" "job_ticks j = Suc (job_ticks (dtmf_advance (stamped j t)))"
    "event (dtmf_advance (stamped j t)) = event j" "gap (dtmf_advance (stamped j t)) = gap j"
    "packets (dtmf_advance (stamped j t)) = packets j"
    "jobTs (stamped (dtmf_advance (stamped j t)) u) = jobTs (stamped j t)"
  using assms by (auto simp: job_ok_def job_active_def job_ticks_def dtmf_advance_def dtmf_end_def stamped_def)

lemma pending_Cons: "\<not> finished j \<Longrightarrow> pending (j # r) = j # r"
  by (simp add: pending_def)

text \<open>The packets of one event: the digit is appended when the first of them arrives.\<close>

lemma link_event:
  assumes "length fs = job_ticks j" "job_ok j" "0 < gap j" "audio_link a b" "pending (dtmfQ a) = j # r"
    and "t = jobTs (stamped j (ts a))" and ab_def: "ab = link_run from' fs (a, b)"
  shows "(\<exists>j'. pending (dtmfQ (fst ab)) = j' # r \<and> \<not> job_active j' \<and> gap j' = gap j) \<and>
    ts (fst ab) = ts a + 160 * of_nat (length fs) \<and>
    (heard_event (snd ab) t \<longleftrightarrow> arrived fs \<or> heard_event b t) \<and>
    digits (snd ab) = (if arrived fs \<and> \<not> heard_event b t
      then digits b @ [''0123456789*#ABCD'' ! unat (event j)] else digits b)"
  using assms(1-6) unfolding ab_def
proof (induction fs arbitrary: a b j t)
  case Nil
  then show ?case by (auto simp: job_ticks_def job_active_def arrived_def)
next
  case (Cons f fs)
  have act: "job_active j" using Cons.prems(1) by (auto simp: job_active_def job_ticks_def)
  have ev: "event j \<le> 15" using Cons.prems(2) by (simp add: job_ok_def)
  obtain a1 b1 where ab1: "link_step from' f (a, b) = (a1, b1)" by fastforce
  note st = link_step_event [OF Cons.prems(4,5) act ev Cons.prems(6) ab1 [symmetric], unfolded fst_conv snd_conv]
  let ?j = "dtmf_advance (stamped j (ts a))"
  note adv = advance_ticks [OF Cons.prems(2) act, of "ts a"]
  have len: "length fs = job_ticks ?j" using Cons.prems(1) adv(2) by simp
  have "\<not> finished ?j" using Cons.prems(3) adv(4) by (simp add: finished_def)
  then have q1: "pending (dtmfQ a1) = ?j # r" by (simp add: st(1) pending_Cons)
  have "audio_link a1 b1" using audio_link_step [OF Cons.prems(4), of from' f] by (simp add: ab1)
  note ih = Cons.IH [OF len adv(1) _ this q1, of t, unfolded adv(3,4,6)]
  then show ?case
    using Cons.prems(1,3,6) adv(2) st(2-4) by (auto simp: ab1 arrived_def algebra_simps)
qed

text \<open>The pause after it.\<close>

lemma link_pause:
  assumes "length fs = gap j" "\<not> job_active j" "audio_link a b" "pending (dtmfQ a) = pending (j # r)"
    and ab_def: "ab = link_run from' fs (a, b)"
  shows "pending (dtmfQ (fst ab)) = pending r \<and> ts (fst ab) = ts a + 160 * of_nat (length fs) \<and>
    (\<forall>t. heard_event (snd ab) t = heard_event b t) \<and> digits (snd ab) = digits b"
  using assms(1-4) unfolding ab_def
proof (induction fs arbitrary: a b j)
  case Nil
  then show ?case by (auto simp: pending_def finished_def job_active_def)
next
  case (Cons f fs)
  obtain a1 b1 where ab1: "link_step from' f (a, b) = (a1, b1)" by fastforce
  have "pending (j # r) = j # r" using Cons.prems(1) by (intro pending_Cons) (auto simp: finished_def)
  with Cons.prems have q: "pending (dtmfQ a) = j # r" "0 < gap j" by auto
  note st = link_step_gap [OF Cons.prems(3) q(1) Cons.prems(2) q(2) ab1 [symmetric], unfolded fst_conv snd_conv]
  have "audio_link a1 b1" using audio_link_step [OF Cons.prems(3), of from' f] by (simp add: ab1)
  from Cons.IH [OF _ _ this, of "j\<lparr>gap := gap j - 1\<rparr>"] Cons.prems(1,2) show ?case
    by (auto simp: ab1 st job_active_def)
qed

section \<open>A whole string of digits\<close>

text \<open>
  The ticks of one digit of \<open>n\<close> packets: \<open>n\<close> updates and three end packets, of which
  at least one gets through, then the pause.
\<close>

definition digit_ticks :: "nat \<Rightarrow> (time \<times> bool) list \<Rightarrow> bool" where
  "digit_ticks n fs \<longleftrightarrow> length fs = n + 6 \<and> arrived (take (n + 3) fs)"

lemma digit_job_fields [simp]:
  "packets (digit_job n c) = n" "gap (digit_job n c) = 3" "job_ticks (digit_job n c) = n + 3"
  "jobTs (stamped (digit_job n c) t) = t" "finished (digit_job n c) = False"
  by (simp_all add: digit_job_def job_ticks_def stamped_def finished_def)

lemma pending_jobs [simp]: "pending (map (digit_job n) ds) = map (digit_job n) ds"
  by (cases ds) (simp_all add: pending_def)

lemma link_digit:
  assumes "digit_ticks n fs" "1 \<le> n" "valid_digit c" "audio_link a b"
    and q: "pending (dtmfQ a) = digit_job n c # map (digit_job n) ds" and new: "\<not> heard_event b (ts a)"
    and ab_def: "ab = link_run from' fs (a, b)"
  shows "pending (dtmfQ (fst ab)) = map (digit_job n) ds" "ts (fst ab) = ts a + 160 * of_nat (n + 6)"
    and "heard_event (snd ab) (ts a)" "digits (snd ab) = digits b @ [c]"
proof -
  let ?j = "digit_job n c"
  let ?es = "take (n + 3) fs" and ?gs = "drop (n + 3) fs"
  obtain a1 b1 where ab1: "link_run from' ?es (a, b) = (a1, b1)" by fastforce
  have len: "length ?es = job_ticks ?j" "length ?gs = 3" "arrived ?es" using assms(1) by (simp_all add: digit_ticks_def)
  have ev: "''0123456789*#ABCD'' ! unat (event ?j) = c"
    using assms(3) by (auto simp: digit_job_def valid_digit_def dest: dtmf_event_char)
  have ab: "ab = link_run from' ?gs (a1, b1)"
    unfolding ab_def by (metis ab1 append_take_drop_id link_run_simps(3))
  note ev1 = link_event [OF len(1) digit_job_ok [OF assms(3,2)] _ assms(4) q _ ab1 [symmetric], of "ts a", unfolded ev fst_conv snd_conv]
  then obtain j' where j': "pending (dtmfQ a1) = j' # map (digit_job n) ds" "\<not> job_active j'" "gap j' = 3"
    and st: "ts a1 = ts a + 160 * of_nat (n + 3)" "heard_event b1 (ts a)" "digits b1 = digits b @ [c]"
    using len new by auto
  have "pending (j' # map (digit_job n) ds) = j' # map (digit_job n) ds"
    using j'(3) by (intro pending_Cons) (simp add: finished_def)
  then have pg: "length ?gs = gap j'" "pending (dtmfQ a1) = pending (j' # map (digit_job n) ds)"
    using len(2) j' by simp_all
  have "audio_link a1 b1" using audio_link_run [OF assms(4), of from' ?es] by (simp add: ab1)
  note ps = link_pause [OF pg(1) j'(2) this pg(2) ab]
  show "pending (dtmfQ (fst ab)) = map (digit_job n) ds" "ts (fst ab) = ts a + 160 * of_nat (n + 6)"
    "heard_event (snd ab) (ts a)" "digits (snd ab) = digits b @ [c]"
    using ps st len(2) by (simp_all add: algebra_simps)
qed

text \<open>A later digit never carries the timestamp of the one before.\<close>

lemma digit_gap_nonzero: "n < 2 ^ 24 \<Longrightarrow> (160 * of_nat (n + 6) :: u32) \<noteq> 0"
proof
  assume n: "n < 2 ^ 24" and "(160 * of_nat (n + 6) :: u32) = 0"
  then have "(of_nat (160 * (n + 6)) :: u32) = 0" by simp
  then have "2 ^ 32 dvd 160 * (n + 6)" by (simp only: word_of_nat_eq_0_iff) simp
  then show False using n by (auto dest!: dvd_imp_le)
qed

lemma link_digits:
  assumes "list_all (digit_ticks n) blocks" "length blocks = length ds" "list_all valid_digit ds"
    and "1 \<le> n" "n < 2 ^ 24" "audio_link a b" "pending (dtmfQ a) = map (digit_job n) ds" "\<not> heard_event b (ts a)"
  shows "digits (snd (link_run from' (concat blocks) (a, b))) = digits b @ ds"
  using assms(1-3) assms(6-8)
proof (induction blocks arbitrary: ds a b)
  case (Cons fs blocks)
  obtain c cs where ds: "ds = c # cs" using Cons.prems(2) by (cases ds) auto
  obtain a1 b1 where ab1: "link_run from' fs (a, b) = (a1, b1)" by fastforce
  have fs: "digit_ticks n fs" "valid_digit c" using Cons.prems(1,3) by (simp_all add: ds)
  note st = link_digit [OF fs(1) assms(4) fs(2) Cons.prems(4) _ Cons.prems(6) ab1 [symmetric], of cs, unfolded fst_conv snd_conv]
  have st: "pending (dtmfQ a1) = map (digit_job n) cs" "ts a1 = ts a + 160 * of_nat (n + 6)"
    "heard_event b1 (ts a)" "digits b1 = digits b @ [c]"
    using st Cons.prems(5) by (simp_all add: ds)
  have "\<not> heard_event b1 (ts a1)"
    using st(2,3) digit_gap_nonzero [OF assms(5)] by (auto simp: heard_event_def)
  moreover have "audio_link a1 b1" using audio_link_run [OF Cons.prems(4), of from' fs] by (simp add: ab1)
  ultimately have "digits (snd (link_run from' (concat blocks) (a1, b1))) = digits b1 @ cs"
    using Cons.prems(1-3) st(1) by (intro Cons.IH) (simp_all add: ds)
  then show ?case by (simp add: ab1 st ds)
qed simp

text \<open>C4: Digits end to end: the digits queued on an idle stream are, upper-cased and each exactly once,
  the digits the other end reports, whatever packets the network loses, as long as one packet of
  every event arrives (each is sent \<open>n + 3\<close> times, its end packet three times).\<close>

theorem dtmf_arrives:
  assumes "audio_link a b" "dtmfQ a = []" "\<not> haveEv b" "dur \<le> 24 * 3600 * 1000000000"
    and "SendDTMF a ds dur = Inr a'"
    and "list_all (digit_ticks (dtmf_packets dur)) blocks" "length blocks = length ds"
  shows "digits (snd (link_run from' (concat blocks) (a', b))) = digits b @ ToUpper ds"
proof -
  have n: "dtmf_packets dur < 2 ^ 24"
    using assms(4) by (auto simp: dtmf_packets_def Let_def)
  have a': "a' = a\<lparr>dtmfQ := map (digit_job (dtmf_packets dur)) (ToUpper ds)\<rparr>" "list_all valid_digit (ToUpper ds)"
    using assms(2,5) by (simp_all add: SendDTMF_cases split: if_splits)
  have "audio_link a' b" using assms(1) by (simp add: a'(1) audio_link_def can_send_def)
  moreover have "length (ToUpper ds) = length ds" by (simp add: ToUpper_def)
  ultimately show ?thesis
    using assms(3,7)
    by (intro link_digits [OF assms(6) _ a'(2) dtmf_packets_pos n]) (simp_all add: a'(1) heard_event_def)
qed

section \<open>Concrete links\<close>

definition demo_link :: Stream where
  "demo_link = setRemoteLocked ((demo_new ''10.0.0.2'' 5000 [])\<lparr>rec := Some (newRecorder 0)\<rparr>) demo_remote PCMU"

lemma demo_link_ready: "audio_link demo_link demo_link" "dtmfQ demo_link = []" "\<not> haveEv demo_link"
  by (simp_all add: demo_link_def audio_link_def can_send_def demo_remote_def set_addr_def IsUnspecified_def
      rtp_pt_def sends_def setRemoteLocked_def demo_new_def encoded_def Let_def split: option.splits)

lemma demo_link_rec: "rec demo_link = Some (newRecorder 0)"
  by (simp add: demo_link_def setRemoteLocked_def set_addr_def Let_def split: prod.splits option.splits)

lemma demo_link_wf: "wf_stream demo_link"
proof -
  have "wf_stream ((demo_new ''10.0.0.2'' 5000 [])\<lparr>rec := x\<rparr>) = wf_stream (demo_new ''10.0.0.2'' 5000 [])" for x
    by (rule wf_stream_cong) (simp_all add: source_ok_def)
  then show ?thesis
    unfolding demo_link_def
    by (intro setRemoteLocked_wf)
      (simp_all add: demo_new_wf demo_remote_def wf_remote_def)
qed

text \<open>The second frame of a recording whose first, sent 20 ms before, arrived at 20 ms.\<close>

definition demo_recording :: recorder where
  "demo_recording = (newRecorder 0)\<lparr>rx := \<lparr>init = True, ssrc = mySsrc demo_link, ts0 = ts demo_link - 160, off0 = 160, samples = []\<rparr>\<rparr>"

theorem audio_arrives_witness:
  "(\<exists>addr packet r'. snd (tick 0 True demo_link) = Some (addr, packet) \<and>
    rec (receive demo_link 20000000 packet \<lparr>IP = IPv4 1, Port = 9\<rparr>) = Some r' \<and>
    (\<forall>i < frameSamples. near (current_frame demo_link ! i) (sound (samples (rx r')) (160 + i)))) \<and>
   (\<exists>addr packet r'. snd (tick 0 True demo_link) = Some (addr, packet) \<and>
    rec (receive (demo_link\<lparr>rec := Some demo_recording\<rparr>) 75000000 packet \<lparr>IP = IPv4 1, Port = 9\<rparr>) = Some r' \<and>
    (\<forall>i < frameSamples. near (current_frame demo_link ! i) (sound (samples (rx r')) (320 + i))))"
proof
  have "at_pos (newRecorder 0) 20000000 = 160" by (simp add: at_pos_def newRecorder_def signed_divide_int_def)
  moreover have "\<not> init (rx (newRecorder 0))" by (simp add: newRecorder_def new_track_def)
  ultimately have p: "160 = put_place (rx (newRecorder 0)) (at_pos (newRecorder 0) 20000000) (mySsrc demo_link) (ts demo_link)"
    by (simp add: put_place_def)
  show "\<exists>addr packet r'. snd (tick 0 True demo_link) = Some (addr, packet) \<and>
    rec (receive demo_link 20000000 packet \<lparr>IP = IPv4 1, Port = 9\<rparr>) = Some r' \<and>
    (\<forall>i < frameSamples. near (current_frame demo_link ! i) (sound (samples (rx r')) (160 + i)))"
    using audio_arrives [OF demo_link_wf demo_link_ready(1,2) demo_link_rec p, of 0 "\<lparr>IP = IPv4 1, Port = 9\<rparr>"]
    by (simp add: maxRecordSamples_def) blast
next
  have p: "320 = put_place (rx demo_recording) (at_pos demo_recording 75000000) (mySsrc demo_link) (ts demo_link)"
    by (simp add: put_place_def demo_recording_def)
  have link: "audio_link demo_link (demo_link\<lparr>rec := Some demo_recording\<rparr>)"
    using demo_link_ready(1) by (simp add: audio_link_def)
  show "\<exists>addr packet r'. snd (tick 0 True demo_link) = Some (addr, packet) \<and>
    rec (receive (demo_link\<lparr>rec := Some demo_recording\<rparr>) 75000000 packet \<lparr>IP = IPv4 1, Port = 9\<rparr>) = Some r' \<and>
    (\<forall>i < frameSamples. near (current_frame demo_link ! i) (sound (samples (rx r')) (320 + i)))"
    using audio_arrives [OF demo_link_wf link demo_link_ready(2) _ p, of 0 "\<lparr>IP = IPv4 1, Port = 9\<rparr>"]
    by (simp add: maxRecordSamples_def) blast
qed

theorem dtmf_arrives_witness:
  "\<exists>a'. SendDTMF demo_link ''5a'' 20000000 = Inr a' \<and>
    digits (snd (link_run \<lparr>IP = IPv4 1, Port = 9\<rparr>
      ([(0, False), (20, True), (40, True), (60, False), (80, False), (100, True), (120, False)] @
       [(140, False), (160, False), (180, False), (200, True), (220, False), (240, True), (260, True)])
      (a', demo_link))) = ''5A''"
proof -
  let ?b1 = "[(0, False), (20, True), (40, True), (60, False), (80, False), (100, True), (120, False)] :: (time \<times> bool) list"
  let ?b2 = "[(140, False), (160, False), (180, False), (200, True), (220, False), (240, True), (260, True)] :: (time \<times> bool) list"
  have up: "ToUpper ''5a'' = ''5A''" by (simp add: ToUpper_def upper_def char_eval)
  have n: "dtmf_packets 20000000 = 1" by (simp add: dtmf_packets_def)
  obtain a' where a': "SendDTMF demo_link ''5a'' 20000000 = Inr a'"
    using demo_link_ready(1) by (simp add: SendDTMF_cases up valid_digit_def dtmfEvents_def audio_link_def)
  have "list_all (digit_ticks (dtmf_packets 20000000)) [?b1, ?b2]"
    by (simp add: n digit_ticks_def arrived_def)
  moreover have "digits demo_link = []" by (simp add: demo_link_def setRemoteLocked_def demo_new_def set_addr_def Let_def split: prod.splits option.splits)
  ultimately show ?thesis
    using dtmf_arrives [OF demo_link_ready _ a', of "[?b1, ?b2]" "\<lparr>IP = IPv4 1, Port = 9\<rparr>"] a' up by simp
qed

end
