(* ===== verification/Scheduler.thy ===== *)
theory Scheduler
  imports RtpSend RtpReceive
begin

text \<open>
  The shared sender, \<open>media/scheduler.go\<close>: shards of streams, each ticked every 20 ms from
  a published copy of its list. Streams are numbered; the world holds their states beside the
  scheduler, and its steps are the critical sections of the code: \<open>Start\<close> with \<open>add\<close>,
  the two halves of \<open>Close\<close> (the flag under the stream's lock, then \<open>remove\<close> under the
  shard's), a tick of one stream of a shard, a received packet and the negotiation operations.
\<close>

record shard =
  streams :: "nat list"
  published :: "nat list"    \<comment> \<open>the copy the ticker reads, \<open>list\<close>\<close>

record Scheduler =
  shards :: "shard list"
  nextShard :: u64

definition NewScheduler :: "int \<Rightarrow> nat \<Rightarrow> Scheduler" where
  "NewScheduler n procs =
     \<lparr>shards = replicate (if n \<le> 0 then procs else nat n) \<lparr>streams = [], published = []\<rparr>, nextShard = 0\<rparr>"

definition sched_add :: "Scheduler \<Rightarrow> nat \<Rightarrow> nat \<times> Scheduler" where
  "sched_add s st =
     (let n = nextShard s + 1; k = unat (n mod word_of_nat (length (shards s)));
          l = streams (shards s ! k) @ [st]
      in (k, \<lparr>shards = (shards s)[k := \<lparr>streams = l, published = l\<rparr>], nextShard = n\<rparr>))"

definition shard_remove :: "shard \<Rightarrow> nat \<Rightarrow> shard" where
  "shard_remove sh st = (let l = remove1 st (streams sh) in \<lparr>streams = l, published = l\<rparr>)"

definition sched_remove :: "Scheduler \<Rightarrow> nat \<Rightarrow> nat \<Rightarrow> Scheduler" where
  "sched_remove s k st = s\<lparr>shards := (shards s)[k := shard_remove (shards s ! k) st]\<rparr>"

record world =
  sched :: Scheduler
  stream_of :: "nat \<Rightarrow> Stream"
  removing :: "(nat \<times> nat) list"    \<comment> \<open>closed streams whose \<open>remove\<close> is still to run\<close>
  wire :: "(nat \<times> udp_addr \<times> byte list) list"    \<comment> \<open>what was sent, latest first\<close>

abbreviation set_stream :: "world \<Rightarrow> nat \<Rightarrow> Stream \<Rightarrow> world" where
  "set_stream w i s \<equiv> w\<lparr>stream_of := (stream_of w)(i := s)\<rparr>"

definition world_start :: "world \<Rightarrow> nat \<Rightarrow> world" where
  "world_start w i =
     (let s = stream_of w i
      in if started s \<or> closed s then w
         else (let (k, sc) = sched_add (sched w) i
               in (set_stream w i (Start (k, ()) s))\<lparr>sched := sc\<rparr>))"

definition world_close :: "world \<Rightarrow> nat \<Rightarrow> world" where
  "world_close w i =
     (let (s, st, sh) = Close (stream_of w i)
      in (set_stream w i s)\<lparr>removing := (case sh of None \<Rightarrow> removing w | Some k \<Rightarrow> (k, i) # removing w)\<rparr>)"

definition world_remove :: "world \<Rightarrow> nat \<times> nat \<Rightarrow> world" where
  "world_remove w r = w\<lparr>sched := sched_remove (sched w) (fst r) (snd r), removing := remove1 r (removing w)\<rparr>"

definition world_tick :: "world \<Rightarrow> time \<Rightarrow> bool \<Rightarrow> nat \<Rightarrow> world" where
  "world_tick w now written i =
     (let (s, out) = tick now written (stream_of w i)
      in (set_stream w i s)\<lparr>wire := (case out of None \<Rightarrow> wire w | Some (a, b) \<Rightarrow> (i, a, b) # wire w)\<rparr>)"

definition world_receive :: "world \<Rightarrow> time \<Rightarrow> byte list \<Rightarrow> udp_addr \<Rightarrow> nat \<Rightarrow> world" where
  "world_receive w now b a i = set_stream w i (receive (stream_of w i) now b a)"

inductive world_step :: "world \<Rightarrow> world \<Rightarrow> bool" where
  ws_start: "world_step w (world_start w i)"
| ws_close: "world_step w (world_close w i)"
| ws_remove: "r \<in> set (removing w) \<Longrightarrow> world_step w (world_remove w r)"
| ws_tick: "k < length (shards (sched w)) \<Longrightarrow> i \<in> set (published (shards (sched w) ! k)) \<Longrightarrow>
    world_step w (world_tick w now written i)"
| ws_stale_tick: "started (stream_of w i) \<Longrightarrow> closed (stream_of w i) \<Longrightarrow> world_step w (world_tick w now written i)"
| ws_receive: "world_step w (world_receive w now b a i)"
| ws_offer: "world_step w (set_stream w i (fst (Offer (stream_of w i) d)))"
| ws_answer: "wf_remote r \<Longrightarrow> Answer (stream_of w i) r = Inr (s, sdp) \<Longrightarrow> world_step w (set_stream w i s)"
| ws_apply: "wf_remote r \<Longrightarrow> ApplyAnswer (stream_of w i) r = Inr s \<Longrightarrow> world_step w (set_stream w i s)"
| ws_update: "wf_remote r \<Longrightarrow> world_step w (set_stream w i (fst (Update (stream_of w i) r)))"
| ws_direction: "world_step w (set_stream w i (SetDirection (stream_of w i) d))"
| ws_dtmf: "SendDTMF (stream_of w i) ds dur = Inr s \<Longrightarrow> world_step w (set_stream w i s)"

text \<open>A world of new streams.\<close>

definition fresh_stream :: "Stream \<Rightarrow> bool" where
  "fresh_stream s \<longleftrightarrow> wf_stream s \<and> \<not> started s \<and> \<not> closed s \<and> shard s = None"

definition world_init :: "world \<Rightarrow> bool" where
  "world_init w \<longleftrightarrow> (\<exists>n procs. 0 < procs \<and> procs < 2 ^ 16 \<and> n < 2 ^ 16 \<and> sched w = NewScheduler n procs) \<and>
     (\<forall>i. fresh_stream (stream_of w i)) \<and> removing w = [] \<and> wire w = []"

inductive reachable :: "world \<Rightarrow> world \<Rightarrow> bool" for w0 where
  reach_init: "reachable w0 w0"
| reach_step: "reachable w0 w \<Longrightarrow> world_step w w' \<Longrightarrow> reachable w0 w'"

section \<open>Where a stream is listed\<close>

text \<open>
  In every reachable world a stream that was started and is not yet removed is in the list of
  its own shard exactly once, and no other list has it; the published copies are current.
\<close>

definition listed_in :: "world \<Rightarrow> nat \<Rightarrow> nat \<Rightarrow> nat" where
  "listed_in w k i = count_list (streams (shards (sched w) ! k)) i"

definition sched_ok :: "world \<Rightarrow> bool" where
  "sched_ok w \<longleftrightarrow> 0 < length (shards (sched w)) \<and> length (shards (sched w)) < 2 ^ 16 \<and>
     (\<forall>k < length (shards (sched w)). published (shards (sched w) ! k) = streams (shards (sched w) ! k)) \<and>
     (\<forall>i. (started (stream_of w i) \<longleftrightarrow> shard (stream_of w i) \<noteq> None) \<and>
        (\<forall>k. shard (stream_of w i) = Some k \<longrightarrow> k < length (shards (sched w))) \<and>
        (\<forall>k < length (shards (sched w)). listed_in w k i =
           (if shard (stream_of w i) = Some k \<and> (\<not> closed (stream_of w i) \<or> (k, i) \<in> set (removing w)) then 1 else 0))) \<and>
     distinct (removing w) \<and>
     (\<forall>k i. (k, i) \<in> set (removing w) \<longrightarrow> shard (stream_of w i) = Some k \<and> closed (stream_of w i))"

text \<open>The part of a stream the scheduler's invariant depends on.\<close>

definition ctl :: "Stream \<Rightarrow> bool \<times> bool \<times> nat option" where
  "ctl s = (started s, closed s, shard s)"

lemma ctl_simps [simp]:
  "ctl (s\<lparr>dir := d\<rparr>) = ctl s" "ctl (s\<lparr>version := v\<rparr>) = ctl s" "ctl (s\<lparr>dtmfQ := q\<rparr>) = ctl s"
  "ctl (s\<lparr>ts := t\<rparr>) = ctl s" "ctl (s\<lparr>sent := n\<rparr>) = ctl s" "ctl (s\<lparr>marker := m\<rparr>) = ctl s"
  by (simp_all add: ctl_def)

lemma ctl_setRemote [simp]: "ctl (setRemoteLocked s r c) = ctl s" "ctl (set_addr s r) = ctl s"
  by (simp_all add: ctl_def setRemoteLocked_def set_addr_def Let_def split: prod.splits option.splits)

lemma ctl_negotiation:
  "ctl (fst (Offer s d)) = ctl s" "Answer s r = Inr (s', sdp) \<Longrightarrow> ctl s' = ctl s"
  "ApplyAnswer s r = Inr s' \<Longrightarrow> ctl s' = ctl s" "ctl (fst (Update s r)) = ctl s" "ctl (SetDirection s d) = ctl s"
  by (auto simp: Offer_def Answer_def ApplyAnswer_def Update_def SetDirection_def sdpLocked_def Let_def split: option.splits)

lemma ctl_dtmf: "SendDTMF s ds dur = Inr s' \<Longrightarrow> ctl s' = ctl s"
  by (auto simp: SendDTMF_cases split: if_splits)

lemma ctl_tick_packet: "ctl (fst (tick_packet now s t)) = ctl s"
  by (simp add: tick_packet_def ctl_def Let_def split: prod.splits option.splits)

lemma ctl_tick [simp]: "ctl (fst (tick now w s)) = ctl s"
proof (cases "can_send s")
  case True
  obtain s2 b where p: "tick_packet now (s\<lparr>ts := ts s + 160\<rparr>) (ts s) = (s2, b)" by fastforce
  with ctl_tick_packet [of now "s\<lparr>ts := ts s + 160\<rparr>" "ts s"] True show ?thesis
    by (simp add: tick_sends)
qed (simp add: tick_silent)

lemma ctl_receive [simp]: "ctl (receive s now b a) = ctl s"
  by (simp add: receive_def dispatch_def audioFrame_def receiveDTMF_def ctl_def Let_def split: option.splits)

lemma sched_ok_cong:
  "sched w' = sched w \<Longrightarrow> removing w' = removing w \<Longrightarrow> (\<And>i. ctl (stream_of w' i) = ctl (stream_of w i)) \<Longrightarrow>
   sched_ok w \<Longrightarrow> sched_ok w'"
  by (simp add: sched_ok_def listed_in_def ctl_def)

lemma sched_ok_frame: "sched_ok w \<Longrightarrow> ctl s = ctl (stream_of w i) \<Longrightarrow> sched_ok (set_stream w i s)"
  by (rule sched_ok_cong [of _ w]) auto

lemma shard_index:
  assumes "0 < length xs" "length xs < 2 ^ 16"
  shows "unat (n mod word_of_nat (length xs) :: u64) < length xs"
proof -
  have "unat (word_of_nat (length xs) :: u64) = length xs" using assms(2) by (simp add: unat_of_nat)
  then show ?thesis using assms(1) by (simp add: unat_mod_distrib)
qed

lemma sched_ok_start:
  assumes ok: "sched_ok w"
  shows "sched_ok (world_start w i)"
proof (cases "started (stream_of w i) \<or> closed (stream_of w i)")
  case False
  let ?k = "unat ((nextShard (sched w) + 1) mod word_of_nat (length (shards (sched w))))"
  have k: "?k < length (shards (sched w))" using ok by (intro shard_index) (simp_all add: sched_ok_def)
  have none: "shard (stream_of w i) = None" using False ok by (simp add: sched_ok_def)
  then have "(k, i) \<notin> set (removing w)" for k using ok by (auto simp: sched_ok_def)
  with False none k ok show ?thesis
    by (auto simp: sched_ok_def world_start_def Start_def sched_add_def Let_def listed_in_def nth_list_update)
qed (use ok in \<open>simp add: world_start_def\<close>)

lemma sched_ok_close:
  assumes ok: "sched_ok w"
  shows "sched_ok (world_close w i)"
proof (cases "closed (stream_of w i)")
  case False
  then have none: "(k, i) \<notin> set (removing w)" for k using ok by (auto simp: sched_ok_def)
  with False ok show ?thesis
    by (auto simp: sched_ok_def world_close_def Close_def Let_def listed_in_def split: option.splits)
next
  case True
  then show ?thesis using ok by (simp add: world_close_def Close_def sched_ok_def listed_in_def)
qed

lemma count_list_remove1: "count_list (remove1 x xs) y = (if x = y then count_list xs y - 1 else count_list xs y)"
  by (induction xs) auto

lemma sched_ok_remove:
  assumes ok: "sched_ok w" and r: "(k, i) \<in> set (removing w)"
  shows "sched_ok (world_remove w (k, i))"
proof -
  have i0: "shard (stream_of w i) = Some k" "closed (stream_of w i)"
    using ok r unfolding sched_ok_def by blast+
  then have i: "shard (stream_of w i) = Some k" "closed (stream_of w i)" "k < length (shards (sched w))"
    using ok unfolding sched_ok_def by blast+
  have d: "distinct (removing w)" using ok by (simp add: sched_ok_def)
  have cnt: "listed_in (world_remove w (k, i)) k' i' = (if k' = k \<and> i' = i then 0 else listed_in w k' i')"
    if "k' < length (shards (sched w))" for k' i'
    using ok i r that
    by (auto simp: sched_ok_def world_remove_def sched_remove_def shard_remove_def listed_in_def Let_def
        nth_list_update count_list_remove1)
  have rem: "set (removing (world_remove w (k, i))) = set (removing w) - {(k, i)}"
    using d by (simp add: world_remove_def)
  have pub: "published (shards (sched (world_remove w (k, i))) ! k') = streams (shards (sched (world_remove w (k, i))) ! k')"
    if "k' < length (shards (sched w))" for k'
    using ok that
    by (cases "k' = k") (auto simp: sched_ok_def world_remove_def sched_remove_def shard_remove_def Let_def)
  have same: "length (shards (sched (world_remove w (k, i)))) = length (shards (sched w))"
    "stream_of (world_remove w (k, i)) = stream_of w" "distinct (removing (world_remove w (k, i)))"
    using d by (simp_all add: world_remove_def sched_remove_def)
  show ?thesis
    using ok i unfolding sched_ok_def same(1,2) rem by (auto simp: cnt pub same(3))
qed

text \<open>The streams themselves stay well formed.\<close>

definition streams_ok :: "world \<Rightarrow> bool" where
  "streams_ok w \<longleftrightarrow> (\<forall>i. wf_stream (stream_of w i))"

lemma streams_ok_set: "streams_ok w \<Longrightarrow> wf_stream s \<Longrightarrow> streams_ok (set_stream w i s)"
  by (simp add: streams_ok_def)

lemma streams_ok_other [simp]:
  "streams_ok (w\<lparr>sched := x\<rparr>) = streams_ok w" "streams_ok (w\<lparr>removing := r\<rparr>) = streams_ok w"
  "streams_ok (w\<lparr>wire := v\<rparr>) = streams_ok w"
  by (simp_all add: streams_ok_def)

lemma SetDirection_wf: "wf_stream s \<Longrightarrow> wf_stream (SetDirection s d)"
  by (simp add: SetDirection_def)

lemma world_tick_ok:
  assumes "sched_ok w" "streams_ok w"
  shows "sched_ok (world_tick w now b i) \<and> streams_ok (world_tick w now b i)"
proof -
  obtain s out where t: "tick now b (stream_of w i) = (s, out)" by fastforce
  have s: "ctl s = ctl (stream_of w i)" "wf_stream s"
    using ctl_tick [of now b "stream_of w i"] tick_wf [of "stream_of w i" now b] assms(2)
    by (simp_all add: t streams_ok_def)
  have "sched_ok ((set_stream w i s)\<lparr>wire := v\<rparr>)" for v
    by (rule sched_ok_cong [OF _ _ _ sched_ok_frame [OF assms(1) s(1)]]) simp_all
  then show ?thesis
    using streams_ok_set [OF assms(2) s(2)] by (simp add: world_tick_def t)
qed

lemma world_step_ok:
  assumes "world_step w w'" "sched_ok w" "streams_ok w"
  shows "sched_ok w' \<and> streams_ok w'"
  using assms
proof cases
  case (ws_start i)
  have "streams_ok (world_start w i)"
    using assms(3) Start_Close_wf [of "stream_of w i" "(k, ())" for k] by (auto simp: world_start_def Let_def split: prod.splits intro!: streams_ok_set) (simp_all add: streams_ok_def)
  then show ?thesis using ws_start sched_ok_start [OF assms(2)] by simp
next
  case (ws_close i)
  have "streams_ok (world_close w i)"
    using assms(3) Start_Close_wf [of "stream_of w i" "(0, ())"]
    by (auto simp: world_close_def split: prod.splits intro!: streams_ok_set) (simp add: streams_ok_def)
  then show ?thesis using ws_close sched_ok_close [OF assms(2)] by simp
next
  case (ws_remove r)
  then show ?thesis using assms sched_ok_remove [OF assms(2), of "fst r" "snd r"] by (simp add: world_remove_def)
next
  case (ws_tick k i now written)
  then show ?thesis using world_tick_ok [OF assms(2,3)] by simp
next
  case (ws_stale_tick i now written)
  then show ?thesis using world_tick_ok [OF assms(2,3)] by simp
next
  case (ws_receive now b a i)
  then show ?thesis using assms(2,3) sched_ok_frame [OF assms(2)] streams_ok_set [OF assms(3)]
    by (simp add: world_receive_def receive_wf streams_ok_def)
qed (use assms(2,3) in \<open>auto intro!: sched_ok_frame streams_ok_set simp: ctl_negotiation ctl_dtmf intro: Offer_wf Answer_wf ApplyAnswer_wf Update_wf SetDirection_wf SendDTMF_wf simp: streams_ok_def\<close>)

lemma fresh_sched_ok: "world_init w \<Longrightarrow> sched_ok w \<and> streams_ok w"
  by (auto simp: world_init_def sched_ok_def streams_ok_def NewScheduler_def listed_in_def fresh_stream_def
      split: if_splits)

lemma reachable_ok: "reachable w0 w \<Longrightarrow> world_init w0 \<Longrightarrow> sched_ok w \<and> streams_ok w"
proof (induction rule: reachable.induct)
  case reach_init
  then show ?case by (rule fresh_sched_ok)
qed (blast dest: world_step_ok)

text \<open>C5: The scheduler sends for each started stream from exactly one shard, once per tick: in every
  reachable world the list a shard's ticker reads has a stream once if the stream is on that shard
  and its removal has not run, and not at all otherwise.\<close>

theorem scheduled_once:
  assumes "world_init w0" "reachable w0 w" "k < length (shards (sched w))"
  shows "count_list (published (shards (sched w) ! k)) i =
    (if shard (stream_of w i) = Some k \<and> (\<not> closed (stream_of w i) \<or> (k, i) \<in> set (removing w)) then 1 else 0)"
  using reachable_ok [OF assms(2,1)] assms(3) by (simp add: sched_ok_def listed_in_def)

text \<open>C6: In every reachable world no stream can have panicked: \<open>heardCh\<close> was closed exactly when
  five loud frames had arrived, never twice, and the frame a negotiated stream sends next lies
  inside its source.\<close>

theorem stream_never_panics:
  assumes "world_init w0" "reachable w0 w"
  shows "heardCloses (stream_of w i) = (if heard (stream_of w i) \<ge> heardFrames then 1 else 0) \<and>
    (hasCodec (stream_of w i) \<longrightarrow>
      src (stream_of w i) \<noteq> [] \<and> pos (stream_of w i) + frameSamples \<le> length (src (stream_of w i)))"
proof -
  have "wf_stream (stream_of w i)" using reachable_ok [OF assms(2,1)] by (simp add: streams_ok_def)
  then have "source_ok (stream_of w i)" "heard_ok (stream_of w i)" by (simp_all add: wf_stream_def)
  with frame_in_source(1) [of "stream_of w i"] show ?thesis
    by (auto simp: heard_ok_def)
qed

section \<open>After the close\<close>

definition sent_by :: "world \<Rightarrow> nat \<Rightarrow> (udp_addr \<times> byte list) list" where
  "sent_by w i = map snd (filter (\<lambda>x. fst x = i) (wire w))"

lemma closed_ctl: "ctl s = ctl s' \<Longrightarrow> closed s = closed s'"
  by (simp add: ctl_def)

lemma set_stream_closed:
  "closed (stream_of w i) \<Longrightarrow> ctl s = ctl (stream_of w j) \<Longrightarrow>
   closed (stream_of (set_stream w j s) i) \<and> sent_by (set_stream w j s) i = sent_by w i"
  by (auto simp: sent_by_def ctl_def)

lemma world_tick_closed:
  assumes "closed (stream_of w i)"
  shows "closed (stream_of (world_tick w now b j) i) \<and> sent_by (world_tick w now b j) i = sent_by w i"
proof (cases "j = i")
  case True
  have "\<not> can_send (stream_of w i)" using assms by (simp add: can_send_def)
  with True assms show ?thesis by (simp add: world_tick_def tick_silent sent_by_def)
next
  case False
  then show ?thesis using assms by (simp add: world_tick_def sent_by_def split: prod.splits option.splits)
qed

lemma closed_step:
  assumes "world_step w w'" "closed (stream_of w i)"
  shows "closed (stream_of w' i) \<and> sent_by w' i = sent_by w i"
  using assms
proof cases
  case (ws_start j)
  then show ?thesis using assms(2) by (auto simp: world_start_def Start_def sent_by_def Let_def split: prod.splits)
next
  case (ws_close j)
  then show ?thesis using assms(2) by (auto simp: world_close_def Close_def sent_by_def Let_def split: prod.splits)
next
  case (ws_remove r)
  then show ?thesis using assms(2) by (simp add: world_remove_def sent_by_def)
next
  case (ws_tick k j now written)
  then show ?thesis using world_tick_closed [OF assms(2)] by simp
next
  case (ws_stale_tick j now written)
  then show ?thesis using world_tick_closed [OF assms(2)] by simp
next
  case (ws_receive now b a j)
  then show ?thesis using assms(2) by (auto simp: world_receive_def sent_by_def)
qed (use set_stream_closed [OF assms(2)] in \<open>simp_all add: ctl_negotiation ctl_dtmf\<close>)

text \<open>C7: Closing a stream is final: whatever happens afterwards, ticks of a stale list included, it stays
  closed and not one more packet of it goes out.\<close>

theorem silent_after_close:
  assumes "closed (stream_of w i)" "reachable w w'"
  shows "closed (stream_of w' i) \<and> sent_by w' i = sent_by w i"
  using assms(2) by induction (use assms(1) closed_step in auto)

section \<open>A concrete world\<close>

definition demo_world :: world where
  "demo_world = \<lparr>sched = NewScheduler 0 2, stream_of = (\<lambda>_. demo_new ''10.0.0.1'' 4000 []), removing = [], wire = []\<rparr>"

lemma demo_world_init: "world_init demo_world"
proof -
  have "fresh_stream (demo_new ip p cs)" for ip p cs
    using demo_new_wf [of ip p cs] by (simp add: fresh_stream_def demo_new_def) (simp add: New_def Let_def)
  then show ?thesis
    unfolding world_init_def demo_world_def
    by (intro conjI exI [where x = "0 :: int"] exI [where x = "2 :: nat"]) simp_all
qed

lemma demo_started: "reachable demo_world (world_start demo_world 3)"
  by (rule reach_step [OF reach_init ws_start])

lemma demo_closed: "reachable demo_world (world_close (world_start demo_world 3) 3)"
  by (rule reach_step [OF demo_started ws_close])

lemma demo_stream: "\<not> started (demo_new ''10.0.0.1'' 4000 [])" "\<not> closed (demo_new ''10.0.0.1'' 4000 [])"
  by (simp_all add: demo_new_def)

theorem scheduled_once_witness:
  "count_list (published (shards (sched (world_start demo_world 3)) ! 1)) 3 = 1"
  using scheduled_once [OF demo_world_init demo_started, of 1 3]
  by (simp add: world_start_def demo_world_def demo_stream NewScheduler_def sched_add_def Start_def Let_def)

theorem stream_never_panics_witness:
  "heardCloses (stream_of (world_start demo_world 3) 3) = 0"
  using stream_never_panics [OF demo_world_init demo_started, of 3]
  by (simp add: world_start_def demo_world_def demo_stream Start_def Let_def demo_new_def split: prod.splits)

theorem silent_after_close_witness:
  "sent_by (world_tick (world_close (world_start demo_world 3) 3) 0 True 3) 3 = []"
proof -
  let ?w = "world_close (world_start demo_world 3) 3"
  have c: "closed (stream_of ?w 3)" "started (stream_of ?w 3)" "sent_by ?w 3 = []"
    by (simp_all add: world_close_def Close_def world_start_def demo_world_def demo_stream Start_def Let_def
        sent_by_def split: prod.splits)
  show ?thesis
    using silent_after_close [OF c(1) reach_step [OF reach_init ws_stale_tick [OF c(2,1)]]] c(3) by simp
qed

end
