(* ===== verification/Calls.thy ===== *)
theory Calls
  imports RtpLink
begin

text \<open>
  One leg of a call, \<open>engine/call.go\<close> with the recording rules of \<open>engine/callmedia.go\<close>
  and the timer of \<open>engine/timers.go\<close>: the states, the channels that wake waiters, and the
  critical sections (what runs under \<open>c.mu\<close>) as functions on the call. The machine at the
  end interleaves them in every order the threads of the engine could: the INVITE transaction,
  the handlers of the peer's requests, the script and the timers. A channel is the number of
  times it was closed, since a second close panics. Points in time are nanoseconds; a zero
  \<open>time.Time\<close> is \<open>None\<close>.
\<close>

section \<open>States\<close>

datatype CallDirection = Outgoing | Incoming

datatype State = StateCalling | StateRinging | StateConnected | StateEnded

datatype EndedBy = NoEnd | EndedByLocal | EndedByRemote | EndedByTimeout | EndedByError

fun state_rank :: "State \<Rightarrow> nat" where
  "state_rank StateCalling = 0"
| "state_rank StateRinging = 1"
| "state_rank StateConnected = 2"
| "state_rank StateEnded = 3"

lemma state_rank_inject [simp]: "state_rank a = state_rank b \<longleftrightarrow> a = b"
  by (cases a; cases b) simp_all

instantiation State :: linorder
begin

definition less_eq_State :: "State \<Rightarrow> State \<Rightarrow> bool" where
  "less_eq_State a b \<longleftrightarrow> state_rank a \<le> state_rank b"

definition less_State :: "State \<Rightarrow> State \<Rightarrow> bool" where
  "less_State a b \<longleftrightarrow> state_rank a < state_rank b"

instance
  by standard (auto simp: less_eq_State_def less_State_def)

end

lemma state_order [simp]:
  "StateRinging \<le> s \<longleftrightarrow> s \<noteq> StateCalling" "s < StateRinging \<longleftrightarrow> s = StateCalling"
  "StateConnected \<le> s \<longleftrightarrow> s = StateConnected \<or> s = StateEnded"
  "s < StateConnected \<longleftrightarrow> s = StateCalling \<or> s = StateRinging"
  "StateEnded \<le> s \<longleftrightarrow> s = StateEnded" "s \<le> StateEnded" "StateCalling \<le> s" "(s \<le> StateCalling) = (s = StateCalling)"
  by (cases s; simp add: less_eq_State_def less_State_def)+

section \<open>The call\<close>

datatype RecordMode = RecordOff | RecordAlways | RecordOnFailure

record sessionTimer =
  expires :: duration
  refresher :: bool            \<comment> \<open>we refresh\<close>
  armed :: "duration option"   \<comment> \<open>the delay of the pending timer\<close>

record decision =
  code :: int
  why :: string

record transferProgress =
  xferStatus :: int            \<comment> \<open>last sipfrag status\<close>
  xferCloses :: nat            \<comment> \<open>closes of \<open>done\<close>, guarded by \<open>once\<close>\<close>

record Call =
  cdir :: CallDirection
  callID :: string
  callee :: string             \<comment> \<open>\<open>remote\<close>: callee target (out) or caller number (in)\<close>
  media :: "Stream option"
  recMode :: RecordMode
  recDir :: string
  pendingDecision :: "decision option"   \<comment> \<open>the buffer of the channel \<open>decision\<close>\<close>
  cancelCloses :: nat          \<comment> \<open>closes of \<open>cancelReq\<close>, guarded by \<open>cancelOnce\<close>\<close>
  prackCloses :: nat
  sess :: "sessionTimer option"
  xfer :: "transferProgress option"
  state :: State
  localHold :: bool
  remoteHold :: bool
  byeBy :: EndedBy
  byeReason :: string
  status :: int
  reason :: string
  endedBy :: EndedBy
  tStart :: time
  tRing :: "time option"
  tAnswer :: "time option"
  tEnd :: "time option"
  failed :: bool               \<comment> \<open>a check on this call failed\<close>
  saved :: bool
  ringingCloses :: nat
  connectedCloses :: nat
  doneCloses :: nat

definition newCall :: "CallDirection \<Rightarrow> time \<Rightarrow> Call" where
  "newCall d now =
     \<lparr>cdir = d, callID = [], callee = [], media = None, recMode = RecordOff, recDir = [],
      pendingDecision = None, cancelCloses = 0, prackCloses = 0, sess = None, xfer = None,
      state = StateCalling, localHold = False, remoteHold = False, byeBy = NoEnd, byeReason = [],
      status = 0, reason = [], endedBy = NoEnd, tStart = now, tRing = None, tAnswer = None, tEnd = None,
      failed = False, saved = False, ringingCloses = 0, connectedCloses = 0, doneCloses = 0\<rparr>"

record Completion =
  compBy :: EndedBy
  compStatus :: int
  compReason :: string
  compDuration :: duration     \<comment> \<open>talk time; 0 if never connected\<close>

definition completion :: "Call \<Rightarrow> Completion option" where
  "completion c =
     (if state c \<noteq> StateEnded then None
      else Some \<lparr>compBy = endedBy c, compStatus = status c, compReason = reason c,
        compDuration = (case (tAnswer c, tEnd c) of (Some a, Some e) \<Rightarrow> e - a | _ \<Rightarrow> 0)\<rparr>)"

definition markRinging :: "time \<Rightarrow> Call \<Rightarrow> Call" where
  "markRinging t c =
     (if state c \<ge> StateRinging then c
      else c\<lparr>state := StateRinging, tRing := Some t, ringingCloses := ringingCloses c + 1\<rparr>)"

definition markConnected :: "time \<Rightarrow> Call \<Rightarrow> Call" where
  "markConnected t c =
     (if state c \<ge> StateConnected then c
      else c\<lparr>ringingCloses := (if state c < StateRinging then ringingCloses c + 1 else ringingCloses c),
             state := StateConnected, status := 200, tAnswer := Some t,
             connectedCloses := connectedCloses c + 1\<rparr>)"

text \<open>What the thread that ends the call carries from the lock into the rest of \<open>finish\<close>.\<close>

record finishing =
  finBy :: EndedBy
  wasConnected :: bool
  finDuration :: duration

abbreviation max_duration :: duration where "max_duration \<equiv> 9223372036854775807"

definition finish_lock :: "EndedBy \<Rightarrow> int \<Rightarrow> string \<Rightarrow> time \<Rightarrow> Call \<Rightarrow> Call \<times> finishing option" where
  "finish_lock by' st why' now c =
     (if state c = StateEnded then (c, None)
      else let was = (state c = StateConnected)
        in (c\<lparr>ringingCloses := (if state c < StateRinging then ringingCloses c + 1 else ringingCloses c),
              state := StateEnded, endedBy := by',
              status := (if st \<noteq> 0 \<and> \<not> was then st else status c),
              reason := why', tEnd := Some now\<rparr>,
            Some \<lparr>finBy = by', wasConnected = was,
              finDuration = (case tAnswer c of Some a \<Rightarrow> now - a | None \<Rightarrow> max_duration)\<rparr>))"

definition stopSession :: "Call \<Rightarrow> Call" where
  "stopSession c = c\<lparr>sess := map_option (\<lambda>s. s\<lparr>armed := None\<rparr>) (sess c)\<rparr>"

text \<open>Restarting the timer after any successful refresh.\<close>

definition sessionRefreshed :: "Call \<Rightarrow> Call" where
  "sessionRefreshed c =
     (case sess c of None \<Rightarrow> c
      | Some s \<Rightarrow>
          if state c = StateEnded then c
          else c\<lparr>sess := Some (s\<lparr>armed := Some
            (if refresher s then expires s div 2
             else expires s - min (32 * 1000000000) (expires s div 3))\<rparr>)\<rparr>)"

text \<open>\<open>startSession\<close>: one section sets the timer's parameters, the next arms it.\<close>

definition set_session :: "duration \<Rightarrow> bool \<Rightarrow> Call \<Rightarrow> Call" where
  "set_session e weRefresh c =
     (if e \<le> 0 then c else c\<lparr>sess := Some \<lparr>expires = e, refresher = weRefresh, armed = None\<rparr>\<rparr>)"

definition decide :: "decision \<Rightarrow> Call \<Rightarrow> Call \<times> bool" where
  "decide d c =
     (if cdir c \<noteq> Incoming \<or> state c \<ge> StateConnected then (c, False)
      else case pendingDecision c of None \<Rightarrow> (c\<lparr>pendingDecision := Some d\<rparr>, True) | Some _ \<Rightarrow> (c, False))"

definition Accept :: "Call \<Rightarrow> Call \<times> bool" where
  "Accept c = decide \<lparr>code = 200, why = ''OK''\<rparr> c"

definition Reject :: "int \<Rightarrow> string \<Rightarrow> Call \<Rightarrow> Call \<times> bool" where
  "Reject n r c =
     (let (n1, r1) = (if n < 300 \<or> n > 699 then (603, ''Decline'') else (n, r));
          r2 = (if r1 = [] then ''Rejected'' else r1)
      in decide \<lparr>code = n1, why = r2\<rparr> c)"

definition requestCancel :: "EndedBy \<Rightarrow> Call \<Rightarrow> Call" where
  "requestCancel by' c =
     (if cancelCloses c > 0 then c else c\<lparr>endedBy := by', cancelCloses := cancelCloses c + 1\<rparr>)"

definition cancelledBy :: "Call \<Rightarrow> EndedBy" where
  "cancelledBy c = (if endedBy c = NoEnd then EndedByTimeout else endedBy c)"

text \<open>The part of \<open>bye\<close> after the BYE transaction: what \<open>finish\<close> is called with.\<close>

definition bye_reason :: "Call \<Rightarrow> EndedBy \<times> string" where
  "bye_reason c = (if byeBy c = NoEnd then (EndedByLocal, ''BYE'') else (byeBy c, byeReason c))"

text \<open>The channels a waiter sees at the moment it looks; the order of the checks is the code's.\<close>

definition ExpectRinging :: "Call \<Rightarrow> bool" where
  "ExpectRinging c \<longleftrightarrow> ringingCloses c > 0 \<and> tRing c \<noteq> None"

definition ExpectConnected :: "Call \<Rightarrow> bool" where
  "ExpectConnected c \<longleftrightarrow> connectedCloses c > 0"

definition ExpectDisconnected :: "Call \<Rightarrow> bool" where
  "ExpectDisconnected c \<longleftrightarrow> doneCloses c > 0"

section \<open>Recordings of finished calls\<close>

definition useMedia :: "Stream \<Rightarrow> RecordMode \<Rightarrow> string \<Rightarrow> Call \<Rightarrow> Call" where
  "useMedia st mode dir' c =
     c\<lparr>media := Some st, recMode := mode,
       recDir := (if mode = RecordOnFailure \<and> dir' = [] then ''recordings'' else dir')\<rparr>"

definition autoSave :: "Call \<Rightarrow> Call \<times> bool" where
  "autoSave c =
     (if media c = None \<or> recDir c = [] then (c, False)
      else let f = (failed c \<or> endedBy c = EndedByError \<and> tAnswer c \<noteq> None);
               want = (recMode c = RecordAlways \<or> recMode c = RecordOnFailure \<and> f)
        in if \<not> want \<or> saved c \<or> state c \<noteq> StateEnded then (c, False) else (c\<lparr>saved := True\<rparr>, True))"

definition file_char :: "char \<Rightarrow> char" where
  "file_char r =
     (let n = of_char r :: nat
      in if 97 \<le> n \<and> n \<le> 122 \<or> 65 \<le> n \<and> n \<le> 90 \<or> 48 \<le> n \<and> n \<le> 57 \<or> r = CHR ''-'' \<or> r = CHR ''.''
         then r else CHR ''_'')"

definition fileSafe :: "string \<Rightarrow> string" where
  "fileSafe s = map file_char s"

definition mark_failed :: "Call \<Rightarrow> Call" where
  "mark_failed c = c\<lparr>failed := True\<rparr>"

definition progress_update :: "int \<Rightarrow> bool \<Rightarrow> transferProgress \<Rightarrow> transferProgress" where
  "progress_update st final p =
     p\<lparr>xferStatus := st, xferCloses := (if final \<and> xferCloses p = 0 then 1 else xferCloses p)\<rparr>"

end
