(* ===== verification/Sip.thy ===== *)
theory Sip
  imports Calls
begin

text \<open>
  SIP messages as the engine sees them. The message types are those of the package
  \<open>github.com/emiago/sipgo\<close>; what the code reads and sets of them is kept: the start line,
  the parts of From, To, Contact, CSeq and Via it uses, the body, and the other header fields
  as the list of values \<open>GetHeaders\<close> returns for a name. \<open>hasOption\<close> and
  \<open>parseSessionExpires\<close> are the engine's own readers of such values.
\<close>

record Uri =
  uScheme :: string
  uUser :: string
  uHost :: string
  uPort :: int

type_synonym headers = "string \<Rightarrow> string list"

record request =
  reqMethod :: string
  Recipient :: Uri
  reqFrom :: Uri
  fromTag :: "string option"
  toTag :: "string option"
  reqCallID :: string
  reqSeq :: u32
  reqSeqMethod :: string
  via :: "string option"         \<comment> \<open>branch of the top Via\<close>
  reqHdr :: headers
  reqDest :: string
  reqBody :: string

record response =
  resCode :: int
  resReason :: string
  resToTag :: "string option"
  resContact :: "Uri option"
  resSeq :: u32
  resHdr :: headers
  resBody :: string

definition first_header :: "headers \<Rightarrow> string \<Rightarrow> string option" where
  "first_header h name = (case h name of [] \<Rightarrow> None | v # _ \<Rightarrow> Some v)"

definition append_header :: "string \<Rightarrow> string \<Rightarrow> headers \<Rightarrow> headers" where
  "append_header name v h = h(name := h name @ [v])"

definition remove_header :: "string \<Rightarrow> headers \<Rightarrow> headers" where
  "remove_header name h = h(name := [])"

definition no_headers :: headers where
  "no_headers = (\<lambda>_. [])"

definition IsProvisional :: "response \<Rightarrow> bool" where
  "IsProvisional r \<longleftrightarrow> resCode r < 200"

definition IsSuccess :: "response \<Rightarrow> bool" where
  "IsSuccess r \<longleftrightarrow> 200 \<le> resCode r \<and> resCode r < 300"

section \<open>Readers\<close>

text \<open>Whether a Require or Supported header lists a tag.\<close>

definition hasOption :: "headers \<Rightarrow> string \<Rightarrow> string \<Rightarrow> bool" where
  "hasOption h name tag \<longleftrightarrow> (\<exists>v \<in> set (h name). \<exists>o' \<in> set (Split v (CHR '','')). EqualFold (TrimSpace o') tag)"

text \<open>\<open>time.Duration(secs) * time.Second\<close> is 64-bit arithmetic.\<close>

definition wrap64 :: "int \<Rightarrow> int" where
  "wrap64 x = sint (word_of_int x :: 64 word)"

text \<open>The parameter loop: the last \<open>refresher\<close> wins.\<close>

definition refresher_param :: "string \<Rightarrow> string \<Rightarrow> string" where
  "refresher_param p cur =
     (let (k, v, ok) = Cut (TrimSpace p) ''=''
      in if ok \<and> EqualFold k ''refresher'' then ToLower v else cur)"

definition parseSessionExpires :: "headers \<Rightarrow> (duration \<times> string) option" where
  "parseSessionExpires h =
     (case (case first_header h ''Session-Expires'' of None \<Rightarrow> first_header h ''x'' | Some v \<Rightarrow> Some v) of
        None \<Rightarrow> None
      | Some value \<Rightarrow>
          (let (v, params, _) = Cut value '';''; (secs, ok) = Atoi (TrimSpace v)
           in if \<not> ok \<or> secs \<le> 0 then None
              else Some (wrap64 (secs * 1000000000), fold refresher_param (Split params (CHR '';'')) [])))"

end
