(* ===== verification/Registration.thy ===== *)
theory Registration
  imports Complex_Main Sip
begin

text \<open>
  The registration of a device, \<open>engine/device.go\<close>: \<open>Start\<close>, \<open>Register\<close> and its
  refresh timer, \<open>Destroy\<close>. The outcome of the rate limiter and of the transactions, the
  digest answer and the random jitter are parameters (\<open>reg_env\<close>). A context is the number of
  the \<open>open\<close> that created it: a timer callback compares its own with the current one, as the
  code asks \<open>ctx.Err()\<close>. Floating-point products are exact rationals, rounded down.
\<close>

section \<open>State\<close>

record reg_config =
  rcExpires :: duration
  NoRegister :: bool
  rcAor :: Uri
  rcRegistrar :: Uri
  rcProxy :: string
  rcContactHost :: string     \<comment> \<open>host, port and text of \<open>d.contact\<close>\<close>
  rcContactPort :: int
  rcContact :: string

record regDevice =
  rcfg :: reg_config
  devStarted :: bool
  registered :: bool
  regCallID :: string
  regFromTag :: string
  regCSeq :: u32
  regTimer :: "(duration \<times> nat) option"   \<comment> \<open>delay of the pending timer and its context\<close>
  regCtx :: nat                \<comment> \<open>contexts created so far; the last one is \<open>d.ctx\<close>\<close>
  ctxLive :: bool              \<comment> \<open>\<open>d.ctx\<close> is not cancelled\<close>
  sentRegs :: "request list"   \<comment> \<open>REGISTERs sent since \<open>open\<close>, latest last\<close>
  grantedFor :: int            \<comment> \<open>lifetime in seconds of the last success, kept to state the theorems\<close>

record reg_response =
  rCode :: int
  rContacts :: "(string \<times> int \<times> string option) list"   \<comment> \<open>host, port, expires parameter\<close>
  rExpires :: "string option"

text \<open>\<open>DoDigestAuth\<close> raises the request's CSeq; it reports the number it used.\<close>

record reg_env =
  limiterErr :: "string option"
  firstAnswer :: "request \<Rightarrow> string + reg_response"
  authAnswer :: "request \<Rightarrow> reg_response \<Rightarrow> u32 \<times> (string + reg_response)"
  retryJitter :: nat           \<comment> \<open>\<open>rand.IntN(25)\<close>\<close>
  refreshJitter :: rat         \<comment> \<open>\<open>rand.Float64()\<close>\<close>
  openErr :: "string option"
  newIds :: "string \<times> string"  \<comment> \<open>Call-ID and tag that \<open>open\<close> generates\<close>

datatype reg_error = LimiterError string | RegisterFailed string | RegisterStatus int | OpenError string

definition new_reg :: "reg_config \<Rightarrow> regDevice" where
  "new_reg c = \<lparr>rcfg = c, devStarted = False, registered = False, regCallID = [], regFromTag = [], regCSeq = 0,
     regTimer = None, regCtx = 0, ctxLive = False, sentRegs = [], grantedFor = 0\<rparr>"

section \<open>Registering\<close>

definition positive_number :: "string \<Rightarrow> int option" where
  "positive_number v = (let (n, ok) = Atoi v in if ok \<and> n > 0 then Some n else None)"

text \<open>The loop over the Contact fields: the first one that is ours and names a positive lifetime.\<close>

fun granted_contact :: "string \<Rightarrow> int \<Rightarrow> (string \<times> int \<times> string option) list \<Rightarrow> int option" where
  "granted_contact host p [] = None"
| "granted_contact host p ((h, q, e) # cs) =
     (if h \<noteq> host \<or> q \<noteq> p then granted_contact host p cs
      else case e of None \<Rightarrow> granted_contact host p cs
           | Some v \<Rightarrow> (case positive_number v of Some n \<Rightarrow> Some n | None \<Rightarrow> granted_contact host p cs))"

definition grantedExpires :: "reg_response \<Rightarrow> string \<Rightarrow> int \<Rightarrow> int \<Rightarrow> int" where
  "grantedExpires res host p requested =
     (case granted_contact host p (rContacts res) of
        Some n \<Rightarrow> n
      | None \<Rightarrow>
          (case rExpires res of None \<Rightarrow> requested
           | Some v \<Rightarrow> (case positive_number (TrimSpace v) of Some n \<Rightarrow> n | None \<Rightarrow> requested)))"

abbreviation second :: duration where "second \<equiv> 1000000000"

definition scheduleRefresh :: "duration \<Rightarrow> regDevice \<Rightarrow> regDevice" where
  "scheduleRefresh after d = d\<lparr>regTimer := Some (if after < second then second else after, regCtx d)\<rparr>"

definition register_request :: "u32 \<Rightarrow> int \<Rightarrow> regDevice \<Rightarrow> request" where
  "register_request n expires' d =
     \<lparr>reqMethod = ''REGISTER'', Recipient = rcRegistrar (rcfg d), reqFrom = rcAor (rcfg d), fromTag = Some (regFromTag d),
      toTag = None, reqCallID = regCallID d, reqSeq = n, reqSeqMethod = ''REGISTER'', via = None,
      reqHdr = no_headers(''Contact'' := [rcContact (rcfg d)], ''Expires'' := [Itoa expires']),
      reqDest = rcProxy (rcfg d), reqBody = []\<rparr>"

text \<open>The transactions of one registration: the request, and with credentials after a challenge.\<close>

definition register_exchange :: "reg_env \<Rightarrow> request \<Rightarrow> regDevice \<Rightarrow> regDevice \<times> (string + reg_response)" where
  "register_exchange env req d =
     (let d1 = d\<lparr>sentRegs := sentRegs d @ [req]\<rparr>
      in case firstAnswer env req of
           Inl e \<Rightarrow> (d1, Inl e)
         | Inr res \<Rightarrow>
             if rCode res = 401 \<or> rCode res = 407 then
               (let (n, r) = authAnswer env req res
                in (d1\<lparr>regCSeq := n, sentRegs := sentRegs d1 @ [req\<lparr>reqSeq := n\<rparr>]\<rparr>, r))
             else (d1, Inr res))"

definition register :: "reg_env \<Rightarrow> int \<Rightarrow> regDevice \<Rightarrow> regDevice \<times> reg_error option" where
  "register env expires' d =
     (case limiterErr env of Some e \<Rightarrow> (d, Some (LimiterError e))
      | None \<Rightarrow>
          (let d1 = d\<lparr>regCSeq := regCSeq d + 1\<rparr>;
               (d2, r) = register_exchange env (register_request (regCSeq d1) expires' d1) d1;
               err = (case r of Inl e \<Rightarrow> Some (RegisterFailed e)
                      | Inr res \<Rightarrow> if rCode res \<noteq> 200 then Some (RegisterStatus (rCode res)) else None)
           in if expires' = 0 then (d2\<lparr>registered := False\<rparr>, err)
              else case (err, r) of
                (None, Inr res) \<Rightarrow>
                  (let g = grantedExpires res (rcContactHost (rcfg d)) (rcContactPort (rcfg d)) expires'
                   in (scheduleRefresh \<lfloor>of_int g * (80 / 100 + 15 / 100 * refreshJitter env) * of_int second\<rfloor>
                         (d2\<lparr>registered := True, grantedFor := g\<rparr>), None))
              | _ \<Rightarrow> (scheduleRefresh ((5 + int (retryJitter env)) * second) (d2\<lparr>registered := False\<rparr>), err)))"

definition Register :: "reg_env \<Rightarrow> regDevice \<Rightarrow> regDevice \<times> reg_error option" where
  "Register env d = register env (rcExpires (rcfg d) div second) d"

section \<open>Start, refresh and destroy\<close>

definition open_device :: "reg_env \<Rightarrow> regDevice \<Rightarrow> regDevice \<times> reg_error option" where
  "open_device env d =
     (case openErr env of Some e \<Rightarrow> (d, Some (OpenError e))
      | None \<Rightarrow> (d\<lparr>regCtx := regCtx d + 1, ctxLive := True, regCallID := fst (newIds env), regFromTag := snd (newIds env),
                 regCSeq := 0, sentRegs := []\<rparr>, None))"

definition close_device :: "regDevice \<Rightarrow> regDevice" where
  "close_device d = d\<lparr>ctxLive := False\<rparr>"

definition Start_device :: "reg_env \<Rightarrow> regDevice \<Rightarrow> regDevice \<times> reg_error option" where
  "Start_device env d =
     (if devStarted d then (d, None)
      else case open_device env d of
        (d1, Some e) \<Rightarrow> (d1, Some e)
      | (d1, None) \<Rightarrow>
          if NoRegister (rcfg d1) then (d1\<lparr>devStarted := True\<rparr>, None)
          else (case Register env d1 of
                  (d2, Some e) \<Rightarrow> (close_device d2, Some e)
                | (d2, None) \<Rightarrow> (d2\<lparr>devStarted := True\<rparr>, None)))"

text \<open>The timer's callback.\<close>

definition refresh_fires :: "reg_env \<Rightarrow> regDevice \<Rightarrow> regDevice" where
  "refresh_fires env d =
     (case regTimer d of None \<Rightarrow> d
      | Some (_, ctx) \<Rightarrow>
          if ctx = regCtx d \<and> ctxLive d then fst (Register env (d\<lparr>regTimer := None\<rparr>)) else d\<lparr>regTimer := None\<rparr>)"

text \<open>\<open>Destroy\<close> after it has hung up the calls.\<close>

definition Destroy :: "reg_env \<Rightarrow> regDevice \<Rightarrow> regDevice" where
  "Destroy env d =
     (if \<not> devStarted d then d
      else (let d1 = d\<lparr>devStarted := False, regTimer := None\<rparr>
            in close_device (if registered d1 then fst (register env 0 d1) else d1)))"

datatype reg_input = DoStart reg_env | DoRegister reg_env | TimerFires reg_env | DoDestroy reg_env

fun reg_step :: "reg_input \<Rightarrow> regDevice \<Rightarrow> regDevice" where
  "reg_step (DoStart env) d = fst (Start_device env d)"
| "reg_step (DoRegister env) d = (if devStarted d then fst (Register env d) else d)"
| "reg_step (TimerFires env) d = refresh_fires env d"
| "reg_step (DoDestroy env) d = Destroy env d"

section \<open>What a registration leaves behind\<close>

lemma exchange_fields:
  assumes "register_exchange env req d = (d', r)"
  shows "rcfg d' = rcfg d" "devStarted d' = devStarted d" "registered d' = registered d" "regTimer d' = regTimer d"
    "regCtx d' = regCtx d" "ctxLive d' = ctxLive d" "grantedFor d' = grantedFor d"
  using assms by (auto simp: register_exchange_def Let_def split: sum.splits prod.splits if_splits)

lemma register_eq:
  assumes "limiterErr env = None"
    and "register_exchange env (register_request (regCSeq d + 1) e (d\<lparr>regCSeq := regCSeq d + 1\<rparr>)) (d\<lparr>regCSeq := regCSeq d + 1\<rparr>) = (d2, r)"
  shows "register env e d =
    (let failed = (if e = 0 then d2\<lparr>registered := False\<rparr>
                   else scheduleRefresh ((5 + int (retryJitter env)) * second) (d2\<lparr>registered := False\<rparr>))
     in case r of Inl x \<Rightarrow> (failed, Some (RegisterFailed x))
        | Inr res \<Rightarrow>
            if rCode res \<noteq> 200 then (failed, Some (RegisterStatus (rCode res)))
            else if e = 0 then (failed, None)
            else (let g = grantedExpires res (rcContactHost (rcfg d)) (rcContactPort (rcfg d)) e
                  in (scheduleRefresh \<lfloor>of_int g * (80 / 100 + 15 / 100 * refreshJitter env) * of_int second\<rfloor>
                        (d2\<lparr>registered := True, grantedFor := g\<rparr>), None)))"
  using assms by (simp add: register_def Let_def split: sum.split)

lemma register_fields:
  "rcfg (fst (register env e d)) = rcfg d \<and> devStarted (fst (register env e d)) = devStarted d \<and>
   regCtx (fst (register env e d)) = regCtx d \<and> ctxLive (fst (register env e d)) = ctxLive d"
proof (cases "limiterErr env")
  case None
  let ?d = "d\<lparr>regCSeq := regCSeq d + 1\<rparr>"
  obtain d2 r where x: "register_exchange env (register_request (regCSeq d + 1) e ?d) ?d = (d2, r)" by fastforce
  show ?thesis
    using exchange_fields [OF x] register_eq [OF None x]
    by (auto simp: Let_def scheduleRefresh_def split: sum.split)
qed (simp add: register_def)

lemma register_limited: "limiterErr env = Some x \<Longrightarrow> register env e d = (d, Some (LimiterError x))"
  by (simp add: register_def)

text \<open>A registration that got past the limiter leaves the timer armed for the current context.\<close>

definition armed_now :: "regDevice \<Rightarrow> bool" where
  "armed_now d \<longleftrightarrow> (\<exists>t. regTimer d = Some (t, regCtx d) \<and> second \<le> t \<and>
     (registered d \<and> 2 \<le> grantedFor d \<longrightarrow> t < grantedFor d * second))"

definition jitter_ok :: "reg_env \<Rightarrow> bool" where
  "jitter_ok env \<longleftrightarrow> 0 \<le> refreshJitter env \<and> refreshJitter env < 1"

lemma refresh_before_expiry:
  assumes "jitter_ok env" "2 \<le> g"
  shows "\<lfloor>of_int g * (80 / 100 + 15 / 100 * refreshJitter env) * of_int second\<rfloor> < g * second"
proof -
  have "80 / 100 + 15 / 100 * refreshJitter env < 1" using assms(1) by (simp add: jitter_ok_def)
  then have "of_int g * (80 / 100 + 15 / 100 * refreshJitter env) < of_int g * (1 :: rat)"
    using assms(2) by (intro mult_strict_left_mono) simp_all
  then have "of_int g * (80 / 100 + 15 / 100 * refreshJitter env) * of_int second < (of_int (g * second) :: rat)"
    by simp
  then show ?thesis by (simp only: floor_less_iff)
qed

lemma register_arms:
  assumes "limiterErr env = None" "jitter_ok env" "e \<noteq> 0"
  shows "armed_now (fst (register env e d))"
    "registered (fst (register env e d)) = (snd (register env e d) = None)"
proof -
  let ?d = "d\<lparr>regCSeq := regCSeq d + 1\<rparr>"
  obtain d2 r where x: "register_exchange env (register_request (regCSeq d + 1) e ?d) ?d = (d2, r)" by fastforce
  show "armed_now (fst (register env e d))"
    using exchange_fields [OF x] assms(3) register_eq [OF assms(1) x] refresh_before_expiry [OF assms(2)]
    by (auto simp: Let_def scheduleRefresh_def armed_now_def split: sum.split)
  show "registered (fst (register env e d)) = (snd (register env e d) = None)"
    using assms(3) register_eq [OF assms(1) x] by (simp add: Let_def scheduleRefresh_def split: sum.split)
qed

section \<open>Runs\<close>

text \<open>
  The limiter's \<open>Wait\<close> fails only when its context is cancelled or would expire first. Only
  \<open>Destroy\<close> passes one that can: the others pass \<open>d.ctx\<close>, which is live while they run.
\<close>

fun input_ok :: "reg_input \<Rightarrow> bool" where
  "input_ok (DoStart env) = (limiterErr env = None \<and> jitter_ok env)"
| "input_ok (DoRegister env) = (limiterErr env = None \<and> jitter_ok env)"
| "input_ok (TimerFires env) = (limiterErr env = None \<and> jitter_ok env)"
| "input_ok (DoDestroy env) = True"

definition reg_ok :: "regDevice \<Rightarrow> bool" where
  "reg_ok d \<longleftrightarrow> second \<le> rcExpires (rcfg d) \<and>
     (devStarted d \<longrightarrow> ctxLive d) \<and>
     (devStarted d \<and> \<not> NoRegister (rcfg d) \<longrightarrow> armed_now d) \<and>
     (\<forall>t c. regTimer d = Some (t, c) \<longrightarrow> c \<le> regCtx d) \<and>
     (ctxLive d \<longrightarrow> devStarted d)"

lemma expires_nonzero: "second \<le> rcExpires c \<Longrightarrow> rcExpires c div second \<noteq> 0"
  by simp

lemma reg_ok_expires: "reg_ok d \<Longrightarrow> rcExpires (rcfg d) div second \<noteq> 0"
  unfolding reg_ok_def by (elim conjE) (rule expires_nonzero)

lemma armed_now_update [simp]:
  "armed_now (d\<lparr>devStarted := b\<rparr>) = armed_now d"
  by (simp add: armed_now_def)

lemma register_timer_ctx:
  assumes "\<forall>t c. regTimer d = Some (t, c) \<longrightarrow> c \<le> regCtx d"
  shows "\<forall>t c. regTimer (fst (register env e d)) = Some (t, c) \<longrightarrow> c \<le> regCtx d"
proof (cases "limiterErr env")
  case None
  let ?d = "d\<lparr>regCSeq := regCSeq d + 1\<rparr>"
  obtain d2 r where x: "register_exchange env (register_request (regCSeq d + 1) e ?d) ?d = (d2, r)" by fastforce
  show ?thesis
    using assms exchange_fields [OF x] register_eq [OF None x] by (auto simp: Let_def scheduleRefresh_def split: sum.split)
qed (use assms in \<open>simp add: register_def\<close>)

lemma reg_ok_armed:
  assumes ok: "reg_ok d" and same: "rcfg d' = rcfg d" "devStarted d' = devStarted d" "ctxLive d' = ctxLive d" "regCtx d' = regCtx d"
    and armed: "armed_now d'"
  shows "reg_ok d'"
proof -
  obtain t where "regTimer d' = Some (t, regCtx d')" using armed unfolding armed_now_def by blast
  then have "\<forall>t c. regTimer d' = Some (t, c) \<longrightarrow> c \<le> regCtx d'" by simp
  with ok armed show ?thesis unfolding reg_ok_def same by blast
qed

lemma reg_ok_register:
  assumes "reg_ok d" "limiterErr env = None" "jitter_ok env"
  shows "reg_ok (fst (Register env d))"
  unfolding Register_def
  by (rule reg_ok_armed [OF assms(1)])
    (use register_fields [of env "rcExpires (rcfg d) div second" d] register_arms(1) [OF assms(2,3) reg_ok_expires [OF assms(1)]] in blast)+

lemma reg_ok_start:
  assumes ok: "reg_ok d" and env: "limiterErr env = None" "jitter_ok env"
  shows "reg_ok (fst (Start_device env d))"
proof (cases "devStarted d \<or> openErr env \<noteq> None")
  case True
  then show ?thesis using ok by (auto simp: Start_device_def open_device_def split: prod.splits)
next
  case False
  obtain d1 where d1: "open_device env d = (d1, None)" "rcfg d1 = rcfg d" "ctxLive d1" "\<not> devStarted d1"
    "\<forall>t c. regTimer d1 = Some (t, c) \<longrightarrow> c \<le> regCtx d1"
    using False ok by (auto simp: open_device_def reg_ok_def le_Suc_eq)
  show ?thesis
  proof (cases "NoRegister (rcfg d)")
    case True
    then show ?thesis using ok d1 False by (simp add: Start_device_def reg_ok_def)
  next
    case nr: False
    let ?e = "rcExpires (rcfg d) div second"
    obtain d2 x where r: "register env ?e d1 = (d2, x)" by fastforce
    have e: "?e \<noteq> 0" by (rule reg_ok_expires [OF ok])
    note f = register_fields [of env ?e d1, unfolded r] and a = register_arms(1) [OF env e, of d1, unfolded r]
      and t = register_timer_ctx [OF d1(5), of env ?e, unfolded r]
    show ?thesis
    proof (cases x)
      case None
      then show ?thesis using ok d1 nr False f a t
        by (simp add: Start_device_def Register_def r reg_ok_def)
    next
      case (Some y)
      then show ?thesis using ok d1 nr False f t
        by (simp add: Start_device_def Register_def r reg_ok_def close_device_def)
    qed
  qed
qed

lemma reg_ok_timer:
  assumes ok: "reg_ok d" and env: "limiterErr env = None" "jitter_ok env"
  shows "reg_ok (refresh_fires env d)"
proof (cases "\<exists>t. regTimer d = Some (t, regCtx d) \<and> ctxLive d")
  case True
  let ?d = "d\<lparr>regTimer := None\<rparr>" and ?e = "rcExpires (rcfg d) div second"
  have f: "refresh_fires env d = fst (register env ?e ?d)"
    using True by (auto simp: refresh_fires_def Register_def)
  show ?thesis unfolding f
  proof (rule reg_ok_armed [OF ok])
    show "armed_now (fst (register env ?e ?d))" by (rule register_arms(1) [OF env reg_ok_expires [OF ok]])
  qed (use register_fields [of env ?e ?d] in simp_all)
next
  case False
  then have n: "\<not> (devStarted d \<and> \<not> NoRegister (rcfg d))" using ok unfolding reg_ok_def armed_now_def by blast
  have "refresh_fires env d = d \<or> refresh_fires env d = d\<lparr>regTimer := None\<rparr>"
    using False by (auto simp: refresh_fires_def split: option.split)
  moreover have "reg_ok (d\<lparr>regTimer := None\<rparr>)" using ok n by (simp add: reg_ok_def) blast
  ultimately show ?thesis using ok by auto
qed

lemma reg_ok_destroy: "reg_ok d \<Longrightarrow> reg_ok (Destroy env d)"
  using register_fields [of env 0 "d\<lparr>devStarted := False, regTimer := None\<rparr>"]
    register_timer_ctx [of "d\<lparr>devStarted := False, regTimer := None\<rparr>" env 0]
  by (auto simp: Destroy_def reg_ok_def close_device_def Let_def)

lemma reg_ok_step: "reg_ok d \<Longrightarrow> input_ok i \<Longrightarrow> reg_ok (reg_step i d)"
  by (cases i) (auto simp: reg_ok_start reg_ok_register reg_ok_timer reg_ok_destroy)

lemma reg_ok_run: "reg_ok d \<Longrightarrow> list_all input_ok is \<Longrightarrow> reg_ok (fold reg_step is d)"
  by (induction "is" arbitrary: d) (simp_all add: reg_ok_step)

lemma rcfg_Register: "rcfg (fst (Register env d)) = rcfg d"
  using register_fields by (simp add: Register_def)

lemma rcfg_step: "rcfg (reg_step i d) = rcfg d"
proof (cases i)
  case (DoStart env)
  obtain d1 x where o': "open_device env d = (d1, x)" "rcfg d1 = rcfg d"
    by (cases "openErr env") (auto simp: open_device_def)
  obtain d2 y where r: "Register env d1 = (d2, y)" by fastforce
  have "rcfg d2 = rcfg d" using rcfg_Register [of env d1] o'(2) by (simp add: r)
  then show ?thesis using o' by (auto simp: DoStart Start_device_def r close_device_def split: option.split)
next
  case (TimerFires env)
  then show ?thesis using rcfg_Register [of env "d\<lparr>regTimer := None\<rparr>"] by (auto simp: refresh_fires_def split: option.split)
next
  case (DoDestroy env)
  then show ?thesis using register_fields [of env 0 "d\<lparr>devStarted := False, regTimer := None\<rparr>"]
    by (simp add: Destroy_def close_device_def Let_def)
qed (simp add: rcfg_Register)

lemma rcfg_run: "rcfg (fold reg_step is d) = rcfg d"
  by (induction "is" arbitrary: d) (simp_all add: rcfg_step)

text \<open>C23: A started device never stops refreshing: after any sequence of starts, registrations, timers and
  destructions, however the registrar answers, a device that is started and registers has a refresh
  timer pending in its own context; the timer fires before the lifetime the registrar granted runs
  out (for a lifetime of at least two seconds), and when the registration failed it retries.\<close>

theorem refresh_pending:
  assumes "second \<le> rcExpires c" "\<not> NoRegister c" "list_all input_ok is"
    and d: "d = fold reg_step is (new_reg c)" "devStarted d"
  shows "\<exists>t. regTimer d = Some (t, regCtx d) \<and> ctxLive d \<and> second \<le> t \<and>
    (registered d \<and> 2 \<le> grantedFor d \<longrightarrow> t < grantedFor d * second)"
proof -
  have "reg_ok (new_reg c)" using assms(1) by (simp add: reg_ok_def new_reg_def)
  then have ok: "reg_ok d" unfolding d(1) by (rule reg_ok_run [OF _ assms(3)])
  have "\<not> NoRegister (rcfg d)" using assms(2) rcfg_run [of "is" "new_reg c"] by (simp add: d(1) new_reg_def)
  then show ?thesis using ok d(2) by (auto simp: reg_ok_def armed_now_def)
qed

section \<open>Registered means started\<close>

fun destroy_ok :: "reg_input \<Rightarrow> bool" where
  "destroy_ok (DoDestroy env) = (limiterErr env = None)"
| "destroy_ok _ = True"

lemma register_zero: "limiterErr env = None \<Longrightarrow> \<not> registered (fst (register env 0 d))"
proof -
  assume l: "limiterErr env = None"
  let ?d = "d\<lparr>regCSeq := regCSeq d + 1\<rparr>"
  obtain d2 r where x: "register_exchange env (register_request (regCSeq d + 1) 0 ?d) ?d = (d2, r)" by fastforce
  show ?thesis using register_eq [OF l x] by (simp add: Let_def split: sum.split)
qed

lemma registered_start:
  assumes ok: "reg_ok d" and reg: "registered d \<longrightarrow> devStarted d" and env: "limiterErr env = None" "jitter_ok env"
  shows "registered (fst (Start_device env d)) \<longrightarrow> devStarted (fst (Start_device env d))"
proof (cases "devStarted d \<or> openErr env \<noteq> None \<or> NoRegister (rcfg d)")
  case True
  then show ?thesis using reg by (auto simp: Start_device_def open_device_def split: prod.splits option.splits)
next
  case False
  let ?e = "rcExpires (rcfg d) div second"
  obtain d1 where d1: "open_device env d = (d1, None)" "rcfg d1 = rcfg d"
    using False by (auto simp: open_device_def)
  obtain d2 x where r: "register env ?e d1 = (d2, x)" by fastforce
  have "registered d2 = (x = None)"
    using register_arms(2) [OF env reg_ok_expires [OF ok], of d1] by (simp add: r)
  then show ?thesis using False d1 by (cases x) (simp_all add: Start_device_def Register_def r close_device_def)
qed

lemma registered_step:
  assumes "reg_ok d" "registered d \<longrightarrow> devStarted d" "input_ok i" "destroy_ok i"
  shows "registered (reg_step i d) \<longrightarrow> devStarted (reg_step i d)"
proof (cases i)
  case (TimerFires env)
  have "ctxLive d \<longrightarrow> devStarted d" using assms(1) unfolding reg_ok_def by blast
  then show ?thesis
    using assms(2) register_fields [of env "rcExpires (rcfg d) div second" "d\<lparr>regTimer := None\<rparr>"]
    by (auto simp: TimerFires refresh_fires_def Register_def split: option.split)
next
  case (DoDestroy env)
  then show ?thesis using assms(2,4) register_zero [of env "d\<lparr>devStarted := False, regTimer := None\<rparr>"]
    by (auto simp: Destroy_def close_device_def Let_def)
next
  case (DoRegister env)
  then show ?thesis using assms(2) register_fields [of env "rcExpires (rcfg d) div second" d] by (auto simp: Register_def)
qed (use assms registered_start in simp)

lemma registered_run:
  "reg_ok d \<Longrightarrow> registered d \<longrightarrow> devStarted d \<Longrightarrow> list_all input_ok is \<Longrightarrow> list_all destroy_ok is \<Longrightarrow>
   registered (fold reg_step is d) \<longrightarrow> devStarted (fold reg_step is d)"
proof (induction "is" arbitrary: d)
  case (Cons i "is")
  then show ?case using reg_ok_step [of d i] registered_step [of d i] by simp
qed simp

text \<open>A device that reports itself registered is started: in every run in which the rate limiter let the
  unregistration of \<open>Destroy\<close> pass, no failed start and no destruction leaves the flag set.\<close>

theorem registered_is_started:
  assumes "second \<le> rcExpires c" "list_all input_ok is" "list_all destroy_ok is"
    and "registered (fold reg_step is (new_reg c))"
  shows "devStarted (fold reg_step is (new_reg c))"
proof -
  have "reg_ok (new_reg c)" "registered (new_reg c) \<longrightarrow> devStarted (new_reg c)"
    using assms(1) by (simp_all add: reg_ok_def new_reg_def)
  then show ?thesis using registered_run assms(2-4) by blast
qed

text \<open>The unregistration of \<open>Destroy\<close> goes through the rate limiter with a deadline of five seconds: when
  the limiter cannot admit it in that time, a registered device is destroyed without a REGISTER with
  lifetime 0, its binding stays at the registrar, and it keeps reporting itself registered.\<close>

theorem unregister_skipped:
  assumes "devStarted d" "registered d" "limiterErr env = Some e"
  shows "\<not> devStarted (Destroy env d) \<and> registered (Destroy env d) \<and> sentRegs (Destroy env d) = sentRegs d"
  using assms by (simp add: Destroy_def register_limited close_device_def Let_def)

section \<open>Sequence numbers\<close>

definition digest_ok :: "reg_env \<Rightarrow> bool" where
  "digest_ok env \<longleftrightarrow> (\<forall>req res. fst (authAnswer env req res) = reqSeq req + 1)"

fun digest_input :: "reg_input \<Rightarrow> bool" where
  "digest_input (DoStart env) = digest_ok env"
| "digest_input (DoRegister env) = digest_ok env"
| "digest_input (TimerFires env) = digest_ok env"
| "digest_input (DoDestroy env) = digest_ok env"

definition seq_ok :: "regDevice \<Rightarrow> bool" where
  "seq_ok d \<longleftrightarrow> regCSeq d = of_nat (length (sentRegs d)) \<and>
     map reqSeq (sentRegs d) = map of_nat [1..<Suc (length (sentRegs d))] \<and>
     (\<forall>r \<in> set (sentRegs d). reqCallID r = regCallID d \<and> fromTag r = Some (regFromTag d))"

lemma seq_ok_append:
  assumes "seq_ok d" "reqSeq req = regCSeq d + 1" "reqCallID req = regCallID d" "fromTag req = Some (regFromTag d)"
  shows "seq_ok (d\<lparr>regCSeq := reqSeq req, sentRegs := sentRegs d @ [req]\<rparr>)"
  using assms by (simp add: seq_ok_def add.commute)

lemma seq_ok_update [simp]:
  "seq_ok (d\<lparr>regTimer := x\<rparr>) = seq_ok d" "seq_ok (d\<lparr>registered := b\<rparr>) = seq_ok d" "seq_ok (d\<lparr>grantedFor := g\<rparr>) = seq_ok d"
  "seq_ok (d\<lparr>devStarted := b\<rparr>) = seq_ok d" "seq_ok (d\<lparr>ctxLive := b\<rparr>) = seq_ok d"
  by (simp_all add: seq_ok_def)

lemma seq_ok_exchange:
  assumes ok: "seq_ok d" and env: "digest_ok env"
    and x: "register_exchange env (register_request (regCSeq d + 1) e (d\<lparr>regCSeq := regCSeq d + 1\<rparr>))
      (d\<lparr>regCSeq := regCSeq d + 1\<rparr>) = (d2, r)"
  shows "seq_ok d2"
proof -
  let ?req = "register_request (regCSeq d + 1) e (d\<lparr>regCSeq := regCSeq d + 1\<rparr>)"
  let ?d1 = "d\<lparr>regCSeq := regCSeq d + 1, sentRegs := sentRegs d @ [?req]\<rparr>"
  have one: "seq_ok ?d1" using seq_ok_append [OF ok, of ?req] by (simp add: register_request_def)
  show ?thesis
  proof (cases "firstAnswer env ?req")
    case (Inl a)
    then show ?thesis using x one by (auto simp: register_exchange_def)
  next
    case (Inr res)
    obtain n q where a: "authAnswer env ?req res = (n, q)" by fastforce
    have "fst (authAnswer env ?req res) = reqSeq ?req + 1" using env unfolding digest_ok_def by blast
    then have "n = reqSeq ?req + 1" by (simp only: a fst_conv)
    then have "n = regCSeq ?d1 + 1" by (simp add: register_request_def)
    then have "seq_ok (?d1\<lparr>regCSeq := n, sentRegs := sentRegs ?d1 @ [?req\<lparr>reqSeq := n\<rparr>]\<rparr>)"
      using seq_ok_append [OF one, of "?req\<lparr>reqSeq := n\<rparr>"] by (simp add: register_request_def)
    then show ?thesis using x one Inr a by (auto simp: register_exchange_def Let_def split: if_splits)
  qed
qed

lemma seq_ok_register:
  assumes "seq_ok d" "digest_ok env"
  shows "seq_ok (fst (register env e d))"
proof (cases "limiterErr env")
  case None
  let ?d = "d\<lparr>regCSeq := regCSeq d + 1\<rparr>"
  obtain d2 r where x: "register_exchange env (register_request (regCSeq d + 1) e ?d) ?d = (d2, r)" by fastforce
  show ?thesis
    using register_eq [OF None x] seq_ok_exchange [OF assms x]
    by (auto simp: Let_def scheduleRefresh_def split: sum.split)
qed (use assms in \<open>simp add: register_def\<close>)

lemma seq_ok_step:
  assumes "seq_ok d" "digest_input i"
  shows "seq_ok (reg_step i d)"
proof (cases i)
  case (DoStart env)
  show ?thesis
  proof (cases "devStarted d \<or> openErr env \<noteq> None")
    case True
    then show ?thesis using assms DoStart by (auto simp: Start_device_def open_device_def split: prod.splits)
  next
    case False
    let ?d = "fst (open_device env d)"
    have o': "seq_ok ?d" "open_device env d = (?d, None)" using False by (auto simp: open_device_def seq_ok_def)
    then show ?thesis
      using seq_ok_register [OF o'(1), of env "rcExpires (rcfg ?d) div second"] assms(2) False DoStart
      by (auto simp: Start_device_def Register_def close_device_def split: prod.split option.split)
  qed
next
  case (DoDestroy env)
  then show ?thesis using seq_ok_register [of "d\<lparr>devStarted := False, regTimer := None\<rparr>" env 0] assms
    by (simp add: Destroy_def close_device_def Let_def)
next
  case (TimerFires env)
  then show ?thesis using seq_ok_register [of "d\<lparr>regTimer := None\<rparr>" env] assms
    by (simp add: refresh_fires_def Register_def split: option.split)
qed (use assms seq_ok_register in \<open>simp add: Register_def\<close>)

lemma seq_ok_run: "seq_ok d \<Longrightarrow> list_all digest_input is \<Longrightarrow> seq_ok (fold reg_step is d)"
  by (induction "is" arbitrary: d) (simp_all add: seq_ok_step)

text \<open>The REGISTERs of a device since it was opened form one sequence: all carry its Call-ID and From tag,
  and their CSeq numbers are 1, 2, 3, ... modulo 2^32, the ones with credentials after a challenge
  included, when the digest package raises the CSeq of a challenged request by one.\<close>

theorem register_sequence:
  assumes "list_all digest_input is" and d: "d = fold reg_step is (new_reg c)"
  shows "map reqSeq (sentRegs d) = map of_nat [1..<Suc (length (sentRegs d))] \<and>
    (\<forall>r \<in> set (sentRegs d). reqCallID r = regCallID d \<and> fromTag r = Some (regFromTag d))"
proof -
  have "seq_ok (new_reg c)" by (simp add: seq_ok_def new_reg_def)
  then have "seq_ok d" unfolding d by (rule seq_ok_run [OF _ assms(1)])
  then show ?thesis unfolding seq_ok_def by blast
qed

section \<open>Witnesses\<close>

definition demo_reg :: reg_config where
  "demo_reg = \<lparr>rcExpires = 300000000000, NoRegister = False,
     rcAor = \<lparr>uScheme = ''sip'', uUser = ''a'', uHost = ''pbx'', uPort = 0\<rparr>,
     rcRegistrar = \<lparr>uScheme = ''sip'', uUser = [], uHost = ''pbx'', uPort = 5060\<rparr>, rcProxy = ''pbx:5060'',
     rcContactHost = ''10.0.0.1'', rcContactPort = 4000, rcContact = ''<sip:a@10.0.0.1:4000>''\<rparr>"

definition demo_reg_env :: "string option \<Rightarrow> reg_env" where
  "demo_reg_env le = \<lparr>limiterErr = le,
     firstAnswer = (\<lambda>_. Inr \<lparr>rCode = 401, rContacts = [], rExpires = None\<rparr>),
     authAnswer = (\<lambda>req _. (reqSeq req + 1, Inr \<lparr>rCode = 200, rContacts = [(''10.0.0.1'', 4000, Some ''60'')], rExpires = None\<rparr>)),
     retryJitter = 3, refreshJitter = 1 / 2, openErr = None, newIds = (''id'', ''tag'')\<rparr>"

definition demo_registered :: regDevice where
  "demo_registered = fold reg_step [DoStart (demo_reg_env None)] (new_reg demo_reg)"

lemma demo_registered: "devStarted demo_registered" "registered demo_registered" "length (sentRegs demo_registered) = 2"
  by (simp_all add: demo_registered_def Start_device_def open_device_def demo_reg_env_def new_reg_def demo_reg_def Register_def
      register_def register_exchange_def Let_def scheduleRefresh_def)

lemma demo_inputs: "list_all input_ok [DoStart (demo_reg_env None)]" "list_all destroy_ok [DoStart (demo_reg_env None)]"
  "list_all digest_input [DoStart (demo_reg_env None)]" "second \<le> rcExpires demo_reg" "\<not> NoRegister demo_reg"
  by (simp_all add: demo_reg_env_def jitter_ok_def digest_ok_def demo_reg_def)

theorem refresh_pending_witness: "\<exists>t. regTimer demo_registered = Some (t, regCtx demo_registered) \<and> second \<le> t"
  using refresh_pending [OF demo_inputs(4,5,1) demo_registered_def demo_registered(1)] by blast

theorem registered_is_started_witness: "devStarted (fold reg_step [DoStart (demo_reg_env None)] (new_reg demo_reg))"
  by (rule registered_is_started [OF demo_inputs(4,1,2)]) (use demo_registered(2) in \<open>simp only: demo_registered_def\<close>)

theorem unregister_skipped_witness:
  "registered (Destroy (demo_reg_env (Some ''would exceed context deadline'')) demo_registered)"
  using unregister_skipped [OF demo_registered(1,2), of "demo_reg_env (Some ''would exceed context deadline'')"]
  by (simp add: demo_reg_env_def)

theorem register_sequence_witness: "map reqSeq (sentRegs demo_registered) = [1, 2]"
  using register_sequence [OF demo_inputs(3) demo_registered_def] demo_registered(3) by (simp add: upt_rec)

end
