(* ===== verification/Registrar.thy ===== *)
theory Registrar
  imports Registration
begin

text \<open>
  The registrar of the test PBX, \<open>testpbx/testpbx.go\<close>: its users, the bindings, the digest check
  and the handler of REGISTER, and what a device's registration and unregistration leave in it.
  The digest package (\<open>github.com/icholy/digest\<close>) and the client's answer to a challenge
  (sipgo's \<open>DoDigestAuth\<close>) are parameters.
\<close>

section \<open>State\<close>

record pbx_user =
  uName :: string
  uPassword :: string
  uExt :: string

record pbx_config =
  pbxDomain :: string
  pbxUsers :: "pbx_user list"
  AuthRegister :: bool
  AuthInvite :: bool

record registrar =
  pcfg :: pbx_config
  users :: "string \<rightharpoonup> pbx_user"
  exts :: "string \<rightharpoonup> pbx_user"
  regs :: "string \<rightharpoonup> Uri"
  pbxNonce :: int
  Registers :: int
  InvitesSeen :: int
  AnsweredCalls :: int

text \<open>The loop of \<open>Start\<close> over the configured users.\<close>

definition add_user :: "pbx_user \<Rightarrow> registrar \<Rightarrow> registrar" where
  "add_user u p = p\<lparr>users := (users p)(uName u \<mapsto> u),
     exts := (if uExt u \<noteq> [] then (exts p)(uExt u \<mapsto> u) else exts p)\<rparr>"

definition Start_registrar :: "string \<Rightarrow> pbx_config \<Rightarrow> registrar" where
  "Start_registrar host cfg0 =
     (let c = (if pbxDomain cfg0 = [] then cfg0\<lparr>pbxDomain := host\<rparr> else cfg0)
      in fold add_user (pbxUsers c)
           \<lparr>pcfg = c, users = Map.empty, exts = Map.empty, regs = Map.empty, pbxNonce = 0,
            Registers = 0, InvitesSeen = 0, AnsweredCalls = 0\<rparr>)"

definition Registered :: "string \<Rightarrow> registrar \<Rightarrow> bool" where
  "Registered u p \<longleftrightarrow> regs p u \<noteq> None"

definition callerID :: "pbx_user \<Rightarrow> string" where
  "callerID u = (if uExt u \<noteq> [] then uExt u else uName u)"

definition contactOf :: "pbx_user \<Rightarrow> ('a registrar_scheme) \<Rightarrow> Uri option" where
  "contactOf u p = regs p (uName u)"

definition lookup_user :: "string \<Rightarrow> 'a registrar_scheme \<Rightarrow> pbx_user option" where
  "lookup_user number p = (case exts p number of Some u \<Rightarrow> Some u | None \<Rightarrow> users p number)"

section \<open>Digest authentication\<close>

record credentials =
  crUsername :: string
  crRealm :: string
  crNonce :: string
  crOpaque :: string
  crAlgorithm :: string
  crQOP :: string
  crURI :: string
  crCnonce :: string
  crNc :: int
  crResponse :: string

record challenge =
  chRealm :: string
  chNonce :: string
  chOpaque :: string
  chAlgorithm :: string
  chQOP :: "string list"

record digest_options =
  doMethod :: string
  doURI :: string
  doUsername :: string
  doPassword :: string
  doCnonce :: string
  doCount :: int

text \<open>The digest package: parsed credentials, the response to a challenge, a challenge as text.\<close>

record digest_env =
  ParseCredentials :: "string \<Rightarrow> credentials option"
  DigestResponse :: "challenge \<Rightarrow> digest_options \<Rightarrow> string option"
  ChallengeText :: "challenge \<Rightarrow> string"

definition qopList :: "string \<Rightarrow> string list" where
  "qopList q = (if q = [] then [] else [q])"

text \<open>\<open>strconv.FormatInt(n, 36)\<close> for a positive number.\<close>

definition digit36 :: "nat \<Rightarrow> char" where
  "digit36 n = (if n < 10 then char_of (48 + n) else char_of (87 + n))"

fun FormatBase36 :: "nat \<Rightarrow> string" where
  "FormatBase36 n = (if n < 36 then [digit36 n] else FormatBase36 (n div 36) @ [digit36 (n mod 36)])"

declare FormatBase36.simps [simp del]

definition credentials_match :: "digest_env \<Rightarrow> string \<Rightarrow> pbx_user \<Rightarrow> string \<Rightarrow> bool" where
  "credentials_match dg meth u h =
     (case ParseCredentials dg h of None \<Rightarrow> False
      | Some cr \<Rightarrow>
          crUsername cr = uName u \<and>
          DigestResponse dg
            \<lparr>chRealm = crRealm cr, chNonce = crNonce cr, chOpaque = crOpaque cr, chAlgorithm = crAlgorithm cr,
             chQOP = qopList (crQOP cr)\<rparr>
            \<lparr>doMethod = meth, doURI = crURI cr, doUsername = uName u, doPassword = uPassword u,
             doCnonce = crCnonce cr, doCount = crNc cr\<rparr> = Some (crResponse cr))"

text \<open>
  The check of a request: it passes, or the challenge that answers it is the value of the header
  field. The nonce is the clock and a counter.
\<close>

definition authorized :: "digest_env \<Rightarrow> nat \<Rightarrow> request \<Rightarrow> pbx_user \<Rightarrow> string \<Rightarrow> 'a registrar_scheme \<Rightarrow>
    'a registrar_scheme \<times> string option" where
  "authorized dg now req u hdr p =
     (if (case first_header (reqHdr req) hdr of None \<Rightarrow> False | Some h \<Rightarrow> credentials_match dg (reqMethod req) u h)
      then (p, None)
      else (p\<lparr>pbxNonce := pbxNonce p + 1\<rparr>,
            Some (ChallengeText dg \<lparr>chRealm = pbxDomain (pcfg p), chNonce = FormatBase36 (now + nat (pbxNonce p + 1)),
                                    chOpaque = [], chAlgorithm = ''MD5'', chQOP = []\<rparr>)))"

section \<open>REGISTER\<close>

text \<open>A REGISTER: its To address, and its Contact with the \<open>expires\<close> parameter.\<close>

record register_message = request +
  regTo :: Uri
  regContact :: "(Uri \<times> string option) option"

text \<open>The answer: the status, the Contact it returns, and the challenge.\<close>

record register_answer =
  raCode :: int
  raContact :: "(Uri \<times> string) option"
  raChallenge :: "string option"

definition binding_expires :: "register_message \<Rightarrow> int" where
  "binding_expires req =
     (let e = (case first_header (reqHdr req) ''Expires'' of None \<Rightarrow> 3600
               | Some h \<Rightarrow> (let (n, ok) = Atoi (TrimSpace h) in if ok then n else 3600))
      in case regContact req of
           Some (_, Some v) \<Rightarrow> (let (n, ok) = Atoi v in if ok then n else e)
         | _ \<Rightarrow> e)"

definition onRegister :: "digest_env \<Rightarrow> nat \<Rightarrow> register_message \<Rightarrow> 'a registrar_scheme \<Rightarrow>
    'a registrar_scheme \<times> register_answer" where
  "onRegister dg now req p0 =
     (let p = p0\<lparr>Registers := Registers p0 + 1\<rparr>; name = uUser (regTo req)
      in case users p name of
           None \<Rightarrow> (p, \<lparr>raCode = 404, raContact = None, raChallenge = None\<rparr>)
         | Some u \<Rightarrow>
             (let (p1, chal) = (if AuthRegister (pcfg p) then authorized dg now (request.truncate req) u ''Authorization'' p
                                else (p, None))
              in case chal of
                   Some c \<Rightarrow> (p1, \<lparr>raCode = 401, raContact = None, raChallenge = Some c\<rparr>)
                 | None \<Rightarrow>
                     (let e = binding_expires req
                      in (p1\<lparr>regs := (case regContact req of
                                Some (a, _) \<Rightarrow> if e = 0 then (regs p1)(name := None) else (regs p1)(name \<mapsto> a)
                              | None \<Rightarrow> (regs p1)(name := None))\<rparr>,
                          \<lparr>raCode = 200,
                           raContact = (case regContact req of Some (a, _) \<Rightarrow> if e > 0 then Some (a, Itoa e) else None
                                        | None \<Rightarrow> None),
                           raChallenge = None\<rparr>))))"

text \<open>What a registration changes.\<close>

lemma authorized_state:
  "users (fst (authorized dg now req u h p)) = users p" "pcfg (fst (authorized dg now req u h p)) = pcfg p"
  "regs (fst (authorized dg now req u h p)) = regs p"
  by (simp_all add: authorized_def)

lemma authorized_None: "authorized dg now req u h p = (p', None) \<Longrightarrow> p' = p"
  by (auto simp: authorized_def split: if_splits)

text \<open>A binding is made or removed only for the name of a configured user that is authorized.\<close>

definition register_allowed :: "digest_env \<Rightarrow> register_message \<Rightarrow> 'a registrar_scheme \<Rightarrow> bool" where
  "register_allowed dg req p \<longleftrightarrow>
     (\<exists>u. users p (uUser (regTo req)) = Some u \<and>
       (AuthRegister (pcfg p) \<longrightarrow>
          (\<exists>h. first_header (reqHdr req) ''Authorization'' = Some h \<and> credentials_match dg (reqMethod req) u h)))"

lemma onRegister_denied:
  assumes "\<not> register_allowed dg req p"
  shows "regs (fst (onRegister dg now req p)) = regs p" "raCode (snd (onRegister dg now req p)) \<in> {401, 404}"
  using assms by (auto simp: onRegister_def register_allowed_def authorized_def Let_def request.defs split: option.splits prod.splits)

lemma onRegister_allowed:
  assumes "register_allowed dg req p"
  shows "regs (fst (onRegister dg now req p)) = (regs p)(uUser (regTo req) :=
      (if binding_expires req = 0 then None else map_option fst (regContact req)))"
    "raCode (snd (onRegister dg now req p)) = 200"
    "raContact (snd (onRegister dg now req p)) = (if binding_expires req > 0
       then map_option (\<lambda>c. (fst c, Itoa (binding_expires req))) (regContact req) else None)"
  using assms
  by (auto simp: onRegister_def register_allowed_def authorized_def Let_def request.defs split: option.splits prod.splits)

section \<open>A device at its registrar\<close>

text \<open>
  What stands between the two programs: the digest package, the client that adds credentials to a
  challenged request, and the parser that reads the Contact field back.
\<close>

record reg_link =
  lkDigest :: digest_env
  lkAuth :: "request \<Rightarrow> string \<Rightarrow> request"
  lkContact :: "string \<Rightarrow> (Uri \<times> string option) option"

definition received :: "reg_link \<Rightarrow> request \<Rightarrow> register_message" where
  "received k req = request.extend req
     (register_message.fields (reqFrom req) (Option.bind (first_header (reqHdr req) ''Contact'') (lkContact k)))"

definition exchange_with :: "reg_link \<Rightarrow> nat \<Rightarrow> request \<Rightarrow> registrar \<Rightarrow> registrar \<times> register_answer" where
  "exchange_with k now req p =
     (let (p1, r1) = onRegister (lkDigest k) now (received k req) p
      in case raChallenge r1 of None \<Rightarrow> (p1, r1)
         | Some c \<Rightarrow> onRegister (lkDigest k) now (received k (lkAuth k req c)) p1)"

definition reg_view :: "register_answer \<Rightarrow> reg_response" where
  "reg_view r = \<lparr>rCode = raCode r,
     rContacts = (case raContact r of None \<Rightarrow> [] | Some (u, e) \<Rightarrow> [(uHost u, uPort u, Some e)]), rExpires = None\<rparr>"

definition registrar_env :: "reg_link \<Rightarrow> nat \<Rightarrow> registrar \<Rightarrow> reg_env \<Rightarrow> reg_env" where
  "registrar_env k now p env = env\<lparr>
     firstAnswer := (\<lambda>req. Inr (reg_view (snd (onRegister (lkDigest k) now (received k req) p)))),
     authAnswer := (\<lambda>req res. (reqSeq req + 1, Inr (reg_view (snd (exchange_with k now req p)))))\<rparr>"

text \<open>The device and the registrar after \<open>Start\<close> and after \<open>Destroy\<close>; what never leaves the device does not reach the registrar.\<close>

definition register_at :: "reg_link \<Rightarrow> nat \<Rightarrow> int \<Rightarrow> regDevice \<Rightarrow> registrar \<Rightarrow> registrar" where
  "register_at k now e d p = fst (exchange_with k now (register_request (regCSeq d + 1) e d) p)"

definition start_at :: "reg_link \<Rightarrow> nat \<Rightarrow> reg_env \<Rightarrow> regDevice \<times> registrar \<Rightarrow> regDevice \<times> registrar" where
  "start_at k now env s =
     (let (d, p) = s
      in (fst (Start_device (registrar_env k now p env) d),
          if devStarted d \<or> openErr env \<noteq> None \<or> NoRegister (rcfg d) \<or> limiterErr env \<noteq> None then p
          else register_at k now (rcExpires (rcfg d) div second) (fst (open_device env d)) p))"

definition destroy_at :: "reg_link \<Rightarrow> nat \<Rightarrow> reg_env \<Rightarrow> regDevice \<times> registrar \<Rightarrow> regDevice \<times> registrar" where
  "destroy_at k now env s =
     (let (d, p) = s
      in (Destroy (registrar_env k now p env) d,
          if devStarted d \<and> registered d \<and> limiterErr env = None then register_at k now 0 d p else p))"

text \<open>The client answers a challenge with credentials that the user's password gives.\<close>

definition digest_client :: "reg_link \<Rightarrow> pbx_user \<Rightarrow> bool" where
  "digest_client k u \<longleftrightarrow>
     (\<forall>req ch. let req' = lkAuth k req (ChallengeText (lkDigest k) ch)
        in reqFrom req' = reqFrom req \<and> reqMethod req' = reqMethod req \<and>
           reqHdr req' ''Contact'' = reqHdr req ''Contact'' \<and> reqHdr req' ''Expires'' = reqHdr req ''Expires'' \<and>
           (\<exists>h. first_header (reqHdr req') ''Authorization'' = Some h \<and> credentials_match (lkDigest k) (reqMethod req) u h))"

lemma received_fields [simp]:
  "regTo (received k req) = reqFrom req" "reqHdr (received k req) = reqHdr req" "reqMethod (received k req) = reqMethod req"
  "regContact (received k req) = Option.bind (first_header (reqHdr req) ''Contact'') (lkContact k)"
  by (simp_all add: received_def request.defs register_message.defs)

lemma first_header_cong: "h n = h' n \<Longrightarrow> first_header h n = first_header h' n"
  by (simp add: first_header_def)

lemma onRegister_challenge:
  assumes "users p (uUser (regTo req)) = Some u" "\<not> register_allowed dg req p"
  shows "\<exists>ch. snd (onRegister dg now req p) = \<lparr>raCode = 401, raContact = None, raChallenge = Some (ChallengeText dg ch)\<rparr>"
    "users (fst (onRegister dg now req p)) = users p" "pcfg (fst (onRegister dg now req p)) = pcfg p"
    "regs (fst (onRegister dg now req p)) = regs p"
  using assms by (auto simp: onRegister_def register_allowed_def authorized_def Let_def request.defs split: option.splits)

lemma allowed_no_challenge: "register_allowed dg req p \<Longrightarrow> raChallenge (snd (onRegister dg now req p)) = None"
  by (auto simp: onRegister_def register_allowed_def authorized_def Let_def request.defs split: option.splits prod.splits)

text \<open>However the registrar is configured, the exchange of a client that knows its password is accepted.\<close>

lemma exchange_accepted:
  assumes "users p (uUser (reqFrom req)) = Some u" "digest_client k u"
  defines "e \<equiv> binding_expires (received k req)" and "a \<equiv> regContact (received k req)"
  shows "regs (fst (exchange_with k now req p)) = (regs p)(uUser (reqFrom req) := (if e = 0 then None else map_option fst a))"
    "snd (exchange_with k now req p) = \<lparr>raCode = 200,
       raContact = (if e > 0 then map_option (\<lambda>c. (fst c, Itoa e)) a else None), raChallenge = None\<rparr>"
    "raChallenge (snd (onRegister (lkDigest k) now (received k req) p)) = None \<Longrightarrow>
       exchange_with k now req p = onRegister (lkDigest k) now (received k req) p"
    "raChallenge (snd (onRegister (lkDigest k) now (received k req) p)) \<noteq> None \<Longrightarrow>
       raCode (snd (onRegister (lkDigest k) now (received k req) p)) = 401"
    "users (fst (exchange_with k now req p)) = users p"
proof -
  let ?q = "received k req"
  obtain p1 r1 where r1: "onRegister (lkDigest k) now ?q p = (p1, r1)" by fastforce
  have us: "users (fst (onRegister dg now q p')) = users p'" for dg q and p' :: registrar
    by (auto simp: onRegister_def authorized_def Let_def split: option.splits prod.splits)
  have acc: "regs (fst (onRegister dg now q p')) = (regs p')(uUser (regTo q) := (if binding_expires q = 0 then None else map_option fst (regContact q)))
      \<and> snd (onRegister dg now q p') = \<lparr>raCode = 200,
       raContact = (if binding_expires q > 0 then map_option (\<lambda>c. (fst c, Itoa (binding_expires q))) (regContact q) else None),
       raChallenge = None\<rparr>" if "register_allowed dg q p'" for dg q and p' :: registrar
    using onRegister_allowed [OF that, of now] allowed_no_challenge [OF that, of now] by simp
  show "users (fst (exchange_with k now req p)) = users p"
    by (simp add: exchange_with_def r1 us split: option.split)
      (metis us r1 fst_conv)
  show "raChallenge (snd (onRegister (lkDigest k) now ?q p)) = None \<Longrightarrow>
       exchange_with k now req p = onRegister (lkDigest k) now ?q p"
    by (simp add: exchange_with_def r1)
  have "regs (fst (exchange_with k now req p)) = (regs p)(uUser (reqFrom req) := (if e = 0 then None else map_option fst a)) \<and>
    snd (exchange_with k now req p) = \<lparr>raCode = 200,
       raContact = (if e > 0 then map_option (\<lambda>c. (fst c, Itoa e)) a else None), raChallenge = None\<rparr> \<and>
    (raChallenge r1 \<noteq> None \<longrightarrow> raCode r1 = 401)"
  proof (cases "register_allowed (lkDigest k) ?q p")
    case True
    then show ?thesis using acc [OF True] r1 by (simp add: exchange_with_def e_def a_def)
  next
    case False
    obtain ch where ch: "r1 = \<lparr>raCode = 401, raContact = None, raChallenge = Some (ChallengeText (lkDigest k) ch)\<rparr>"
      and p1: "users p1 = users p" "regs p1 = regs p"
      using onRegister_challenge [OF _ False, of u now] assms(1) r1 by auto
    let ?r = "lkAuth k req (ChallengeText (lkDigest k) ch)"
    have r: "reqFrom ?r = reqFrom req" "reqMethod ?r = reqMethod req" "reqHdr ?r ''Contact'' = reqHdr req ''Contact''"
      "reqHdr ?r ''Expires'' = reqHdr req ''Expires''"
      "\<exists>h. first_header (reqHdr ?r) ''Authorization'' = Some h \<and> credentials_match (lkDigest k) (reqMethod req) u h"
      using assms(2) by (simp_all add: digest_client_def Let_def)
    have al: "register_allowed (lkDigest k) (received k ?r) p1"
      using assms(1) r p1 by (simp add: register_allowed_def)
    have "regContact (received k ?r) = a" "binding_expires (received k ?r) = e"
      using r(3,4) by (simp_all add: a_def e_def binding_expires_def first_header_def)
    then show ?thesis using acc [OF al] ch r1 r p1 by (simp add: exchange_with_def)
  qed
  then show "regs (fst (exchange_with k now req p)) = (regs p)(uUser (reqFrom req) := (if e = 0 then None else map_option fst a))"
    "snd (exchange_with k now req p) = \<lparr>raCode = 200,
       raContact = (if e > 0 then map_option (\<lambda>c. (fst c, Itoa e)) a else None), raChallenge = None\<rparr>"
    "raChallenge (snd (onRegister (lkDigest k) now ?q p)) \<noteq> None \<Longrightarrow>
       raCode (snd (onRegister (lkDigest k) now ?q p)) = 401"
    using r1 by simp_all
qed

lemma register_exchange_accepted:
  assumes "users p (uUser (reqFrom req)) = Some u" "digest_client k u"
  shows "\<exists>d2. register_exchange (registrar_env k now p env) req d = (d2, Inr (reg_view (snd (exchange_with k now req p)))) \<and>
    rcfg d2 = rcfg d"
proof (cases "raChallenge (snd (onRegister (lkDigest k) now (received k req) p)) = None")
  case True
  have "exchange_with k now req p = onRegister (lkDigest k) now (received k req) p"
    by (rule exchange_accepted(3) [OF assms True])
  moreover have "raCode (snd (exchange_with k now req p)) = 200"
    by (simp add: exchange_accepted(2) [OF assms])
  ultimately show ?thesis by (simp add: register_exchange_def registrar_env_def reg_view_def)
next
  case False
  have "raCode (snd (onRegister (lkDigest k) now (received k req) p)) = 401"
    by (rule exchange_accepted(4) [OF assms False])
  then show ?thesis by (simp add: register_exchange_def registrar_env_def reg_view_def)
qed

lemma TrimSpace_Itoa: "0 \<le> e \<Longrightarrow> TrimSpace (Itoa e) = Itoa e"
proof (rule TrimSpace_plain)
  assume e: "0 \<le> e"
  have "\<not> is_space c" if "c \<in> set (Itoa e)" for c
  proof
    assume "is_space c"
    then have "\<not> is_digit c" by (auto simp: is_space_def is_digit_def)
    with Itoa_nonneg_plain [OF e] that show False by blast
  qed
  then show "list_all (\<lambda>c. \<not> is_space c) (Itoa e)" by (simp add: list_all_iff)
qed

lemma request_binding:
  assumes "lkContact k (rcContact (rcfg d)) = Some (a, None)" "0 \<le> e" "e < 2 ^ 63"
  shows "regContact (received k (register_request n e d)) = Some (a, None)"
    "binding_expires (received k (register_request n e d)) = e"
proof -
  have "Atoi (Itoa e) = (e, True)" using assms(2,3) by (intro Atoi_Itoa) simp_all
  then show "regContact (received k (register_request n e d)) = Some (a, None)"
    "binding_expires (received k (register_request n e d)) = e"
    using assms(1) TrimSpace_Itoa [OF assms(2)]
    by (simp_all add: register_request_def first_header_def no_headers_def binding_expires_def)
qed

text \<open>One registration, and its effect on both sides.\<close>

lemma register_with_registrar:
  assumes user: "users p (uUser (rcAor (rcfg d))) = Some u" and client: "digest_client k u"
    and contact: "lkContact k (rcContact (rcfg d)) = Some (a, None)" "uHost a = rcContactHost (rcfg d)" "uPort a = rcContactPort (rcfg d)"
    and e: "0 \<le> e" "e < 2 ^ 63" and env: "limiterErr env = None"
  shows "snd (register (registrar_env k now p env) e d) = None"
    "registered (fst (register (registrar_env k now p env) e d)) = (e \<noteq> 0)"
    "e \<noteq> 0 \<Longrightarrow> grantedFor (fst (register (registrar_env k now p env) e d)) = e"
    "regs (register_at k now e d p) = (regs p)(uUser (rcAor (rcfg d)) := (if e = 0 then None else Some a))"
    "users (register_at k now e d p) = users p"
proof -
  let ?d = "d\<lparr>regCSeq := regCSeq d + 1\<rparr>"
  let ?req = "register_request (regCSeq d + 1) e d"
  have from': "reqFrom ?req = rcAor (rcfg d)" by (simp add: register_request_def)
  note acc = exchange_accepted [of p ?req u k now, unfolded from', OF user client]
  have bind: "regContact (received k ?req) = Some (a, None)" "binding_expires (received k ?req) = e"
    by (rule request_binding [OF contact(1) e])+
  show "regs (register_at k now e d p) = (regs p)(uUser (rcAor (rcfg d)) := (if e = 0 then None else Some a))"
    "users (register_at k now e d p) = users p"
    using acc(1,5) bind by (simp_all add: register_at_def)
  have rq: "register_request (regCSeq d + 1) e ?d = ?req" by (simp add: register_request_def)
  have us: "users p (uUser (reqFrom ?req)) = Some u" by (simp add: from' user)
  obtain d2 where d2: "register_exchange (registrar_env k now p env) (register_request (regCSeq d + 1) e ?d) ?d =
      (d2, Inr (reg_view (snd (exchange_with k now ?req p))))"
    using register_exchange_accepted [OF us client] unfolding rq by blast
  have lim: "limiterErr (registrar_env k now p env) = None" using env by (simp add: registrar_env_def)
  have view: "reg_view (snd (exchange_with k now ?req p)) =
      \<lparr>rCode = 200, rContacts = (if e > 0 then [(rcContactHost (rcfg d), rcContactPort (rcfg d), Some (Itoa e))] else []), rExpires = None\<rparr>"
    using contact(2,3) unfolding acc(2) bind by (simp add: reg_view_def)
  have at: "e \<noteq> 0 \<Longrightarrow> Atoi (Itoa e) = (e, True)" using e by (intro Atoi_Itoa) simp_all
  have granted: "grantedExpires (reg_view (snd (exchange_with k now ?req p))) (rcContactHost (rcfg d)) (rcContactPort (rcfg d)) e = e"
    if "e \<noteq> 0" using that e at unfolding view by (simp add: grantedExpires_def positive_number_def)
  note eq = register_eq [OF lim d2]
  show "snd (register (registrar_env k now p env) e d) = None"
    "registered (fst (register (registrar_env k now p env) e d)) = (e \<noteq> 0)"
    "e \<noteq> 0 \<Longrightarrow> grantedFor (fst (register (registrar_env k now p env) e d)) = e"
    using granted unfolding eq by (simp_all add: view scheduleRefresh_def Let_def)
qed

text \<open>C31: A device that starts is registered at the PBX and one that is destroyed is not: whatever the PBX is
  configured to challenge, a client that knows its password gets the binding of its user set to its
  Contact address for the lifetime it asked for and records exactly that lifetime, and after
  \<open>Destroy\<close> the binding is gone and nothing else in the registrar has changed.\<close>

theorem register_roundtrip:
  assumes user: "users p (uUser (rcAor c)) = Some u" and client: "digest_client k u"
    and contact: "lkContact k (rcContact c) = Some (a, None)" "uHost a = rcContactHost c" "uPort a = rcContactPort c"
    and cfg: "\<not> NoRegister c" "second \<le> rcExpires c" "rcExpires c div second < 2 ^ 63"
    and env: "limiterErr env = None" "openErr env = None"
    and up: "(d1, p1) = start_at k now env (new_reg c, p)"
    and down: "(d2, p2) = destroy_at k later env (d1, p1)"
  shows "devStarted d1 \<and> registered d1 \<and> grantedFor d1 = rcExpires c div second \<and>
    regs p1 = (regs p)(uUser (rcAor c) \<mapsto> a) \<and>
    \<not> devStarted d2 \<and> \<not> registered d2 \<and> regs p2 = (regs p)(uUser (rcAor c) := None)"
proof -
  let ?e = "rcExpires c div second"
  let ?env = "registrar_env k now p env"
  obtain d0 where d0: "open_device env (new_reg c) = (d0, None)" "open_device ?env (new_reg c) = (d0, None)" "rcfg d0 = c"
    using env(2) by (auto simp: open_device_def registrar_env_def new_reg_def)
  have e: "0 \<le> ?e" "?e \<noteq> 0"
    using cfg(2) pos_imp_zdiv_pos_iff [of second "rcExpires c"] by (simp_all add: pos_imp_zdiv_nonneg_iff)
  note r = register_with_registrar [where d = d0 and p = p and e = ?e and now = now, unfolded d0(3),
      OF user client contact e(1) cfg(3) env(1)]
  obtain d' where d': "register ?env ?e d0 = (d', None)" "registered d'" "grantedFor d' = ?e" "rcfg d' = c"
    using r(1-3) e(2) register_fields [of ?env ?e d0] d0(3) by (metis prod.collapse)
  have d1: "d1 = d'\<lparr>devStarted := True\<rparr>" "p1 = register_at k now ?e d0 p"
    using up d0 d' cfg(1) env by (simp_all add: start_at_def Start_device_def new_reg_def Register_def)
  let ?d = "d1\<lparr>devStarted := False, regTimer := None\<rparr>"
  have us: "users p1 (uUser (rcAor c)) = Some u" "rcfg d1 = c" "regs p1 = (regs p)(uUser (rcAor c) \<mapsto> a)"
    using r(4,5) e(2) user d' d1 by simp_all
  note s = register_with_registrar [where p = p1 and e = 0 and now = later and u = u and k = k and a = a and env = env]
  have d2: "d2 = close_device (fst (register (registrar_env k later p1 env) 0 ?d))" "p2 = register_at k later 0 d1 p1"
    using down d1 d' env by (simp_all add: destroy_at_def Destroy_def)
  have "\<not> registered (fst (register (registrar_env k later p1 env) 0 ?d))"
    using s(2) [of ?d] us client contact env(1) by simp
  moreover have "regs p2 = (regs p1)(uUser (rcAor c) := None)"
    using s(4) [of d1] us client contact env(1) d2(2) by simp
  moreover have "\<not> devStarted (fst (register (registrar_env k later p1 env) 0 ?d))"
    using register_fields [of "registrar_env k later p1 env" 0 ?d] by simp
  ultimately show ?thesis using d' d1(1) d2(1) us by (simp add: close_device_def)
qed

section \<open>A concrete registrar\<close>

definition demo_user :: pbx_user where
  "demo_user = \<lparr>uName = ''a'', uPassword = ''secret'', uExt = ''1001''\<rparr>"

definition demo_registrar :: registrar where
  "demo_registrar = Start_registrar ''10.0.0.9'' \<lparr>pbxDomain = [], pbxUsers = [demo_user], AuthRegister = True, AuthInvite = False\<rparr>"

definition demo_contact :: Uri where
  "demo_contact = \<lparr>uScheme = ''sip'', uUser = ''a'', uHost = ''10.0.0.1'', uPort = 4000\<rparr>"

text \<open>A digest that is the password itself.\<close>

definition demo_link_reg :: reg_link where
  "demo_link_reg = \<lparr>
     lkDigest = \<lparr>ParseCredentials = (\<lambda>h. Some \<lparr>crUsername = ''a'', crRealm = [], crNonce = [], crOpaque = [],
                   crAlgorithm = [], crQOP = [], crURI = [], crCnonce = [], crNc = 0, crResponse = h\<rparr>),
                 DigestResponse = (\<lambda>_ opts. Some (doPassword opts)), ChallengeText = chRealm\<rparr>,
     lkAuth = (\<lambda>req _. req\<lparr>reqHdr := append_header ''Authorization'' ''secret'' (remove_header ''Authorization'' (reqHdr req))\<rparr>),
     lkContact = (\<lambda>v. if v = ''<sip:a@10.0.0.1:4000>'' then Some (demo_contact, None) else None)\<rparr>"

lemma demo_reg_link_ok:
  "users demo_registrar (uUser (rcAor demo_reg)) = Some demo_user" "digest_client demo_link_reg demo_user"
  "lkContact demo_link_reg (rcContact demo_reg) = Some (demo_contact, None)"
  "uHost demo_contact = rcContactHost demo_reg" "uPort demo_contact = rcContactPort demo_reg"
  "\<not> NoRegister demo_reg" "second \<le> rcExpires demo_reg" "rcExpires demo_reg div second < 2 ^ 63"
  "limiterErr (demo_reg_env None) = None" "openErr (demo_reg_env None) = None"
  by (simp_all add: demo_registrar_def Start_registrar_def add_user_def demo_user_def demo_reg_def demo_reg_env_def
      demo_link_reg_def demo_contact_def digest_client_def credentials_match_def first_header_def append_header_def
      remove_header_def Let_def)

theorem register_roundtrip_witness:
  "Registered ''a'' (snd (start_at demo_link_reg 7 (demo_reg_env None) (new_reg demo_reg, demo_registrar))) \<and>
   \<not> Registered ''a'' (snd (destroy_at demo_link_reg 8 (demo_reg_env None)
       (start_at demo_link_reg 7 (demo_reg_env None) (new_reg demo_reg, demo_registrar))))"
proof -
  let ?s = "start_at demo_link_reg 7 (demo_reg_env None) (new_reg demo_reg, demo_registrar)"
  let ?t = "destroy_at demo_link_reg 8 (demo_reg_env None) ?s"
  have "regs (snd ?s) = (regs demo_registrar)(uUser (rcAor demo_reg) \<mapsto> demo_contact) \<and>
      regs (snd ?t) = (regs demo_registrar)(uUser (rcAor demo_reg) := None)"
    using register_roundtrip [OF demo_reg_link_ok, of "fst ?s" "snd ?s" 7 "fst ?t" "snd ?t" 8] by simp
  then show ?thesis by (simp add: Registered_def demo_reg_def)
qed

end
