(* ===== verification/CallMachine.thy ===== *)
theory CallMachine
  imports Calls
begin

text \<open>
  The call under every interleaving. \<open>finish\<close> is one section under the lock and five more
  steps outside it (\<open>stopSession\<close>, \<open>removeCall\<close>, \<open>closeMedia\<close>, the \<open>CallEnd\<close>
  event, \<open>close(done)\<close>), which any other thread can run between. A step of the machine is
  one such piece of code; the guards are the code's own, so the machine allows more orders than
  the program's threads produce and every invariant holds for the program.
\<close>

datatype call_event =
    CallEnd CallDirection duration EndedBy
  | MediaReport CallDirection Stats
  | Saved

record sys =
  call :: Call
  fin :: "(finishing \<times> nat) option"   \<comment> \<open>the ending thread and how many steps after the lock it has done\<close>
  listed :: bool                          \<comment> \<open>in the device's map of calls\<close>
  events :: "call_event list"             \<comment> \<open>what the observer got, latest last\<close>

definition closeMedia :: "bool \<Rightarrow> Call \<Rightarrow> Call \<times> call_event list" where
  "closeMedia conn c =
     (case media c of None \<Rightarrow> (c, [])
      | Some s \<Rightarrow>
          (let (s', st, sh) = Close s;
               (c', save) = autoSave (c\<lparr>media := Some s'\<rparr>)
           in (c', (if conn then [MediaReport (cdir c) st] else []) @ (if save then [Saved] else []))))"

definition begin_finish :: "EndedBy \<Rightarrow> int \<Rightarrow> string \<Rightarrow> time \<Rightarrow> sys \<Rightarrow> sys" where
  "begin_finish by' st why' now s =
     (case finish_lock by' st why' now (call s) of
        (c, None) \<Rightarrow> s
      | (c, Some f) \<Rightarrow> s\<lparr>call := c, fin := Some (f, 0)\<rparr>)"

definition finish_tail :: "finishing \<Rightarrow> nat \<Rightarrow> sys \<Rightarrow> sys" where
  "finish_tail f k s =
     (let s' = s\<lparr>fin := Some (f, Suc k)\<rparr>
      in if k = 0 then s'\<lparr>call := stopSession (call s)\<rparr>
         else if k = 1 then s'\<lparr>listed := False\<rparr>
         else if k = 2 then (let (c, ev) = closeMedia (wasConnected f) (call s)
                             in s'\<lparr>call := c, events := events s @ ev\<rparr>)
         else if k = 3 then (if wasConnected f
                             then s'\<lparr>events := events s @ [CallEnd (cdir (call s)) (finDuration f) (finBy f)]\<rparr> else s')
         else s'\<lparr>call := (call s)\<lparr>doneCloses := doneCloses (call s) + 1\<rparr>\<rparr>)"

abbreviation upd :: "(Call \<Rightarrow> Call) \<Rightarrow> sys \<Rightarrow> sys" where
  "upd f s \<equiv> s\<lparr>call := f (call s)\<rparr>"

inductive call_step :: "sys \<Rightarrow> sys \<Rightarrow> bool" where
  cs_ringing: "call_step s (upd (markRinging t) s)"
| cs_connected: "call_step s (upd (markConnected t) s)"
| cs_finish: "call_step s (begin_finish by' st why' now s)"
| cs_tail: "fin s = Some (f, k) \<Longrightarrow> k < 5 \<Longrightarrow> call_step s (finish_tail f k s)"
| cs_decide: "call_step s (upd (\<lambda>c. fst (decide d c)) s)"
| cs_consume: "call_step s (upd (\<lambda>c. c\<lparr>pendingDecision := None\<rparr>) s)"
| cs_cancel: "call_step s (upd (requestCancel by') s)"
| cs_set_session: "call_step s (upd (set_session e r) s)"
| cs_refreshed: "call_step s (upd sessionRefreshed s)"
| cs_prack: "call_step s (upd (\<lambda>c. if prackCloses c > 0 then c else c\<lparr>prackCloses := 1\<rparr>) s)"
| cs_bye_with: "call_step s (upd (\<lambda>c. c\<lparr>byeBy := by', byeReason := why'\<rparr>) s)"
| cs_hold: "call_step s (upd (\<lambda>c. c\<lparr>localHold := lh, remoteHold := rh\<rparr>) s)"
| cs_media: "media (call s) = Some m \<Longrightarrow> closed m' = closed m \<Longrightarrow> call_step s (upd (\<lambda>c. c\<lparr>media := Some m'\<rparr>) s)"
| cs_refer: "call_step s (upd (\<lambda>c. c\<lparr>xfer := Some \<lparr>xferStatus = 0, xferCloses = 0\<rparr>\<rparr>) s)"
| cs_notify: "call_step s (upd (\<lambda>c. c\<lparr>xfer := map_option (progress_update st final) (xfer c)\<rparr>) s)"
| cs_mark_failed: "call_step s (upd mark_failed s)"
| cs_late_save: "state (call s) = StateEnded \<Longrightarrow> autoSave (call s) = (c, save) \<Longrightarrow>
    call_step s (s\<lparr>call := c, events := events s @ (if save then [Saved] else [])\<rparr>)"

inductive_cases call_stepE: "call_step s s'"

definition sys_init :: "sys \<Rightarrow> bool" where
  "sys_init s \<longleftrightarrow> (\<exists>d now m mode dr lbl.
      (call s = (newCall d now)\<lparr>callID := lbl\<rparr> \<or>
       call s = (useMedia m mode dr (newCall d now))\<lparr>callID := lbl\<rparr> \<and> \<not> closed m)) \<and>
    fin s = None \<and> events s = []"

inductive call_reach :: "sys \<Rightarrow> sys \<Rightarrow> bool" for s0 where
  cr_init: "call_reach s0 s0"
| cr_step: "call_reach s0 s \<Longrightarrow> call_step s s' \<Longrightarrow> call_reach s0 s'"

section \<open>The invariant\<close>

definition channels_ok :: "Call \<Rightarrow> bool" where
  "channels_ok c \<longleftrightarrow>
     ringingCloses c = (if state c = StateCalling then 0 else 1) \<and>
     connectedCloses c = (if tAnswer c = None then 0 else 1) \<and>
     cancelCloses c \<le> 1 \<and> prackCloses c \<le> 1 \<and>
     (\<forall>p. xfer c = Some p \<longrightarrow> xferCloses p \<le> 1)"

definition times_ok :: "Call \<Rightarrow> bool" where
  "times_ok c \<longleftrightarrow>
     (state c = StateConnected \<longrightarrow> tAnswer c \<noteq> None) \<and>
     (state c = StateCalling \<longrightarrow> tRing c = None) \<and>
     (state c \<noteq> StateEnded \<longrightarrow> (tAnswer c \<noteq> None \<longleftrightarrow> state c = StateConnected) \<and> tEnd c = None) \<and>
     (state c = StateEnded \<longrightarrow> tEnd c \<noteq> None) \<and>
     (tAnswer c \<noteq> None \<longrightarrow> status c = 200)"

text \<open>The thread that ends the call: which of its steps are done, and what each has left behind.\<close>

definition fin_ok :: "sys \<Rightarrow> bool" where
  "fin_ok s \<longleftrightarrow>
     (case fin s of
        None \<Rightarrow> state (call s) \<noteq> StateEnded \<and> doneCloses (call s) = 0 \<and>
          \<not> (\<exists>d t b. CallEnd d t b \<in> set (events s))
      | Some (f, k) \<Rightarrow> state (call s) = StateEnded \<and> k \<le> 5 \<and>
          (wasConnected f \<longleftrightarrow> tAnswer (call s) \<noteq> None) \<and>
          doneCloses (call s) = (if k = 5 then 1 else 0) \<and>
          (k \<ge> 1 \<longrightarrow> (\<forall>t. sess (call s) = Some t \<longrightarrow> armed t = None)) \<and>
          (k \<ge> 2 \<longrightarrow> \<not> listed s) \<and>
          (k \<ge> 3 \<longrightarrow> (\<forall>m. media (call s) = Some m \<longrightarrow> closed m)) \<and>
          length (filter (\<lambda>e. \<exists>d t b. e = CallEnd d t b) (events s)) =
            (if k \<ge> 4 \<and> wasConnected f then 1 else 0))"

definition saved_ok :: "sys \<Rightarrow> bool" where
  "saved_ok s \<longleftrightarrow> count_list (events s) Saved = (if saved (call s) then 1 else 0) \<and>
     (saved (call s) \<longrightarrow> state (call s) = StateEnded)"

definition sys_ok :: "sys \<Rightarrow> bool" where
  "sys_ok s \<longleftrightarrow> channels_ok (call s) \<and> times_ok (call s) \<and> fin_ok s \<and> saved_ok s"

lemma newCall_fields [simp]:
  "state (newCall d now) = StateCalling" "ringingCloses (newCall d now) = 0" "connectedCloses (newCall d now) = 0"
  "doneCloses (newCall d now) = 0" "tAnswer (newCall d now) = None" "tRing (newCall d now) = None"
  "tEnd (newCall d now) = None" "saved (newCall d now) = False" "cancelCloses (newCall d now) = 0"
  "prackCloses (newCall d now) = 0" "xfer (newCall d now) = None" "sess (newCall d now) = None"
  "media (newCall d now) = None"
  by (simp_all add: newCall_def)

lemma sys_init_ok: "sys_init s \<Longrightarrow> sys_ok s"
  by (auto simp: sys_init_def sys_ok_def channels_ok_def times_ok_def fin_ok_def saved_ok_def useMedia_def)

lemmas sys_defs = sys_ok_def channels_ok_def times_ok_def fin_ok_def saved_ok_def

lemma sys_ok_ringing: "sys_ok s \<Longrightarrow> sys_ok (upd (markRinging t) s)"
  by (cases "state (call s)") (auto simp: sys_defs markRinging_def split: option.splits)

lemma sys_ok_connected: "sys_ok s \<Longrightarrow> sys_ok (upd (markConnected t) s)"
  by (cases "state (call s)") (auto simp: sys_defs markConnected_def split: option.splits)

lemma begin_finish_cases:
  "begin_finish by' st why' now s =
     (if state (call s) = StateEnded then s
      else s\<lparr>call := fst (finish_lock by' st why' now (call s)),
        fin := Some (the (snd (finish_lock by' st why' now (call s))), 0)\<rparr>)"
  by (simp add: begin_finish_def finish_lock_def Let_def)

lemma finish_lock_call:
  assumes "state c \<noteq> StateEnded" and c'_def: "c' = fst (finish_lock by' st why' now c)"
  shows "state c' = StateEnded" "ringingCloses c' = (if state c = StateCalling then ringingCloses c + 1 else ringingCloses c)"
    "connectedCloses c' = connectedCloses c" "doneCloses c' = doneCloses c" "tAnswer c' = tAnswer c" "tRing c' = tRing c"
    "tEnd c' = Some now" "cancelCloses c' = cancelCloses c" "prackCloses c' = prackCloses c" "xfer c' = xfer c"
    "sess c' = sess c" "saved c' = saved c" "media c' = media c"
    "status c' = (if st \<noteq> 0 \<and> state c \<noteq> StateConnected then st else status c)"
    "wasConnected (the (snd (finish_lock by' st why' now c))) \<longleftrightarrow> state c = StateConnected"
  using assms(1) by (simp_all add: c'_def finish_lock_def Let_def)

lemma no_end_events: "\<not> (\<exists>d t b. CallEnd d t b \<in> set es) \<Longrightarrow> filter (\<lambda>e. \<exists>d t b. e = CallEnd d t b) es = []"
  by (auto simp: filter_empty_conv)

lemma fin_ok_None: "fin_ok s \<Longrightarrow> state (call s) \<noteq> StateEnded \<Longrightarrow>
  fin s = None \<and> doneCloses (call s) = 0 \<and> \<not> (\<exists>d t b. CallEnd d t b \<in> set (events s))"
  by (auto simp: fin_ok_def split: option.splits)

lemma sys_ok_finish:
  assumes ok: "sys_ok s"
  shows "sys_ok (begin_finish by' st why' now s)"
proof (cases "state (call s) = StateEnded")
  case False
  have f: "fin s = None" "doneCloses (call s) = 0" "\<not> (\<exists>d t b. CallEnd d t b \<in> set (events s))"
    using fin_ok_None [of s] ok False by (auto simp: sys_ok_def)
  have t: "tAnswer (call s) \<noteq> None \<longleftrightarrow> state (call s) = StateConnected" "tAnswer (call s) \<noteq> None \<longrightarrow> status (call s) = 200"
    using ok False by (auto simp: sys_ok_def times_ok_def)
  note c = finish_lock_call [OF False refl, of by' st why' now]
  have "channels_ok (fst (finish_lock by' st why' now (call s)))"
    using ok False by (auto simp: sys_ok_def channels_ok_def c)
  moreover have "times_ok (fst (finish_lock by' st why' now (call s)))"
    using t by (auto simp: times_ok_def c)
  moreover have "saved_ok (begin_finish by' st why' now s)"
    using ok False by (simp add: sys_ok_def saved_ok_def begin_finish_cases c)
  moreover have "fin_ok (begin_finish by' st why' now s)"
    using f t no_end_events [OF f(3)] False by (simp add: fin_ok_def begin_finish_cases c)
  ultimately show ?thesis using False by (simp add: sys_ok_def begin_finish_cases)
qed (use ok in \<open>simp add: begin_finish_cases\<close>)

lemma autoSave_cases:
  "autoSave c = (c, False) \<or> autoSave c = (c\<lparr>saved := True\<rparr>, True) \<and> \<not> saved c \<and> state c = StateEnded"
  unfolding autoSave_def Let_def by (simp split: if_split)

lemma Close_closed: "closed (fst (Close s))"
  by (simp add: Close_def)

lemma closeMedia_cases:
  "closeMedia conn c = (c, []) \<and> media c = None \<or>
   (\<exists>m ev. media c \<noteq> None \<and> closed m \<and> (\<forall>d t b. CallEnd d t b \<notin> set ev) \<and> Saved \<notin> set ev \<and>
     (closeMedia conn c = (c\<lparr>media := Some m\<rparr>, ev) \<or>
      closeMedia conn c = (c\<lparr>media := Some m, saved := True\<rparr>, ev @ [Saved]) \<and> \<not> saved c \<and> state c = StateEnded))"
proof (cases "media c")
  case (Some s)
  obtain s' st sh where cl: "Close s = (s', st, sh)" by (cases "Close s") auto
  have "closed s'" using Close_closed [of s] cl by simp
  with autoSave_cases [of "c\<lparr>media := Some s'\<rparr>"] show ?thesis
    by (intro disjI2 exI [of _ s'] exI [of _ "if conn then [MediaReport (cdir c) st] else []"])
      (auto simp: closeMedia_def Some cl)
qed (simp add: closeMedia_def)

lemma sys_ok_tail:
  assumes ok: "sys_ok s" and f: "fin s = Some (f, k)" "k < 5"
  shows "sys_ok (finish_tail f k s)"
proof -
  have st: "state (call s) = StateEnded" "wasConnected f \<longleftrightarrow> tAnswer (call s) \<noteq> None"
    using ok f by (auto simp: sys_ok_def fin_ok_def)
  consider "k = 0" | "k = 1" | "k = 2" | "k = 3" | "k = 4" using f(2) by linarith
  then show ?thesis
  proof cases
    case 1
    with ok f st show ?thesis by (auto simp: sys_defs finish_tail_def stopSession_def)
  next
    case 2
    with ok f st show ?thesis by (auto simp: sys_defs finish_tail_def)
  next
    case 3
    have nosplit: "filter P (es @ [Saved]) = filter P es" if "\<not> P Saved" for P and es :: "call_event list"
      using that by simp
    from closeMedia_cases [of "wasConnected f" "call s"] show ?thesis
    proof (elim disjE exE conjE)
      assume "closeMedia (wasConnected f) (call s) = (call s, [])" "media (call s) = None"
      with ok f st 3 show ?thesis by (auto simp: sys_defs finish_tail_def)
    next
      fix m ev
      assume "closed m" "\<forall>d t b. CallEnd d t b \<notin> set ev" "Saved \<notin> set ev"
        "closeMedia (wasConnected f) (call s) = ((call s)\<lparr>media := Some m\<rparr>, ev)"
      with ok f st 3 no_end_events [of ev] show ?thesis
        by (simp add: sys_defs finish_tail_def count_notin)
    next
      fix m ev
      assume "closed m" "\<forall>d t b. CallEnd d t b \<notin> set ev" "Saved \<notin> set ev"
        "closeMedia (wasConnected f) (call s) = ((call s)\<lparr>media := Some m, saved := True\<rparr>, ev @ [Saved])"
        "\<not> saved (call s)"
      with ok f st 3 no_end_events [of ev] show ?thesis
        by (simp add: sys_defs finish_tail_def count_notin)
    qed
  next
    case 4
    with ok f st show ?thesis by (auto simp: sys_defs finish_tail_def)
  next
    case 5
    with ok f st show ?thesis by (auto simp: sys_defs finish_tail_def)
  qed
qed

lemma sys_ok_saved:
  assumes ok: "sys_ok s" and c: "\<not> saved (call s)" "state (call s) = StateEnded"
  shows "sys_ok (s\<lparr>call := (call s)\<lparr>saved := True\<rparr>, events := events s @ [Saved]\<rparr>)"
proof -
  obtain f k where fk: "fin s = Some (f, k)"
    using ok c(2) by (auto simp: sys_ok_def fin_ok_def split: option.splits)
  have "fin_ok (s\<lparr>call := (call s)\<lparr>saved := True\<rparr>, events := events s @ [Saved]\<rparr>)"
    using ok by (simp add: sys_ok_def fin_ok_def fk)
  moreover have "saved_ok (s\<lparr>call := (call s)\<lparr>saved := True\<rparr>, events := events s @ [Saved]\<rparr>)"
    using ok c by (simp add: sys_ok_def saved_ok_def)
  moreover have "channels_ok ((call s)\<lparr>saved := True\<rparr>)" "times_ok ((call s)\<lparr>saved := True\<rparr>)"
    using ok by (simp_all add: sys_ok_def channels_ok_def times_ok_def)
  ultimately show ?thesis by (simp add: sys_ok_def)
qed

lemma sys_ok_late_save:
  assumes "sys_ok s" "autoSave (call s) = (c, save)"
  shows "sys_ok (s\<lparr>call := c, events := events s @ (if save then [Saved] else [])\<rparr>)"
  using autoSave_cases [of "call s"]
proof (elim disjE conjE)
  assume "autoSave (call s) = (call s, False)"
  with assms show ?thesis by (cases s) auto
next
  assume "autoSave (call s) = ((call s)\<lparr>saved := True\<rparr>, True)" "\<not> saved (call s)" "state (call s) = StateEnded"
  with assms sys_ok_saved [OF assms(1)] show ?thesis by simp
qed

text \<open>The remaining steps change nothing the invariant speaks of, or keep it by their own guard.\<close>

definition core :: "Call \<Rightarrow> State \<times> nat \<times> nat \<times> nat \<times> time option \<times> time option \<times> time option \<times> int \<times> bool" where
  "core c = (state c, ringingCloses c, connectedCloses c, doneCloses c, tAnswer c, tRing c, tEnd c, status c, saved c)"

definition idle_timer :: "Call \<Rightarrow> bool" where
  "idle_timer c \<longleftrightarrow> (\<forall>t. sess c = Some t \<longrightarrow> armed t = None)"

definition media_done :: "Call \<Rightarrow> bool" where
  "media_done c \<longleftrightarrow> (\<forall>m. media c = Some m \<longrightarrow> closed m)"

definition guarded :: "Call \<Rightarrow> bool" where
  "guarded c \<longleftrightarrow> cancelCloses c \<le> 1 \<and> prackCloses c \<le> 1 \<and> (\<forall>p. xfer c = Some p \<longrightarrow> xferCloses p \<le> 1)"

definition neutral :: "Call \<Rightarrow> Call \<Rightarrow> bool" where
  "neutral c c' \<longleftrightarrow> core c' = core c \<and> (guarded c \<longrightarrow> guarded c') \<and>
     (state c = StateEnded \<and> idle_timer c \<longrightarrow> idle_timer c') \<and> (media_done c \<longrightarrow> media_done c')"

lemma sys_ok_neutral:
  assumes ok: "sys_ok s" and n: "neutral (call s) c'"
  shows "sys_ok (s\<lparr>call := c'\<rparr>)"
proof -
  have core: "core c' = core (call s)" using n by (simp add: neutral_def)
  have "guarded (call s)" using ok by (simp add: sys_ok_def channels_ok_def guarded_def)
  then have "channels_ok c'" "times_ok c'"
    using ok n by (auto simp: sys_ok_def neutral_def core_def channels_ok_def times_ok_def guarded_def)
  moreover have "saved_ok (s\<lparr>call := c'\<rparr>)" using ok core by (simp add: sys_ok_def core_def saved_ok_def)
  moreover have "fin_ok (s\<lparr>call := c'\<rparr>)"
  proof (cases "fin s")
    case None
    then show ?thesis using ok core by (simp add: sys_ok_def core_def fin_ok_def)
  next
    case (Some fk)
    obtain f k where fk: "fk = (f, k)" by (cases fk)
    have f: "fin_ok s" using ok by (simp add: sys_ok_def)
    show ?thesis
      using f n core unfolding fin_ok_def neutral_def
      by (simp add: Some fk core_def flip: idle_timer_def media_done_def)
  qed
  ultimately show ?thesis by (simp add: sys_ok_def)
qed

named_theorems neutral_steps \<open>steps that only touch fields outside the invariant\<close>

lemma neutral_decide [neutral_steps]: "neutral c (fst (decide d c))"
  by (simp add: neutral_def core_def guarded_def idle_timer_def media_done_def decide_def split: option.split)

lemma neutral_cancel [neutral_steps]: "neutral c (requestCancel by' c)"
  by (simp add: neutral_def core_def guarded_def idle_timer_def media_done_def requestCancel_def)

lemma neutral_session [neutral_steps]: "neutral c (set_session e r c)"
  by (simp add: neutral_def core_def guarded_def idle_timer_def media_done_def set_session_def)

lemma neutral_refreshed [neutral_steps]: "neutral c (sessionRefreshed c)"
  by (simp add: neutral_def core_def guarded_def idle_timer_def media_done_def sessionRefreshed_def split: option.split)

lemma neutral_fields [neutral_steps]:
  "neutral c (c\<lparr>pendingDecision := x\<rparr>)" "neutral c (if prackCloses c > 0 then c else c\<lparr>prackCloses := 1\<rparr>)"
  "neutral c (c\<lparr>byeBy := by', byeReason := why'\<rparr>)" "neutral c (c\<lparr>localHold := lh, remoteHold := rh\<rparr>)"
  "neutral c (c\<lparr>xfer := Some \<lparr>xferStatus = 0, xferCloses = 0\<rparr>\<rparr>)" "neutral c (mark_failed c)"
  by (simp_all add: neutral_def core_def guarded_def idle_timer_def media_done_def mark_failed_def)

lemma neutral_notify [neutral_steps]: "neutral c (c\<lparr>xfer := map_option (progress_update st final) (xfer c)\<rparr>)"
  by (auto simp: neutral_def core_def guarded_def idle_timer_def media_done_def progress_update_def)

lemma neutral_media: "media c = Some m \<Longrightarrow> closed m' = closed m \<Longrightarrow> neutral c (c\<lparr>media := Some m'\<rparr>)"
  by (simp add: neutral_def core_def guarded_def idle_timer_def media_done_def)

lemma call_step_ok:
  assumes "call_step s s'" "sys_ok s"
  shows "sys_ok s'"
  using assms(1)
proof cases
  case (cs_late_save c save)
  then show ?thesis using sys_ok_late_save [OF assms(2)] by simp
next
  case (cs_media m m')
  then show ?thesis using sys_ok_neutral [OF assms(2) neutral_media] by simp
qed (use sys_ok_neutral [OF assms(2)] sys_ok_ringing [OF assms(2)] sys_ok_connected [OF assms(2)]
      sys_ok_finish [OF assms(2)] sys_ok_tail [OF assms(2)] in \<open>simp_all add: neutral_steps\<close>)

lemma call_reach_ok: "call_reach s0 s \<Longrightarrow> sys_init s0 \<Longrightarrow> sys_ok s"
proof (induction rule: call_reach.induct)
  case cr_init
  then show ?case by (rule sys_init_ok)
qed (blast intro: call_step_ok)

section \<open>States only go forward\<close>

lemma finish_lock_state: "state c \<le> state (fst (finish_lock by' st why' now c))"
  by (simp add: finish_lock_def Let_def)

lemma call_step_forward: "call_step s s' \<Longrightarrow> state (call s) \<le> state (call s')"
proof (induction rule: call_step.induct)
  case (cs_ringing s t)
  show ?case by (cases "state (call s)") (simp_all add: markRinging_def less_eq_State_def)
next
  case (cs_connected s t)
  show ?case by (cases "state (call s)") (simp_all add: markConnected_def less_eq_State_def)
next
  case (cs_finish s by' st why' now)
  show ?case by (simp add: begin_finish_cases finish_lock_state)
next
  case (cs_tail s f k)
  have "state (call (finish_tail f k s)) = state (call s)"
    using closeMedia_cases [of "wasConnected f" "call s"]
    by (auto simp: finish_tail_def stopSession_def Let_def)
  then show ?case by simp
next
  case (cs_late_save s c save)
  then show ?case using autoSave_cases [of "call s"] by auto
qed (simp_all add: decide_def requestCancel_def set_session_def sessionRefreshed_def mark_failed_def split: option.split)

section \<open>What every interleaving guarantees\<close>

definition end_events :: "sys \<Rightarrow> nat" where
  "end_events s = length (filter (\<lambda>e. \<exists>d t b. e = CallEnd d t b) (events s))"

text \<open>C13: No interleaving of the threads that act on a call closes one of its channels twice (which would
  panic): the ringing channel is closed exactly when the call has left the calling state, the
  connected channel exactly when it was answered, and done, the cancel request, the PRACK signal and
  the transfer progress at most once.\<close>

theorem call_channels_once:
  assumes "sys_init s0" "call_reach s0 s"
  shows "ringingCloses (call s) = (if state (call s) = StateCalling then 0 else 1) \<and>
    connectedCloses (call s) = (if tAnswer (call s) = None then 0 else 1) \<and>
    doneCloses (call s) \<le> 1 \<and> cancelCloses (call s) \<le> 1 \<and> prackCloses (call s) \<le> 1 \<and>
    (\<forall>p. xfer (call s) = Some p \<longrightarrow> xferCloses p \<le> 1)"
  using call_reach_ok [OF assms(2,1)]
  by (auto simp: sys_ok_def channels_ok_def fin_ok_def split: option.splits)

text \<open>C14: When the done channel is closed everything the end of a call owes has happened, whatever ran in
  between: the call is out of the device's map, its RTP stream is closed, no session timer is
  pending, and the observer got exactly one CallEnd event if the call had been answered and none
  otherwise; a call that is not done never has more than one.\<close>

theorem call_end_complete:
  assumes "sys_init s0" "call_reach s0 s"
  shows "(doneCloses (call s) > 0 \<longrightarrow> state (call s) = StateEnded \<and> \<not> listed s \<and> media_done (call s) \<and>
      idle_timer (call s) \<and> end_events s = (if tAnswer (call s) \<noteq> None then 1 else 0)) \<and>
    end_events s \<le> 1 \<and> count_list (events s) Saved \<le> 1"
proof -
  have ok: "fin_ok s" "saved_ok s" using call_reach_ok [OF assms(2,1)] by (simp_all add: sys_ok_def)
  have "count_list (events s) Saved \<le> 1" using ok(2) by (simp add: saved_ok_def)
  moreover have "end_events s \<le> 1"
    using ok(1) no_end_events [of "events s"] by (auto simp: fin_ok_def end_events_def split: option.splits)
  moreover have "state (call s) = StateEnded \<and> \<not> listed s \<and> media_done (call s) \<and> idle_timer (call s) \<and>
      end_events s = (if tAnswer (call s) \<noteq> None then 1 else 0)" if dn: "doneCloses (call s) > 0"
  proof -
    obtain f where "fin s = Some (f, 5)"
      using ok(1) dn by (auto simp: fin_ok_def split: option.splits if_splits)
    with ok(1) show ?thesis by (simp add: fin_ok_def media_done_def idle_timer_def end_events_def)
  qed
  ultimately show ?thesis by blast
qed

lemma call_reach_forward: "call_reach s s' \<Longrightarrow> state (call s) \<le> state (call s')"
  by (induction rule: call_reach.induct) (auto dest: call_step_forward intro: order_trans)

text \<open>The outcome of a call that has ended, without the party that ended it.\<close>

definition outcome :: "Call \<Rightarrow> int \<times> string \<times> time option \<times> time option" where
  "outcome c = (status c, reason c, tAnswer c, tEnd c)"

lemma outcome_step: "call_step s s' \<Longrightarrow> state (call s) = StateEnded \<Longrightarrow> outcome (call s') = outcome (call s)"
proof (induction rule: call_step.induct)
  case (cs_tail s f k)
  then show ?case
    using closeMedia_cases [of "wasConnected f" "call s"]
    by (auto simp: finish_tail_def stopSession_def Let_def outcome_def)
next
  case (cs_late_save s c save)
  then show ?case using autoSave_cases [of "call s"] by (auto simp: outcome_def)
qed (simp_all add: outcome_def markRinging_def markConnected_def begin_finish_cases decide_def requestCancel_def
    set_session_def sessionRefreshed_def mark_failed_def split: option.split)

text \<open>States only go forward, and an ended call stays ended with the status, reason and talk time it
  ended with: later answers, rejections, hangups and retransmitted requests change none of them.\<close>

theorem call_end_final:
  assumes "call_reach s s'"
  shows "state (call s) \<le> state (call s') \<and>
    (state (call s) = StateEnded \<longrightarrow>
      (\<exists>k k'. completion (call s) = Some k \<and> completion (call s') = Some k' \<and>
        compStatus k' = compStatus k \<and> compReason k' = compReason k \<and> compDuration k' = compDuration k))"
proof -
  have "state (call s) = StateEnded \<longrightarrow> outcome (call s') = outcome (call s)"
    using assms
  proof induction
    case (cr_step s1 s2)
    then show ?case using call_reach_forward [OF cr_step.hyps(1)] outcome_step by auto
  qed simp
  then show ?thesis
    using call_reach_forward [OF assms] by (auto simp: completion_def outcome_def)
qed

section \<open>A concrete call\<close>

definition demo_call :: sys where
  "demo_call = \<lparr>call = (newCall Outgoing 0)\<lparr>callID := ''a1''\<rparr>, fin = None, listed = True, events = []\<rparr>"

lemma demo_call_init: "sys_init demo_call"
  unfolding sys_init_def demo_call_def by (simp, intro exI disjI1, rule refl)

definition demo_end :: "sys \<Rightarrow> EndedBy \<Rightarrow> int \<Rightarrow> sys" where
  "demo_end s by' st =
     (let s0 = begin_finish by' st ''gone'' 900 s; f = fst (the (fin s0))
      in finish_tail f 4 (finish_tail f 3 (finish_tail f 2 (finish_tail f 1 (finish_tail f 0 s0)))))"

definition demo_answered :: sys where
  "demo_answered = upd (markConnected 100) (upd (markRinging 50) demo_call)"

lemma demo_answered_reach: "call_reach demo_call demo_answered"
  unfolding demo_answered_def by (rule cr_step [OF cr_step [OF cr_init cs_ringing] cs_connected])

lemma fin_tail [simp]: "fin (finish_tail f k s) = Some (f, Suc k)"
  by (simp add: finish_tail_def Let_def split: prod.split)

lemma demo_end_reach:
  assumes "call_reach s0 s" "state (call s) \<noteq> StateEnded"
  shows "call_reach s0 (demo_end s by' st)"
proof -
  let ?s0 = "begin_finish by' st ''gone'' 900 s"
  obtain f where f: "fin ?s0 = Some (f, 0)" using assms(2) by (simp add: begin_finish_cases)
  have "call_reach s0 ?s0" using assms(1) cs_finish by (rule cr_step)
  then have "call_reach s0 (finish_tail f 0 ?s0)" using f by (rule cr_step [OF _ cs_tail]) simp
  then have "call_reach s0 (finish_tail f 1 (finish_tail f 0 ?s0))" by (rule cr_step [OF _ cs_tail]) simp_all
  then have "call_reach s0 (finish_tail f 2 (finish_tail f 1 (finish_tail f 0 ?s0)))"
    by (rule cr_step [OF _ cs_tail]) simp_all
  then have "call_reach s0 (finish_tail f 3 (finish_tail f 2 (finish_tail f 1 (finish_tail f 0 ?s0))))"
    by (rule cr_step [OF _ cs_tail]) simp_all
  then have "call_reach s0 (finish_tail f 4 (finish_tail f 3 (finish_tail f 2 (finish_tail f 1 (finish_tail f 0 ?s0)))))"
    by (rule cr_step [OF _ cs_tail]) simp_all
  then show ?thesis by (simp add: demo_end_def Let_def f)
qed

lemma demo_state: "state (call demo_answered) = StateConnected" "tAnswer (call demo_answered) = Some 100"
  "state (call demo_call) = StateCalling"
  by (simp_all add: demo_answered_def demo_call_def markConnected_def markRinging_def newCall_def)

theorem call_channels_once_witness:
  "connectedCloses (call demo_answered) = 1 \<and> ringingCloses (call demo_answered) = 1"
  using call_channels_once [OF demo_call_init demo_answered_reach] demo_state by simp

theorem call_end_complete_witness:
  "end_events (demo_end demo_answered EndedByRemote 0) = 1 \<and> \<not> listed (demo_end demo_answered EndedByRemote 0)"
proof -
  have "doneCloses (call (demo_end demo_answered EndedByRemote 0)) = 1"
    "tAnswer (call (demo_end demo_answered EndedByRemote 0)) = Some 100"
    by (simp_all add: demo_end_def demo_answered_def demo_call_def newCall_def markConnected_def markRinging_def
        begin_finish_cases finish_lock_def finish_tail_def stopSession_def closeMedia_def Let_def)
  then show ?thesis
    using call_end_complete [OF demo_call_init demo_end_reach [OF demo_answered_reach], of EndedByRemote 0] demo_state
    by simp
qed

theorem call_end_final_witness:
  "\<exists>k. completion (call (upd (markConnected 950) (demo_end demo_call EndedByRemote 486))) = Some k \<and> compStatus k = 486"
proof -
  let ?s = "demo_end demo_call EndedByRemote 486"
  have "state (call ?s) = StateEnded" "\<exists>k. completion (call ?s) = Some k \<and> compStatus k = 486"
    by (simp_all add: demo_end_def demo_call_def newCall_def begin_finish_cases finish_lock_def finish_tail_def
        stopSession_def closeMedia_def Let_def completion_def)
  then show ?thesis
    using call_end_final [OF cr_step [OF cr_init cs_connected [of ?s 950]]] by auto
qed

text \<open>The party that ended a call is not final: a hangup that saw the call ringing and asks for the
  CANCEL after the far end has rejected it overwrites the recorded party, so an ended call first
  reports the remote side and later the local one.\<close>

theorem late_cancel_overwrites:
  "\<exists>s s' k k'. call_reach demo_call s \<and> call_reach s s' \<and> doneCloses (call s) = 1 \<and>
    completion (call s) = Some k \<and> compBy k = EndedByRemote \<and>
    completion (call s') = Some k' \<and> compBy k' = EndedByLocal"
proof -
  let ?s = "demo_end demo_call EndedByRemote 486"
  let ?s' = "upd (requestCancel EndedByLocal) ?s"
  have "call_reach demo_call ?s" using demo_state by (intro demo_end_reach [OF cr_init]) simp
  moreover have "call_reach ?s ?s'" by (rule cr_step [OF cr_init cs_cancel])
  moreover have "doneCloses (call ?s) = 1" "\<exists>k. completion (call ?s) = Some k \<and> compBy k = EndedByRemote"
    "\<exists>k. completion (call ?s') = Some k \<and> compBy k = EndedByLocal"
    by (simp_all add: demo_end_def demo_call_def newCall_def begin_finish_cases finish_lock_def finish_tail_def
        stopSession_def closeMedia_def Let_def completion_def requestCancel_def)
  ultimately show ?thesis by blast
qed

end
