(* ===== verification/Uac.thy ===== *)
theory Uac
  imports Sip
begin

text \<open>
  The client side of an INVITE, \<open>engine/uac.go\<close> and the PRACK part of
  \<open>engine/prack.go\<close>: the loop that drives the transaction to a final response
  (\<open>run\<close>), the retries with credentials and with a longer session interval, and the
  requests within the dialog. An iteration of the loop's \<open>select\<close> is \<open>run_step\<close>: it
  takes the case that became ready and returns the actions, in order, with the new state or the
  result. The digest package and the sending of a transaction are parameters.
\<close>

section \<open>The dialog\<close>

record uacDialog =
  invite :: request              \<comment> \<open>last INVITE sent\<close>
  established_by :: "response option"   \<comment> \<open>\<open>res\<close>: the 2xx, or the reliable 18x, that set the dialog up\<close>
  remoteTarget :: Uri
  routes :: "string list"        \<comment> \<open>route set, from Record-Route in reverse order\<close>
  cseq :: u32
  lastRSeq :: nat                \<comment> \<open>highest RSeq we PRACKed\<close>
  ownContact :: string           \<comment> \<open>\<open>d.contact\<close>\<close>

definition newUAC :: "string \<Rightarrow> request \<Rightarrow> uacDialog" where
  "newUAC ct req = \<lparr>invite = req, established_by = None, remoteTarget = Recipient req, routes = [],
     cseq = 0, lastRSeq = 0, ownContact = ct\<rparr>"

text \<open>\<open>established\<close> and \<open>earlyLocked\<close> have the same body.\<close>

definition established :: "response \<Rightarrow> uacDialog \<Rightarrow> uacDialog" where
  "established res u =
     u\<lparr>established_by := Some res,
       remoteTarget := (case resContact res of None \<Rightarrow> Recipient (invite u) | Some c \<Rightarrow> c),
       routes := rev (resHdr res ''Record-Route'')\<rparr>"

abbreviation earlyLocked :: "response \<Rightarrow> uacDialog \<Rightarrow> uacDialog" where
  "earlyLocked \<equiv> established"

definition inDialog :: "string \<Rightarrow> uacDialog \<Rightarrow> uacDialog \<times> request" where
  "inDialog method u =
     (let u1 = (if method \<noteq> ''ACK'' then u\<lparr>cseq := cseq u + 1\<rparr> else u);
          n = (if method \<noteq> ''ACK'' then cseq u1 else reqSeq (invite u))
      in (u1, \<lparr>reqMethod = method, Recipient = remoteTarget u, reqFrom = reqFrom (invite u),
               fromTag = fromTag (invite u),
               toTag = (case established_by u of None \<Rightarrow> None | Some r \<Rightarrow> resToTag r),
               reqCallID = reqCallID (invite u), reqSeq = n, reqSeqMethod = method, via = None,
               reqHdr = no_headers(''Max-Forwards'' := [''70''], ''Route'' := routes u, ''Contact'' := [ownContact u]),
               reqDest = [], reqBody = []\<rparr>))"

definition inDialogAck :: "u32 \<Rightarrow> uacDialog \<Rightarrow> request" where
  "inDialogAck n u = (snd (inDialog ''ACK'' u))\<lparr>reqSeq := n\<rparr>"

text \<open>CANCEL copies what must match the INVITE.\<close>

definition cancel_request :: "uacDialog \<Rightarrow> request" where
  "cancel_request u =
     (let inv = invite u
      in \<lparr>reqMethod = ''CANCEL'', Recipient = Recipient inv, reqFrom = reqFrom inv, fromTag = fromTag inv,
          toTag = toTag inv, reqCallID = reqCallID inv, reqSeq = reqSeq inv, reqSeqMethod = ''CANCEL'',
          via = via inv, reqHdr = no_headers(''Max-Forwards'' := [''70''], ''Route'' := reqHdr inv ''Route''),
          reqDest = reqDest inv, reqBody = []\<rparr>)"

section \<open>Retries\<close>

record uac_env =
  password :: string
  ParseChallenge :: "string \<Rightarrow> string + string"
  Digest :: "string \<Rightarrow> Uri \<Rightarrow> string + string"     \<comment> \<open>challenge and URI to credentials\<close>
  SendTx :: "request \<Rightarrow> string + string"           \<comment> \<open>\<open>TransactionRequest\<close>: its error, or the branch of the Via it adds\<close>

datatype retry_error = NoChallenge int | BadChallenge string | DigestFailed string | NoMinSE | BadMinSE string
  | SendFailed string

text \<open>\<open>u.invite, u.tx = req, tx\<close> and the sequence number of the new INVITE.\<close>

definition resend :: "uac_env \<Rightarrow> request \<Rightarrow> uacDialog \<Rightarrow> retry_error + uacDialog" where
  "resend env req u =
     (case SendTx env req of Inl e \<Rightarrow> Inl (SendFailed e)
      | Inr branch \<Rightarrow> Inr (u\<lparr>invite := req\<lparr>via := Some branch\<rparr>, cseq := reqSeq req\<rparr>))"

definition send :: "uac_env \<Rightarrow> uacDialog \<Rightarrow> string + uacDialog" where
  "send env u =
     (case SendTx env (invite u) of Inl e \<Rightarrow> Inl e
      | Inr branch \<Rightarrow> Inr (u\<lparr>invite := (invite u)\<lparr>via := Some branch\<rparr>, cseq := reqSeq (invite u)\<rparr>))"

definition retryWithAuth :: "uac_env \<Rightarrow> response \<Rightarrow> uacDialog \<Rightarrow> retry_error + uacDialog" where
  "retryWithAuth env chal u =
     (let (hdrName, credName) = (if resCode chal = 407 then (''Proxy-Authenticate'', ''Proxy-Authorization'')
                                 else (''WWW-Authenticate'', ''Authorization''))
      in case first_header (resHdr chal) hdrName of
           None \<Rightarrow> Inl (NoChallenge (resCode chal))
         | Some h \<Rightarrow>
             (case ParseChallenge env h of Inl e \<Rightarrow> Inl (BadChallenge e)
              | Inr ch \<Rightarrow>
                  (let req = (invite u)\<lparr>via := None, reqHdr := remove_header credName (reqHdr (invite u)),
                                        reqSeq := reqSeq (invite u) + 1\<rparr>
                   in case Digest env ch (Recipient req) of Inl e \<Rightarrow> Inl (DigestFailed e)
                      | Inr cred \<Rightarrow> resend env (req\<lparr>reqHdr := append_header credName cred (reqHdr req)\<rparr>) u)))"

definition retryWithMinSE :: "uac_env \<Rightarrow> response \<Rightarrow> uacDialog \<Rightarrow> retry_error + uacDialog" where
  "retryWithMinSE env res u =
     (case first_header (resHdr res) ''Min-SE'' of
        None \<Rightarrow> Inl NoMinSE
      | Some h \<Rightarrow>
          (let (minSE, _, _) = Cut (TrimSpace h) '';''
           in if \<not> snd (Atoi minSE) then Inl (BadMinSE h)
              else (let inv = invite u;
                        hdr = append_header ''Min-SE'' minSE (append_header ''Session-Expires'' minSE
                                (remove_header ''Min-SE'' (remove_header ''Session-Expires'' (reqHdr inv))))
                    in resend env (inv\<lparr>via := None, reqSeq := reqSeq inv + 1, reqHdr := hdr\<rparr>) u)))"

text \<open>The PRACK to send for a reliable provisional response, if it is a new one.\<close>

definition maybePRACK :: "response \<Rightarrow> uacDialog \<Rightarrow> uacDialog \<times> request option" where
  "maybePRACK res u =
     (if \<not> hasOption (resHdr res) ''Require'' ''100rel'' then (u, None)
      else case first_header (resHdr res) ''RSeq'' of None \<Rightarrow> (u, None)
      | Some h \<Rightarrow>
          (case ParseUint32 (TrimSpace h) of None \<Rightarrow> (u, None)
           | Some rseq \<Rightarrow>
               if rseq \<le> lastRSeq u then (u, None)
               else (let u1 = earlyLocked res (u\<lparr>lastRSeq := rseq\<rparr>);
                         (u2, req) = inDialog ''PRACK'' u1;
                         rack = FormatNat rseq @ '' '' @ FormatNat (unat (reqSeq (invite u2))) @ '' INVITE''
                     in (u2, Some (req\<lparr>reqHdr := append_header ''RAck'' rack (reqHdr req)\<rparr>)))))"

section \<open>The INVITE loop\<close>

record run_state =
  provisional :: bool
  cancelSent :: bool
  answered :: bool
  authAttempts :: nat
  retried422 :: bool
  cancelSeen :: bool      \<comment> \<open>\<open>cancel == nil\<close>: a hangup or the no-answer timer asked to cancel\<close>

definition run_init :: run_state where
  "run_init = \<lparr>provisional = False, cancelSent = False, answered = False, authAttempts = 0,
     retried422 = False, cancelSeen = False\<rparr>"

datatype run_input =
    Response response
  | TxDone "string option"    \<comment> \<open>the transaction ended, with its error\<close>
  | CancelRequested
  | NoAnswerTimer
  | CancelWaited              \<comment> \<open>64*T1 after the CANCEL\<close>

datatype run_action =
    SendCancel
  | SendPrack request
  | SendInvite request
  | MarkRinging
  | ApplySDP response
  | FirstResponse
  | Report "int option"       \<comment> \<open>status, or a failure without a response\<close>

datatype run_error = RetryError retry_error | TxError string | ErrCancelled

record inviteResult =
  finalRes :: "response option"
  runErr :: "run_error option"
  cancelled :: bool

datatype run_outcome = Continue run_state uacDialog | Return uacDialog inviteResult

abbreviation maxAuthAttempts :: nat where "maxAuthAttempts \<equiv> 2"

definition sendCancel :: "run_state \<Rightarrow> run_state \<times> run_action list" where
  "sendCancel s = (if cancelSent s then (s, []) else (s\<lparr>cancelSent := True\<rparr>, [SendCancel]))"

definition request_cancel :: "run_state \<Rightarrow> run_state \<times> run_action list" where
  "request_cancel s =
     (let s1 = s\<lparr>cancelSeen := True\<rparr> in if provisional s1 then sendCancel s1 else (s1, []))"

definition on_provisional :: "response \<Rightarrow> run_state \<Rightarrow> uacDialog \<Rightarrow> run_action list \<times> run_outcome" where
  "on_provisional res s u =
     (let s1 = s\<lparr>provisional := True\<rparr>;
          (u1, pr) = maybePRACK res u;
          (s2, ac) = (if cancelSeen s1 \<and> \<not> cancelSent s1 then sendCancel s1 else (s1, []))
      in ((case pr of None \<Rightarrow> [] | Some p \<Rightarrow> [SendPrack p]) @
          (if resCode res > 100 then [MarkRinging] else []) @ ac, Continue s2 u1))"

text \<open>What follows a retry that was sent.\<close>

definition retried :: "run_state \<Rightarrow> run_state" where
  "retried s = s\<lparr>provisional := False, answered := False\<rparr>"

definition on_response :: "uac_env \<Rightarrow> response \<Rightarrow> run_state \<Rightarrow> uacDialog \<Rightarrow> run_action list \<times> run_outcome" where
  "on_response env res s u =
     (if IsProvisional res then on_provisional res s u
      else if IsSuccess res then
        ([Report (Some (resCode res))],
         Return (established res u) \<lparr>finalRes = Some res, runErr = None, cancelled = cancelSent s\<rparr>)
      else if (resCode res = 401 \<or> resCode res = 407) \<and> authAttempts s < maxAuthAttempts \<and>
              password env \<noteq> [] \<and> \<not> cancelSent s then
        (case retryWithAuth env res u of
           Inl e \<Rightarrow> ([Report (Some (resCode res))],
             Return u \<lparr>finalRes = Some res, runErr = Some (RetryError e), cancelled = False\<rparr>)
         | Inr u1 \<Rightarrow> ([Report (Some (resCode res)), SendInvite (invite u1)],
             Continue (retried (s\<lparr>authAttempts := authAttempts s + 1\<rparr>)) u1))
      else if resCode res = 422 \<and> \<not> retried422 s \<and> \<not> cancelSent s then
        (case retryWithMinSE env res u of
           Inl e \<Rightarrow> ([Report (Some (resCode res))],
             Return u \<lparr>finalRes = Some res, runErr = Some (RetryError e), cancelled = False\<rparr>)
         | Inr u1 \<Rightarrow> ([Report (Some (resCode res)), SendInvite (invite u1)],
             Continue (retried (s\<lparr>retried422 := True\<rparr>)) u1))
      else ((if cancelSent s \<and> resCode res = 487 then [] else [Report (Some (resCode res))]),
            Return u \<lparr>finalRes = Some res, runErr = None, cancelled = cancelSent s\<rparr>))"

definition run_step :: "uac_env \<Rightarrow> run_input \<Rightarrow> run_state \<Rightarrow> uacDialog \<Rightarrow> run_action list \<times> run_outcome" where
  "run_step env i s u =
     (case i of
        Response res \<Rightarrow>
          (let (ac, out) = on_response env res (s\<lparr>answered := True\<rparr>) u
           in ((if answered s then [] else [FirstResponse]) @ ApplySDP res # ac, out))
      | TxDone e \<Rightarrow>
          ((if cancelSent s then [] else [Report None]),
           Return u \<lparr>finalRes = None,
             runErr = Some (TxError (case e of None \<Rightarrow> ''INVITE transaction terminated'' | Some m \<Rightarrow> m)),
             cancelled = cancelSent s\<rparr>)
      | CancelRequested \<Rightarrow>
          (if cancelSeen s then ([], Continue s u)
           else (let (s1, ac) = request_cancel s in (ac, Continue s1 u)))
      | NoAnswerTimer \<Rightarrow>
          (if cancelSeen s then ([], Continue s u)
           else (let (s1, ac) = request_cancel s in (ac, Continue s1 u)))
      | CancelWaited \<Rightarrow>
          (if \<not> cancelSent s then ([], Continue s u)
           else ([], Return u \<lparr>finalRes = None, runErr = Some ErrCancelled, cancelled = True\<rparr>)))"

text \<open>The loop on the cases in the order they become ready: what it did, and the result once it returned.\<close>

fun uac_run :: "uac_env \<Rightarrow> run_input list \<Rightarrow> run_state \<Rightarrow> uacDialog \<Rightarrow> run_action list \<times> run_outcome" where
  "uac_run env [] s u = ([], Continue s u)"
| "uac_run env (i # is) s u =
     (case run_step env i s u of
        (ac, Return u' r) \<Rightarrow> (ac, Return u' r)
      | (ac, Continue s' u') \<Rightarrow> (let (ac', out) = uac_run env is s' u' in (ac @ ac', out)))"

section \<open>Facts about one iteration\<close>

text \<open>A hangup is pending only until a provisional response allows the CANCEL.\<close>

definition run_ok :: "run_state \<Rightarrow> bool" where
  "run_ok s \<longleftrightarrow> (cancelSent s \<longrightarrow> provisional s \<and> cancelSeen s) \<and> (cancelSeen s \<and> provisional s \<longrightarrow> cancelSent s)"

lemma run_init_ok: "run_ok run_init"
  by (simp add: run_ok_def run_init_def)

lemma established_fields [simp]:
  "invite (established res u) = invite u" "cseq (established res u) = cseq u" "lastRSeq (established res u) = lastRSeq u"
  by (simp_all add: established_def)

lemma inDialog_fields [simp]:
  "invite (fst (inDialog m u)) = invite u" "lastRSeq (fst (inDialog m u)) = lastRSeq u"
  "reqSeq (snd (inDialog m u)) = (if m = ''ACK'' then reqSeq (invite u) else cseq u + 1)"
  "cseq (fst (inDialog m u)) = (if m = ''ACK'' then cseq u else cseq u + 1)"
  by (simp_all add: inDialog_def Let_def)

lemma maybePRACK_invite [simp]: "invite (fst (maybePRACK res u)) = invite u"
  by (simp add: maybePRACK_def Let_def split_beta split: option.split)

text \<open>
  The order RFC 3261 9.1 asks for, as an automaton over the actions: CANCEL at most once, only when
  the INVITE sent last has had a provisional response, and no INVITE after it.
\<close>

fun cancel_order :: "bool \<Rightarrow> bool \<Rightarrow> run_action list \<Rightarrow> bool" where
  "cancel_order p c [] = True"
| "cancel_order p c (SendCancel # as) = (p \<and> \<not> c \<and> cancel_order p True as)"
| "cancel_order p c (SendInvite r # as) = (\<not> c \<and> cancel_order False c as)"
| "cancel_order p c (ApplySDP r # as) = cancel_order (p \<or> IsProvisional r) c as"
| "cancel_order p c (_ # as) = cancel_order p c as"

lemma request_cancel_step:
  assumes "request_cancel s = (s1, ac)" "run_ok s" "\<not> cancelSeen s"
  shows "run_ok s1" "cancel_order (provisional s) (cancelSent s) (ac @ rest) \<longleftrightarrow> cancel_order (provisional s1) (cancelSent s1) rest"
  using assms by (auto simp: request_cancel_def sendCancel_def run_ok_def Let_def split: if_splits)

lemma on_provisional_eq:
  "on_provisional res s u =
     ((case snd (maybePRACK res u) of None \<Rightarrow> [] | Some p \<Rightarrow> [SendPrack p]) @
      (if resCode res > 100 then [MarkRinging] else []) @ (if cancelSeen s \<and> \<not> cancelSent s then [SendCancel] else []),
      Continue (s\<lparr>provisional := True, cancelSent := cancelSent s \<or> cancelSeen s\<rparr>) (fst (maybePRACK res u)))"
  by (cases "cancelSeen s"; cases "cancelSent s")
    (simp_all add: on_provisional_def Let_def split_beta sendCancel_def)

lemma cancel_order_prack:
  "cancel_order p c ((case x of None \<Rightarrow> [] | Some q \<Rightarrow> [SendPrack q]) @ as) = cancel_order p c as"
  by (cases x) simp_all

lemma cancel_order_ringing:
  "cancel_order p c ((if b then [MarkRinging] else []) @ as) = cancel_order p c as"
  by simp

lemma run_ok_answered [simp]: "run_ok (s\<lparr>answered := b\<rparr>) = run_ok s"
  by (simp add: run_ok_def)

lemma retry_continue:
  assumes "on_response env res s u = (ac, Continue s' u')" "\<not> IsProvisional res"
  shows "\<not> cancelSent s \<and> \<not> cancelSent s' \<and> \<not> provisional s' \<and> cancelSeen s' = cancelSeen s \<and>
    ac = [Report (Some (resCode res)), SendInvite (invite u')]"
proof (cases "(resCode res = 401 \<or> resCode res = 407) \<and> authAttempts s < maxAuthAttempts \<and> password env \<noteq> [] \<and> \<not> cancelSent s")
  case True
  with assms show ?thesis
    by (cases "retryWithAuth env res u") (auto simp: on_response_def retried_def IsSuccess_def)
next
  case False
  have "\<not> IsSuccess res" using assms by (auto simp: on_response_def)
  with False assms show ?thesis
    by (cases "retryWithMinSE env res u") (auto simp: on_response_def retried_def split: if_splits)
qed

lemma on_response_continue:
  assumes "on_response env res s u = (ac, Continue s' u')" "run_ok s"
  shows "run_ok s' \<and> (cancel_order (provisional s \<or> IsProvisional res) (cancelSent s) (ac @ rest) \<longleftrightarrow>
    cancel_order (provisional s') (cancelSent s') rest)"
proof (cases "IsProvisional res")
  case True
  then show ?thesis
    using assms by (cases "cancelSeen s"; cases "cancelSent s")
      (auto simp: on_response_def on_provisional_eq cancel_order_prack cancel_order_ringing run_ok_def)
next
  case False
  with retry_continue [OF assms(1) False] show ?thesis using assms(2) by (simp add: run_ok_def)
qed

lemma on_response_return:
  assumes "on_response env res s u = (ac, Return u' r)"
  shows "cancel_order p c ac \<and> cancelled r = cancelSent s \<and> SendCancel \<notin> set ac"
proof (cases "retryWithAuth env res u"; cases "retryWithMinSE env res u")
qed (use assms in \<open>auto simp: on_response_def on_provisional_eq split: if_splits\<close>)

lemma run_step_continue:
  assumes "run_step env i s u = (ac, Continue s' u')" "run_ok s"
  shows "run_ok s' \<and> (cancel_order (provisional s) (cancelSent s) (ac @ rest) \<longleftrightarrow>
    cancel_order (provisional s') (cancelSent s') rest)"
proof (cases i)
  case (Response res)
  obtain ac1 where r: "on_response env res (s\<lparr>answered := True\<rparr>) u = (ac1, Continue s' u')"
    "ac = (if answered s then [] else [FirstResponse]) @ ApplySDP res # ac1"
    using assms(1) by (auto simp: run_step_def Response split: prod.splits)
  then show ?thesis
    using on_response_continue [OF r(1)] assms(2) by (simp add: r(2))
next
  case CancelRequested
  then show ?thesis
    using assms request_cancel_step(1) [of s] request_cancel_step(2) [of s _ _ rest] by (auto simp: run_step_def split: if_splits prod.splits)
next
  case NoAnswerTimer
  then show ?thesis
    using assms request_cancel_step(1) [of s] request_cancel_step(2) [of s _ _ rest] by (auto simp: run_step_def split: if_splits prod.splits)
qed (use assms in \<open>auto simp: run_step_def split: if_splits\<close>)

lemma run_step_return:
  assumes "run_step env i s u = (ac, Return u' r)" "run_ok s"
  shows "cancel_order (provisional s) (cancelSent s) ac \<and> (cancelled r \<longleftrightarrow> cancelSent s) \<and> SendCancel \<notin> set ac"
proof (cases i)
  case (Response res)
  obtain ac1 where r: "on_response env res (s\<lparr>answered := True\<rparr>) u = (ac1, Return u' r)"
    "ac = (if answered s then [] else [FirstResponse]) @ ApplySDP res # ac1"
    using assms(1) by (auto simp: run_step_def Response split: prod.splits)
  then show ?thesis using on_response_return [OF r(1)] assms(2) by (simp add: r(2))
qed (use assms in \<open>auto simp: run_step_def split: if_splits prod.splits\<close>)

section \<open>Runs\<close>

lemma uac_run_order:
  "run_ok s \<Longrightarrow> cancel_order (provisional s) (cancelSent s) (fst (uac_run env is s u))"
proof (induction "is" arbitrary: s u)
  case (Cons i "is")
  obtain ac out where st: "run_step env i s u = (ac, out)" by fastforce
  show ?case
  proof (cases out)
    case (Continue s' u')
    obtain ac' out' where rest: "uac_run env is s' u' = (ac', out')" by fastforce
    have "run_ok s' \<and> (cancel_order (provisional s) (cancelSent s) (ac @ ac') \<longleftrightarrow>
        cancel_order (provisional s') (cancelSent s') ac')"
      using run_step_continue [OF st [unfolded Continue] Cons.prems] .
    then show ?thesis using Cons.IH [of s' u'] by (simp add: st Continue rest)
  next
    case (Return u' r)
    then show ?thesis using run_step_return [OF st [unfolded Return] Cons.prems] by (simp add: st)
  qed
qed simp

text \<open>C16: The INVITE loop cancels as RFC 3261 9.1 asks, whatever order responses, the hangup and the timers
  come in: it sends at most one CANCEL, only once the INVITE it sent last has had a provisional
  response, and no INVITE after it.\<close>

theorem cancel_after_provisional:
  "cancel_order False False (fst (uac_run env is run_init u))"
  using uac_run_order [OF run_init_ok, of env "is" u] by (simp add: run_init_def)

lemma run_step_cancelSent:
  assumes "run_step env i s u = (ac, Continue s' u')" "cancelSent s"
  shows "cancelSent s' \<and> invite u' = invite u"
proof (cases i)
  case (Response res)
  obtain ac1 where r: "on_response env res (s\<lparr>answered := True\<rparr>) u = (ac1, Continue s' u')"
    using assms(1) by (auto simp: run_step_def Response split: prod.splits)
  then have "IsProvisional res" using retry_continue assms(2) by fastforce
  with r show ?thesis using assms(2) by (auto simp: on_response_def on_provisional_eq)
qed (use assms in \<open>auto simp: run_step_def request_cancel_def sendCancel_def Let_def split: if_splits\<close>)

lemma uac_run_cancelSent:
  "cancelSent s \<Longrightarrow> uac_run env is s u = (ac, Continue s' u') \<Longrightarrow> cancelSent s' \<and> invite u' = invite u"
proof (induction "is" arbitrary: s u ac)
  case (Cons i "is")
  obtain ac1 s1 u1 ac2 where st: "run_step env i s u = (ac1, Continue s1 u1)" "uac_run env is s1 u1 = (ac2, Continue s' u')"
    using Cons.prems(2) by (auto split: prod.splits run_outcome.splits)
  with run_step_cancelSent [OF st(1) Cons.prems(1)] Cons.IH [OF _ st(2)] show ?case by simp
qed simp

lemma uac_run_append:
  "uac_run env (is @ js) s u =
     (case uac_run env is s u of
        (ac, Return u' r) \<Rightarrow> (ac, Return u' r)
      | (ac, Continue s' u') \<Rightarrow> (let (ac', out) = uac_run env js s' u' in (ac @ ac', out)))"
proof (induction "is" arbitrary: s u)
  case Nil
  then show ?case by (simp split: prod.split)
next
  case (Cons i "is")
  then show ?case by (simp split: prod.split run_outcome.split)
qed

lemma uac_run_ok: "run_ok s \<Longrightarrow> uac_run env is s u = (ac, Continue s' u') \<Longrightarrow> run_ok s'"
proof (induction "is" arbitrary: s u ac)
  case (Cons i "is")
  obtain ac1 s1 u1 ac2 where st: "run_step env i s u = (ac1, Continue s1 u1)" "uac_run env is s1 u1 = (ac2, Continue s' u')"
    using Cons.prems(2) by (auto split: prod.splits run_outcome.splits)
  with run_step_continue [OF st(1) Cons.prems(1), of "[]"] Cons.IH [OF _ st(2)] show ?case by blast
qed simp

text \<open>The hangup stays requested, and the loop answers it at the first provisional response.\<close>

lemma run_step_cancelSeen:
  assumes "run_step env i s u = (ac, Continue s' u')" "cancelSeen s \<or> i = CancelRequested \<or> i = NoAnswerTimer"
  shows "cancelSeen s'"
proof (cases i)
  case (Response res)
  obtain ac1 where r: "on_response env res (s\<lparr>answered := True\<rparr>) u = (ac1, Continue s' u')"
    using assms(1) by (auto simp: run_step_def Response split: prod.splits)
  show ?thesis
  proof (cases "IsProvisional res")
    case True
    with r assms(2) Response show ?thesis by (auto simp: on_response_def on_provisional_eq)
  next
    case False
    with retry_continue [OF r False] assms(2) Response show ?thesis by simp
  qed
qed (use assms in \<open>auto simp: run_step_def request_cancel_def sendCancel_def Let_def split: if_splits\<close>)

lemma uac_run_cancelSeen:
  "uac_run env is s u = (ac, Continue s' u') \<Longrightarrow> cancelSeen s \<or> CancelRequested \<in> set is \<or> NoAnswerTimer \<in> set is \<Longrightarrow>
   cancelSeen s'"
proof (induction "is" arbitrary: s u ac)
  case (Cons i "is")
  obtain ac1 s1 u1 ac2 where st: "run_step env i s u = (ac1, Continue s1 u1)" "uac_run env is s1 u1 = (ac2, Continue s' u')"
    using Cons.prems(1) by (auto split: prod.splits run_outcome.splits)
  have "cancelSeen s1 \<or> CancelRequested \<in> set is \<or> NoAnswerTimer \<in> set is"
    using run_step_cancelSeen [OF st(1)] Cons.prems(2) by auto
  then show ?case by (rule Cons.IH [OF st(2)])
qed simp

text \<open>A hangup, or the no-answer timer, is never lost in the INVITE loop: once it has been requested the
  next provisional response leaves the CANCEL sent, however many retries came in between, the INVITE
  it refers to no longer changes, and if no final response follows the loop still returns, as
  cancelled, when the 64*T1 wait ends.\<close>

theorem hangup_cancels:
  assumes run: "uac_run env is run_init u = (ac, Continue s u1)"
    and req: "CancelRequested \<in> set is \<or> NoAnswerTimer \<in> set is"
    and res: "IsProvisional res"
  shows "\<exists>ac' s' u'. uac_run env (is @ [Response res]) run_init u = (ac', Continue s' u') \<and> cancelSent s' \<and>
    cancel_request u' = cancel_request u1 \<and>
    (\<forall>js ac2 s2 u2. uac_run env js s' u' = (ac2, Continue s2 u2) \<longrightarrow> invite u2 = invite u') \<and>
    (\<exists>ac3 u3. uac_run env (is @ [Response res, CancelWaited]) run_init u =
       (ac3, Return u3 \<lparr>finalRes = None, runErr = Some ErrCancelled, cancelled = True\<rparr>))"
proof -
  have seen: "cancelSeen s" using uac_run_cancelSeen [OF run] req by blast
  let ?s' = "s\<lparr>answered := True, provisional := True, cancelSent := True\<rparr>" and ?u' = "fst (maybePRACK res u1)"
  obtain ac1 where st: "run_step env (Response res) s u1 = (ac1, Continue ?s' ?u')"
    using res seen by (cases "cancelSent s") (simp_all add: run_step_def on_response_def on_provisional_eq)
  have wait: "run_step env CancelWaited ?s' ?u' = ([], Return ?u' \<lparr>finalRes = None, runErr = Some ErrCancelled, cancelled = True\<rparr>)"
    by (simp add: run_step_def)
  have "cancel_request ?u' = cancel_request u1" by (simp add: cancel_request_def)
  then show ?thesis
    using uac_run_cancelSent [of ?s'] by (simp add: uac_run_append run st wait)
qed


section \<open>Retries are bounded\<close>

definition invites :: "run_action list \<Rightarrow> request list" where
  "invites ac = concat (map (\<lambda>a. case a of SendInvite r \<Rightarrow> [r] | _ \<Rightarrow> []) ac)"

definition pracks :: "run_action list \<Rightarrow> request list" where
  "pracks ac = concat (map (\<lambda>a. case a of SendPrack r \<Rightarrow> [r] | _ \<Rightarrow> []) ac)"

lemma invites_simps [simp]:
  "invites [] = []" "invites (a # as) = (case a of SendInvite r \<Rightarrow> [r] | _ \<Rightarrow> []) @ invites as"
  "invites (as @ bs) = invites as @ invites bs"
  by (simp_all add: invites_def)

lemma pracks_simps [simp]:
  "pracks [] = []" "pracks (a # as) = (case a of SendPrack r \<Rightarrow> [r] | _ \<Rightarrow> []) @ pracks as"
  "pracks (as @ bs) = pracks as @ pracks bs"
  by (simp_all add: pracks_def)

text \<open>The INVITEs the retries may still send.\<close>

definition retries_left :: "run_state \<Rightarrow> nat" where
  "retries_left s = (maxAuthAttempts - authAttempts s) + (if retried422 s then 0 else 1)"

text \<open>What a retry keeps of the INVITE.\<close>

definition same_call :: "request \<Rightarrow> request \<Rightarrow> bool" where
  "same_call r q \<longleftrightarrow> reqCallID r = reqCallID q \<and> reqFrom r = reqFrom q \<and> fromTag r = fromTag q \<and> toTag r = toTag q \<and>
     Recipient r = Recipient q \<and> reqBody r = reqBody q \<and> reqMethod r = reqMethod q \<and>
     reqHdr r ''Max-Forwards'' = reqHdr q ''Max-Forwards''"

lemma retryWithAuth_sent:
  "retryWithAuth env res u = Inr u1 \<Longrightarrow>
     same_call (invite u1) (invite u) \<and> reqSeq (invite u1) = reqSeq (invite u) + 1 \<and> cseq u1 = reqSeq (invite u1) \<and>
     lastRSeq u1 = lastRSeq u"
  by (auto simp: retryWithAuth_def resend_def same_call_def append_header_def remove_header_def Let_def
      split: if_splits option.splits sum.splits)

lemma retryWithMinSE_sent:
  "retryWithMinSE env res u = Inr u1 \<Longrightarrow>
     same_call (invite u1) (invite u) \<and> reqSeq (invite u1) = reqSeq (invite u) + 1 \<and> cseq u1 = reqSeq (invite u1) \<and>
     lastRSeq u1 = lastRSeq u"
  by (auto simp: retryWithMinSE_def resend_def same_call_def append_header_def remove_header_def Let_def
      split: if_splits option.splits sum.splits prod.splits)

lemma on_response_retry:
  assumes "on_response env res s u = (ac, Continue s' u')" "\<not> IsProvisional res"
  shows "retries_left s = Suc (retries_left s') \<and> same_call (invite u') (invite u) \<and>
    reqSeq (invite u') = reqSeq (invite u) + 1 \<and> lastRSeq u' = lastRSeq u"
proof (cases "(resCode res = 401 \<or> resCode res = 407) \<and> authAttempts s < maxAuthAttempts \<and> password env \<noteq> [] \<and> \<not> cancelSent s")
  case True
  with assms show ?thesis
    by (cases "retryWithAuth env res u")
      (auto simp: on_response_def retried_def IsSuccess_def retries_left_def dest: retryWithAuth_sent)
next
  case False
  have "\<not> IsSuccess res" using assms by (auto simp: on_response_def)
  with False assms show ?thesis
    by (cases "retryWithMinSE env res u")
      (auto simp: on_response_def retried_def retries_left_def dest: retryWithMinSE_sent split: if_splits)
qed

lemma on_provisional_lists:
  "invites (fst (on_provisional res s u)) = []"
  "pracks (fst (on_provisional res s u)) = (case snd (maybePRACK res u) of None \<Rightarrow> [] | Some p \<Rightarrow> [p])"
  by (cases "snd (maybePRACK res u)"; simp add: on_provisional_eq)+

text \<open>One iteration: the INVITEs and the PRACKs it sends.\<close>

lemma run_step_invites:
  assumes "run_step env i s u = (ac, Continue s' u')"
  shows "invites ac = [] \<and> invite u' = invite u \<and> retries_left s' = retries_left s \<or>
    invites ac = [invite u'] \<and> retries_left s = Suc (retries_left s') \<and> same_call (invite u') (invite u) \<and>
      reqSeq (invite u') = reqSeq (invite u) + 1"
proof (cases i)
  case (Response res)
  obtain ac1 where r: "on_response env res (s\<lparr>answered := True\<rparr>) u = (ac1, Continue s' u')"
    "ac = (if answered s then [] else [FirstResponse]) @ ApplySDP res # ac1"
    using assms(1) by (auto simp: run_step_def Response split: prod.splits)
  show ?thesis
  proof (cases "IsProvisional res")
    case True
    then have e: "on_provisional res (s\<lparr>answered := True\<rparr>) u = (ac1, Continue s' u')"
      using r(1) by (simp add: on_response_def)
    then have "invite u' = invite u \<and> retries_left s' = retries_left s"
      by (auto simp: on_provisional_eq retries_left_def)
    moreover have "invites ac = []"
      using on_provisional_lists(1) [of res "s\<lparr>answered := True\<rparr>" u] by (simp add: r(2) e)
    ultimately show ?thesis by simp
  next
    case False
    with retry_continue [OF r(1) False] on_response_retry [OF r(1) False] show ?thesis
      by (simp add: r(2) retries_left_def)
  qed
qed (use assms in \<open>auto simp: run_step_def request_cancel_def sendCancel_def Let_def retries_left_def split: if_splits\<close>)

lemma run_step_return_invites:
  assumes "run_step env i s u = (ac, Return u' r)"
  shows "invites ac = [] \<and> pracks ac = []"
proof (cases i)
  case (Response res)
  obtain ac1 where r: "on_response env res (s\<lparr>answered := True\<rparr>) u = (ac1, Return u' r)"
    "ac = (if answered s then [] else [FirstResponse]) @ ApplySDP res # ac1"
    using assms(1) by (auto simp: run_step_def Response split: prod.splits)
  have "invites ac1 = [] \<and> pracks ac1 = []"
    by (cases "retryWithAuth env res u"; cases "retryWithMinSE env res u")
      (use r(1) in \<open>auto simp: on_response_def on_provisional_eq split: if_splits\<close>)
  then show ?thesis by (simp add: r(2))
qed (use assms in \<open>auto simp: run_step_def split: if_splits prod.splits\<close>)

lemma same_call_trans: "same_call a b \<Longrightarrow> same_call b c \<Longrightarrow> same_call a c"
  by (simp add: same_call_def)

text \<open>An INVITE list in which each entry continues the call of the one before it.\<close>

fun chain_of :: "request \<Rightarrow> request list \<Rightarrow> bool" where
  "chain_of q [] = True"
| "chain_of q (r # rs) = (same_call r q \<and> reqSeq r = reqSeq q + 1 \<and> chain_of r rs)"

lemma uac_run_invites:
  "chain_of (invite u) (invites (fst (uac_run env is s u))) \<and> length (invites (fst (uac_run env is s u))) \<le> retries_left s"
proof (induction "is" arbitrary: s u)
  case (Cons i "is")
  obtain ac out where st: "run_step env i s u = (ac, out)" by fastforce
  show ?case
  proof (cases out)
    case (Continue s' u')
    obtain ac' out' where rest: "uac_run env is s' u' = (ac', out')" by fastforce
    from run_step_invites [OF st [unfolded Continue]] Cons.IH [of u' s'] show ?thesis
      by (auto simp: st Continue rest)
  next
    case (Return u' r)
    then show ?thesis using run_step_return_invites [OF st [unfolded Return]] by (simp add: st)
  qed
qed simp

text \<open>C17: However the peer answers, the INVITE loop sends at most three more INVITEs (two with credentials and
  one after a 422), each with the Call-ID, From tag, target and body of the first and with the CSeq
  number of the one before it plus one.\<close>

theorem retries_bounded:
  "length (invites (fst (uac_run env is run_init u))) \<le> 3 \<and> chain_of (invite u) (invites (fst (uac_run env is run_init u)))"
  using uac_run_invites [of u env "is" run_init] by (simp add: retries_left_def run_init_def)

section \<open>PRACK\<close>

definition rack :: "nat \<Rightarrow> request \<Rightarrow> string" where
  "rack rseq q = FormatNat rseq @ '' '' @ FormatNat (unat (reqSeq q)) @ '' INVITE''"

lemma maybePRACK_cases:
  "(\<exists>u2. maybePRACK res u = (u2, None) \<and> u2 = u) \<or>
   (\<exists>rseq u2 p. maybePRACK res u = (u2, Some p) \<and> lastRSeq u < rseq \<and> lastRSeq u2 = rseq \<and>
      reqMethod p = ''PRACK'' \<and> reqHdr p ''RAck'' = [rack rseq (invite u)] \<and> reqSeq p = cseq u + 1 \<and> cseq u2 = cseq u + 1 \<and>
      reqCallID p = reqCallID (invite u) \<and> toTag p = resToTag res)"
proof (cases "\<not> hasOption (resHdr res) ''Require'' ''100rel'' \<or> first_header (resHdr res) ''RSeq'' = None \<or>
    ParseUint32 (TrimSpace (the (first_header (resHdr res) ''RSeq''))) = None \<or>
    the (ParseUint32 (TrimSpace (the (first_header (resHdr res) ''RSeq'')))) \<le> lastRSeq u")
  case True
  then show ?thesis by (auto simp: maybePRACK_def split: option.splits)
next
  case False
  then obtain h rseq where h: "hasOption (resHdr res) ''Require'' ''100rel''" "first_header (resHdr res) ''RSeq'' = Some h"
    "ParseUint32 (TrimSpace h) = Some rseq" "lastRSeq u < rseq"
    by (auto simp: not_le)
  show ?thesis
    by (rule disjI2, rule exI [of _ rseq])
      (simp add: h maybePRACK_def Let_def split_beta rack_def not_le inDialog_def established_def append_header_def no_headers_def)
qed

text \<open>The RSeq numbers the loop acknowledges and the INVITEs they belong to, in order.\<close>

definition racks_above :: "nat \<Rightarrow> request list \<Rightarrow> bool" where
  "racks_above n ps \<longleftrightarrow> (\<exists>rs. sorted_wrt (<) (n # map fst rs) \<and>
     map (\<lambda>p. reqHdr p ''RAck'') ps = map (\<lambda>(k, q). [rack k q]) rs \<and> (\<forall>p \<in> set ps. reqMethod p = ''PRACK''))"

lemma racks_above_Cons:
  assumes "racks_above m ps" "n < m" "reqHdr p ''RAck'' = [rack m q]" "reqMethod p = ''PRACK''"
  shows "racks_above n (p # ps)"
proof -
  obtain rs where "sorted_wrt (<) (m # map fst rs)" "map (\<lambda>p. reqHdr p ''RAck'') ps = map (\<lambda>(k, q). [rack k q]) rs"
    "\<forall>p \<in> set ps. reqMethod p = ''PRACK''"
    using assms(1) by (auto simp: racks_above_def)
  with assms(2-4) show ?thesis
    unfolding racks_above_def by (intro exI [of _ "(m, q) # rs"]) auto
qed

lemma racks_above_Nil [simp]: "racks_above n []"
  by (simp add: racks_above_def)

lemma run_step_pracks:
  assumes "run_step env i s u = (ac, Continue s' u')" "racks_above (lastRSeq u') ps"
  shows "racks_above (lastRSeq u) (pracks ac @ ps)"
proof (cases i)
  case (Response res)
  obtain ac1 where r: "on_response env res (s\<lparr>answered := True\<rparr>) u = (ac1, Continue s' u')"
    "ac = (if answered s then [] else [FirstResponse]) @ ApplySDP res # ac1"
    using assms(1) by (auto simp: run_step_def Response split: prod.splits)
  show ?thesis
  proof (cases "IsProvisional res")
    case True
    then have e: "on_provisional res (s\<lparr>answered := True\<rparr>) u = (ac1, Continue s' u')"
      using r(1) by (simp add: on_response_def)
    then have "u' = fst (maybePRACK res u)" by (auto simp: on_provisional_eq)
    moreover have "pracks ac = (case snd (maybePRACK res u) of None \<Rightarrow> [] | Some p \<Rightarrow> [p])"
      using on_provisional_lists(2) [of res "s\<lparr>answered := True\<rparr>" u] by (simp add: r(2) e)
    ultimately show ?thesis
      using maybePRACK_cases [of res u] assms(2) by (auto intro: racks_above_Cons)
  next
    case False
    with retry_continue [OF r(1) False] on_response_retry [OF r(1) False] assms(2) show ?thesis
      by (simp add: r(2))
  qed
qed (use assms in \<open>auto simp: run_step_def request_cancel_def sendCancel_def Let_def split: if_splits\<close>)

lemma uac_run_pracks: "racks_above (lastRSeq u) (pracks (fst (uac_run env is s u)))"
proof (induction "is" arbitrary: s u)
  case (Cons i "is")
  obtain ac out where st: "run_step env i s u = (ac, out)" by fastforce
  show ?case
  proof (cases out)
    case (Continue s' u')
    obtain ac' out' where rest: "uac_run env is s' u' = (ac', out')" by fastforce
    from run_step_pracks [OF st [unfolded Continue] Cons.IH [of u' s']] show ?thesis
      by (simp add: st Continue rest)
  next
    case (Return u' r)
    then show ?thesis using run_step_return_invites [OF st [unfolded Return]] by (simp add: st)
  qed
qed simp

text \<open>The loop acknowledges every reliable provisional response at most once and in the order of their
  RSeq numbers: the PRACKs it sends carry RAck values with strictly increasing RSeq, so a
  retransmitted 18x is not acknowledged again.\<close>

theorem prack_increasing:
  "racks_above (lastRSeq u) (pracks (fst (uac_run env is s u)))"
  by (rule uac_run_pracks)

section \<open>Witness\<close>

definition demo_invite :: request where
  "demo_invite = \<lparr>reqMethod = ''INVITE'', Recipient = \<lparr>uScheme = ''sip'', uUser = ''200'', uHost = ''pbx'', uPort = 5060\<rparr>,
     reqFrom = \<lparr>uScheme = ''sip'', uUser = ''100'', uHost = ''pbx'', uPort = 0\<rparr>, fromTag = Some ''a'', toTag = None,
     reqCallID = ''c1'', reqSeq = 1, reqSeqMethod = ''INVITE'', via = None, reqHdr = no_headers, reqDest = [], reqBody = []\<rparr>"

definition demo_response :: "int \<Rightarrow> response" where
  "demo_response n = \<lparr>resCode = n, resReason = [], resToTag = Some ''b'', resContact = None, resSeq = 1,
     resHdr = no_headers, resBody = []\<rparr>"

definition demo_uac :: uac_env where
  "demo_uac = \<lparr>password = [], ParseChallenge = Inr, Digest = (\<lambda>_ _. Inr []), SendTx = (\<lambda>_. Inr ''z9hG4bK1'')\<rparr>"

lemma demo_hangup:
  "\<exists>ac s u. uac_run demo_uac [CancelRequested] run_init (newUAC [] demo_invite) = (ac, Continue s u)"
  by (simp add: run_step_def request_cancel_def run_init_def Let_def)

theorem hangup_cancels_witness:
  "\<exists>ac' s' u'. uac_run demo_uac [CancelRequested, Response (demo_response 180)] run_init (newUAC [] demo_invite) =
     (ac', Continue s' u') \<and> cancelSent s'"
proof -
  obtain ac s u where run: "uac_run demo_uac [CancelRequested] run_init (newUAC [] demo_invite) = (ac, Continue s u)"
    using demo_hangup by blast
  have "CancelRequested \<in> set [CancelRequested] \<or> NoAnswerTimer \<in> set [CancelRequested]" by simp
  moreover have "IsProvisional (demo_response 180)" by (simp add: IsProvisional_def demo_response_def)
  ultimately show ?thesis using hangup_cancels [OF run] unfolding append_Cons append_Nil by blast
qed

end
