(* ===== verification/Sessions.thy ===== *)
theory Sessions
  imports Sip
begin

text \<open>
  Session timers, \<open>engine/timers.go\<close>: which side refreshes, the header fields that say so,
  and the timer each side arms. A header the code adds is a pair of a name and a value; the
  peer sees the values of a name in that order (\<open>headers_of\<close>).
\<close>

type_synonym hdr = "string \<times> string"

definition headers_of :: "hdr list \<Rightarrow> headers" where
  "headers_of hs name = map snd (filter (\<lambda>h. fst h = name) hs)"

text \<open>\<open>int(exp / time.Second)\<close>: Go's division truncates towards zero.\<close>

definition seconds :: "duration \<Rightarrow> int" where
  "seconds e = (if e < 0 then - ((- e) div 1000000000) else e div 1000000000)"

definition session_value :: "duration \<Rightarrow> string \<Rightarrow> string" where
  "session_value e who = Itoa (seconds e) @ '';refresher='' @ who"

section \<open>The timer\<close>

definition startSession :: "duration \<Rightarrow> bool \<Rightarrow> Call \<Rightarrow> Call" where
  "startSession e weRefresh c =
     (if e \<le> 0 then c else sessionRefreshed (set_session e weRefresh c))"

text \<open>The UAC side, from the 2xx of our INVITE.\<close>

definition sessionFromAnswer :: "headers \<Rightarrow> Call \<Rightarrow> Call" where
  "sessionFromAnswer h c =
     (case parseSessionExpires h of None \<Rightarrow> c
      | Some (e, who) \<Rightarrow> startSession e (who \<noteq> ''uas'') c)"

text \<open>
  The UAS side, from the INVITE: the header fields of our 2xx, and what \<open>startSessionLater\<close> runs
  once the call is answered.
\<close>

definition sessionForAnswer :: "duration \<Rightarrow> headers \<Rightarrow> hdr list \<times> (duration \<times> bool) option" where
  "sessionForAnswer cfgExpires h =
     (case (case parseSessionExpires h of
              Some (e, who) \<Rightarrow> Some (e, if who = [] then ''uac'' else who)
            | None \<Rightarrow> if cfgExpires \<le> 0 \<or> \<not> hasOption h ''Supported'' ''timer'' then None
                      else Some (cfgExpires, ''uac'')) of
        None \<Rightarrow> ([], None)
      | Some (e, who) \<Rightarrow>
          ((''Session-Expires'', session_value e who) #
           (if hasOption h ''Supported'' ''timer'' then [(''Require'', ''timer'')] else []),
           Some (e, who = ''uas'')))"

definition startSessionLater :: "(duration \<times> bool) option \<Rightarrow> Call \<Rightarrow> Call" where
  "startSessionLater l c = (case l of None \<Rightarrow> c | Some (e, w) \<Rightarrow> startSession e w c)"

text \<open>The header fields of our re-INVITE.\<close>

definition sessionHeaders :: "Call \<Rightarrow> hdr list" where
  "sessionHeaders c =
     (''Supported'', ''100rel, timer'') #
     (case sess c of None \<Rightarrow> []
      | Some s \<Rightarrow> [(''Session-Expires'', session_value (expires s) (if refresher s then ''uac'' else ''uas''))])"

text \<open>The echo in our response to a refresh.\<close>

definition addSessionHeaders :: "headers \<Rightarrow> hdr list" where
  "addSessionHeaders h =
     (case parseSessionExpires h of None \<Rightarrow> []
      | Some (e, who) \<Rightarrow>
          [(''Session-Expires'', session_value e (if who = [] then ''uac'' else who)), (''Require'', ''timer'')])"

section \<open>Values the parser returns\<close>

text \<open>A refresher value that survives printing: in lower case, within one parameter, trimmed.\<close>

definition who_ok :: "string \<Rightarrow> bool" where
  "who_ok w \<longleftrightarrow> CHR '';'' \<notin> set w \<and> (w \<noteq> [] \<longrightarrow> \<not> is_space (last w)) \<and> ToLower w = w"

lemma lower_idem [simp]: "lower (lower c) = lower c"
  by (simp add: lower_def Let_def)

lemma lower_semicolon [simp]: "lower c = CHR '';'' \<longleftrightarrow> c = CHR '';''"
proof -
  have "of_char c < (256 :: nat)" by simp
  then show ?thesis
    by (cases "65 \<le> (of_char c :: nat) \<and> (of_char c :: nat) \<le> 90")
      (auto simp: lower_def Let_def dest: arg_cong [of _ _ "of_char :: char \<Rightarrow> nat"])
qed

lemma is_space_code: "is_space c \<longleftrightarrow> (of_char c :: nat) \<in> {32, 9, 10, 11, 12, 13}"
proof -
  have e: "c = char_of n \<longleftrightarrow> of_char c = n" if "n < 256" for n :: nat
    using that by (auto simp: of_char_of take_bit_eq_mod)
  show ?thesis
    using e [of 32] e [of 9] e [of 10] e [of 11] e [of 12] e [of 13]
    by (simp add: is_space_def char_eval)
qed

lemma lower_space [simp]: "is_space (lower c) \<longleftrightarrow> is_space c"
  by (auto simp: is_space_code lower_def Let_def take_bit_eq_mod)

lemma TrimSpace_last:
  assumes "TrimSpace s \<noteq> []"
  shows "\<not> is_space (last (TrimSpace s))"
proof -
  have "dropWhile is_space (rev (TrimLeft s)) \<noteq> []" using assms by (simp add: TrimSpace_def TrimLeft_def)
  then have "\<not> is_space (hd (dropWhile is_space (rev (TrimLeft s))))" by (rule hd_dropWhile)
  then show ?thesis using assms by (simp add: TrimSpace_def TrimLeft_def last_rev)
qed

lemma TrimSpace_set: "set (TrimSpace s) \<subseteq> set s"
  by (auto simp: TrimSpace_def TrimLeft_def dest!: set_dropWhileD)

lemma refresher_param_ok:
  assumes "who_ok cur" "CHR '';'' \<notin> set p"
  shows "who_ok (refresher_param p cur)"
proof -
  obtain k v ok where c: "Cut (TrimSpace p) ''='' = (k, v, ok)" by (cases "Cut (TrimSpace p) ''=''")
  show ?thesis
  proof (cases "ok \<and> EqualFold k ''refresher''")
    case True
    then have e: "TrimSpace p = k @ CHR ''='' # v" using Cut_char_split c by auto
    have "CHR '';'' \<notin> set v" using assms(2) TrimSpace_set [of p] by (auto simp: e)
    moreover have "v \<noteq> [] \<Longrightarrow> \<not> is_space (last v)" using TrimSpace_last [of p] by (simp add: e)
    moreover have "CHR '';'' \<notin> set (ToLower v)"
      using \<open>CHR '';'' \<notin> set v\<close> by (auto simp: ToLower_def dest: sym [of "CHR '';''"])
    ultimately show ?thesis
      using True by (auto simp: refresher_param_def c who_ok_def ToLower_def last_map)
  qed (use assms c in \<open>auto simp: refresher_param_def\<close>)
qed

lemma refresher_params_ok:
  "who_ok cur \<Longrightarrow> \<forall>p \<in> set ps. CHR '';'' \<notin> set p \<Longrightarrow> who_ok (fold refresher_param ps cur)"
  by (induction ps arbitrary: cur) (simp_all add: refresher_param_ok)

lemma parse_who_ok:
  assumes "parseSessionExpires h = Some (e, w)"
  shows "who_ok w"
proof -
  have "who_ok []" by (simp add: who_ok_def ToLower_def)
  then show ?thesis
    using assms refresher_params_ok Split_parts
    by (auto simp: parseSessionExpires_def Let_def split: option.splits prod.splits if_splits)
qed

lemma parse_bounds:
  assumes "parseSessionExpires h = Some (e, w)"
  shows "- (2 ^ 63) \<le> e" "e < 2 ^ 63"
proof -
  obtain x where "e = wrap64 x"
    using assms by (auto simp: parseSessionExpires_def Let_def split: option.splits prod.splits if_splits)
  then show "- (2 ^ 63) \<le> e" "e < 2 ^ 63"
    using sint_ge [of "word_of_int x :: 64 word"] sint_lt [of "word_of_int x :: 64 word"] by (simp_all add: wrap64_def)
qed

section \<open>Printing and parsing\<close>

lemma wrap64_id: "- (2 ^ 63) \<le> x \<Longrightarrow> x < 2 ^ 63 \<Longrightarrow> wrap64 x = x"
  by (simp add: wrap64_def sint_sbintrunc' signed_take_bit_int_eq_self)

lemma digits_no_space: "is_digit c \<Longrightarrow> \<not> is_space c"
  by (auto simp: is_digit_def is_space_code Let_def)

lemma Itoa_plain: "0 \<le> i \<Longrightarrow> list_all (\<lambda>c. \<not> is_space c) (Itoa i) \<and> CHR '';'' \<notin> set (Itoa i)"
  using FormatNat_digits [of "nat i"] digits_no_space
  by (auto simp: Itoa_def list_all_iff is_digit_def)

lemma TrimSpace_ends:
  assumes "s \<noteq> []" "\<not> is_space (hd s)" "\<not> is_space (last s)"
  shows "TrimSpace s = s"
proof -
  have l: "TrimLeft s = s" using assms(1,2) by (cases s) (simp_all add: TrimLeft_def)
  have "dropWhile is_space (rev s) = rev s"
    using assms(1,3) by (cases s rule: rev_cases) simp_all
  then show ?thesis by (simp add: TrimSpace_def l) (simp add: TrimLeft_def)
qed

lemma parse_session_value:
  assumes h: "h ''Session-Expires'' = [session_value e w]" and e: "1000000000 \<le> e" "e < 2 ^ 63" and w: "who_ok w"
  shows "parseSessionExpires h = Some (e div 1000000000 * 1000000000, w)"
proof -
  let ?n = "e div 1000000000"
  have n: "1 \<le> ?n" "?n < 2 ^ 63" "?n * 1000000000 \<le> e" using e by simp_all
  have cut: "Cut (session_value e w) '';'' = (Itoa ?n, ''refresher='' @ w, True)"
    using Cut_char_found [of "CHR '';''" "Itoa ?n" "''refresher='' @ w"] Itoa_plain [of ?n] n(1) e(1)
    by (simp add: session_value_def seconds_def)
  have trim: "TrimSpace (''refresher='' @ w) = ''refresher='' @ w"
    using w by (intro TrimSpace_ends) (auto simp: who_ok_def is_space_def)
  have split: "Split (''refresher='' @ w) (CHR '';'') = [''refresher='' @ w]"
    using w by (intro Split_absent) (simp add: who_ok_def)
  have "Cut (''refresher='' @ w) ''='' = (''refresher'', w, True)"
    using Cut_char_found [of "CHR ''=''" "''refresher''" w] by simp
  then have param: "refresher_param (''refresher='' @ w) [] = w"
    using w trim by (simp add: refresher_param_def who_ok_def)
  have atoi: "Atoi (TrimSpace (Itoa ?n)) = (?n, True)"
    using Itoa_plain [of ?n] n by (simp add: TrimSpace_plain Atoi_Itoa)
  have "wrap64 (?n * 1000000000) = ?n * 1000000000"
    using n e by (intro wrap64_id) simp_all
  moreover have "first_header h ''Session-Expires'' = Some (session_value e w)"
    by (simp add: first_header_def h)
  ultimately show ?thesis
    using n(1) by (simp add: parseSessionExpires_def cut atoi split param del: append.simps)
qed

lemma who_uac [simp]: "who_ok ''uac''" "who_ok ''uas''"
  by (simp_all add: who_ok_def is_space_def ToLower_def lower_def char_eval)

section \<open>One refresher\<close>

lemma startSession_sess:
  assumes "0 < e" "state c \<noteq> StateEnded"
  shows "sess (startSession e w c) = Some \<lparr>expires = e, refresher = w,
    armed = Some (if w then e div 2 else e - min (32 * 1000000000) (e div 3))\<rparr>"
  using assms by (simp add: startSession_def set_session_def sessionRefreshed_def)

lemma sessionForAnswer_cases:
  assumes "sessionForAnswer se h = (hdrs, Some (e, w))"
  shows "\<exists>who. who_ok who \<and> w = (who = ''uas'') \<and> headers_of hdrs ''Session-Expires'' = [session_value e who] \<and>
    (w \<longrightarrow> parseSessionExpires h = Some (e, ''uas''))"
proof (cases "parseSessionExpires h")
  case None
  with assms have "e = se" "\<not> w" "hdrs = (''Session-Expires'', session_value e ''uac'') # [(''Require'', ''timer'')]"
    by (auto simp: sessionForAnswer_def split: if_splits)
  then show ?thesis by (intro exI [of _ "''uac''"]) (simp add: headers_of_def)
next
  case (Some p)
  obtain e0 w0 where p: "p = (e0, w0)" by (cases p)
  let ?who = "if w0 = [] then ''uac'' else w0"
  have "who_ok ?who" using parse_who_ok [of h e0 w0] Some p by simp
  moreover have "e = e0" "w = (?who = ''uas'')" "headers_of hdrs ''Session-Expires'' = [session_value e ?who]"
    using assms by (auto simp: sessionForAnswer_def Some p headers_of_def)
  ultimately show ?thesis
    by (intro exI [of _ ?who]) (auto simp: Some p split: if_splits)
qed

lemma parsed_whole:
  assumes "parseSessionExpires h = Some (e, w)" "1000000000 \<le> e"
  shows "\<exists>n. e = wrap64 (n * 1000000000)"
  using assms by (auto simp: parseSessionExpires_def Let_def split: option.splits prod.splits if_splits)

text \<open>C20: Both ends of an answered call agree who refreshes the session, from the header the answering side
  printed and the calling side parsed: exactly one of them is the refresher, the two intervals are
  equal up to the fraction of a second the header drops, and the refresher's timer fires before the
  other side's expiry (for an interval the calling side named in whole seconds, or that the answering
  side took from its configuration and left the caller to refresh).\<close>

theorem one_refresher:
  assumes ans: "sessionForAnswer se h = (hdrs, Some (e, w))"
    and e: "1000000000 \<le> e" "e < 2 ^ 63" and whole: "w \<Longrightarrow> e mod 1000000000 = 0"
    and st: "state a = StateConnected" "state b = StateConnected"
  shows "\<exists>sa sb da db. sess (sessionFromAnswer (headers_of hdrs) a) = Some sa \<and> sess (startSessionLater (Some (e, w)) b) = Some sb \<and>
    refresher sa \<noteq> refresher sb \<and> expires sa = e div 1000000000 * 1000000000 \<and> expires sb = e \<and>
    armed sa = Some da \<and> armed sb = Some db \<and> (if refresher sa then da < db else db < da)"
proof -
  obtain who where who: "who_ok who" "w = (who = ''uas'')" "headers_of hdrs ''Session-Expires'' = [session_value e who]"
    using sessionForAnswer_cases [OF ans] by blast
  have parsed: "parseSessionExpires (headers_of hdrs) = Some (e div 1000000000 * 1000000000, who)"
    by (rule parse_session_value [where h = "headers_of hdrs", OF who(3) e who(1)])
  have pos: "0 < e div 1000000000 * 1000000000" "0 < e" using e(1) by simp_all
  have a: "sess (sessionFromAnswer (headers_of hdrs) a) = Some \<lparr>expires = e div 1000000000 * 1000000000, refresher = \<not> w,
      armed = Some (if \<not> w then e div 1000000000 * 1000000000 div 2
        else e div 1000000000 * 1000000000 - min (32 * 1000000000) (e div 1000000000 * 1000000000 div 3))\<rparr>"
    using startSession_sess [OF pos(1)] st(1) parsed who(2) by (simp add: sessionFromAnswer_def)
  have b: "sess (startSessionLater (Some (e, w)) b) = Some \<lparr>expires = e, refresher = w,
      armed = Some (if w then e div 2 else e - min (32 * 1000000000) (e div 3))\<rparr>"
    using startSession_sess [OF pos(2)] st(2) by (simp add: startSessionLater_def)
  let ?e = "e div 1000000000 * 1000000000"
  have lt: "x div 2 < y - min (32 * 1000000000) (y div 3)" if "x \<le> y" "1000000000 \<le> y" for x y :: int
    using that by linarith
  have us: "?e div 2 < e - min (32 * 1000000000) (e div 3)" by (rule lt) (use e(1) in simp_all)
  have peer: "w \<Longrightarrow> e div 2 < ?e - min (32 * 1000000000) (?e div 3)"
  proof -
    assume w
    then have "e mod 1000000000 = 0" by (rule whole)
    then have eq: "?e = e" using div_mult_mod_eq [of e 1000000000] by (simp only: add_0_right)
    have "e div 2 < e - min (32 * 1000000000) (e div 3)" by (rule lt [OF order_refl e(1)])
    then show "e div 2 < ?e - min (32 * 1000000000) (?e div 3)" by (simp only: eq)
  qed
  have lt: "if w then e div 2 < ?e - min (32 * 1000000000) (?e div 3) else ?e div 2 < e - min (32 * 1000000000) (e div 3)"
    using us peer by (rule_tac if_split [THEN iffD2]) blast
  define n ta tb where "n = ?e" and "ta = (if \<not> w then n div 2 else n - min (32 * 1000000000) (n div 3))"
    and "tb = (if w then e div 2 else e - min (32 * 1000000000) (e div 3))"
  have "if w then tb < ta else ta < tb" using lt by (cases w) (simp_all only: n_def ta_def tb_def if_True if_False simp_thms)
  then show ?thesis
    unfolding a [folded n_def, folded ta_def] b [folded tb_def] n_def [symmetric] by (cases w) simp_all
qed

definition demo_headers :: headers where
  "demo_headers = headers_of [(''Supported'', ''timer''), (''Session-Expires'', ''90;refresher=uas'')]"

lemma demo_session: "sessionForAnswer 0 demo_headers =
    ([(''Session-Expires'', session_value 90000000000 ''uas''), (''Require'', ''timer'')], Some (90000000000, True))"
proof -
  have "parseSessionExpires demo_headers = Some (90000000000, ''uas'')"
    using parse_session_value [of demo_headers 90000000000 "''uas''"]
    by (simp add: demo_headers_def headers_of_def session_value_def seconds_def Itoa_def FormatNat.simps digit_def char_eval)
  moreover have "hasOption demo_headers ''Supported'' ''timer''"
    by (simp add: hasOption_def demo_headers_def headers_of_def TrimSpace_plain is_space_def)
  ultimately show ?thesis by (simp add: sessionForAnswer_def)
qed

theorem one_refresher_witness:
  "\<exists>sa sb. sess (sessionFromAnswer (headers_of [(''Session-Expires'', session_value 90000000000 ''uas''), (''Require'', ''timer'')])
       (markConnected 1 (newCall Outgoing 0))) = Some sa \<and>
     sess (startSessionLater (Some (90000000000, True)) (markConnected 1 (newCall Incoming 0))) = Some sb \<and>
     refresher sa \<noteq> refresher sb"
  using one_refresher [OF demo_session, of "markConnected 1 (newCall Outgoing 0)" "markConnected 1 (newCall Incoming 0)"]
  by (auto simp: markConnected_def newCall_def)

end
