(* ===== verification/Dialogs.thy ===== *)
theory Dialogs
  imports Sessions
begin

text \<open>
  Requests within a call's dialog, \<open>engine/dialog.go\<close> with the offer/answer part of
  \<open>engine/callmedia.go\<close>: hold and unhold by re-INVITE, session refreshes, and the answers to
  the other side's re-INVITE and UPDATE. The transport is a parameter: the peer is a function
  from the body and header fields of our request to its final response or the error.
\<close>

record sdp_env =
  parser :: sdp_parser            \<comment> \<open>pion/sdp\<close>
  network :: net_env
  devIP :: string
  devPort :: int
  sdpClock :: int                 \<comment> \<open>\<open>time.Now().UnixNano() / 1000\<close>\<close>

section \<open>Descriptions\<close>

text \<open>The description of a call without media, \<open>engine/sdp.go\<close>; the direction is not used.\<close>

definition sdpAudioDir :: "int \<Rightarrow> string \<Rightarrow> int \<Rightarrow> Direction \<Rightarrow> string" where
  "sdpAudioDir clock ip p d =
     ''v=0'' @ crlf @ ''o=- '' @ Itoa clock @ '' '' @ Itoa clock @ '' IN IP4 '' @ ip @ crlf @ ''s=-'' @ crlf @
     ''c=IN IP4 '' @ ip @ crlf @ ''t=0 0'' @ crlf @ ''m=audio '' @ Itoa p @ '' RTP/AVP 0 8 101'' @ crlf @
     ''a=rtpmap:0 PCMU/8000'' @ crlf @ ''a=rtpmap:8 PCMA/8000'' @ crlf @
     ''a=rtpmap:101 telephone-event/8000'' @ crlf @ ''a=fmtp:101 0-16'' @ crlf @ ''a=ptime:20'' @ crlf @
     ''a=sendrecv'' @ crlf"

definition sdpAudio :: "int \<Rightarrow> string \<Rightarrow> int \<Rightarrow> string" where
  "sdpAudio clock ip p = sdpAudioDir clock ip p SendRecv"

definition placeholderSDP :: "sdp_env \<Rightarrow> string" where
  "placeholderSDP e = sdpAudio (sdpClock e) (devIP e) (devPort e + 2)"

text \<open>
  An answer to our offer: the stream applies it, or the error is only traced. \<open>remoteSDP\<close> skips an
  absent body, \<open>ackAnswer\<close> is called with one.
\<close>

definition apply_body :: "sdp_env \<Rightarrow> string \<Rightarrow> Stream \<Rightarrow> Stream" where
  "apply_body e body st =
     (case ParseSDP (parser e) (network e) body of Inl _ \<Rightarrow> st
      | Inr r \<Rightarrow> (case ApplyAnswer st r of Inl _ \<Rightarrow> st | Inr st' \<Rightarrow> st'))"

definition remoteSDP :: "sdp_env \<Rightarrow> string \<Rightarrow> Call \<Rightarrow> Call" where
  "remoteSDP e body c =
     (case media c of None \<Rightarrow> c
      | Some st \<Rightarrow> if body = [] then c else c\<lparr>media := Some (apply_body e body st)\<rparr>)"

definition ackAnswer :: "sdp_env \<Rightarrow> string \<Rightarrow> Call \<Rightarrow> Call" where
  "ackAnswer e body c = c\<lparr>media := map_option (apply_body e body) (media c)\<rparr>"

text \<open>The answer to an in-dialog offer.\<close>

definition reofferAnswer :: "sdp_env \<Rightarrow> string \<Rightarrow> Call \<Rightarrow> Call \<times> string" where
  "reofferAnswer e offer c =
     (case media c of None \<Rightarrow> (c, placeholderSDP e)
      | Some st \<Rightarrow>
          (case (if offer = [] then None else
                   (case ParseSDP (parser e) (network e) offer of Inl _ \<Rightarrow> None | Inr r \<Rightarrow> Some r)) of
             Some r \<Rightarrow>
               (let (st', sdp) = Update st r
                in (c\<lparr>remoteHold := (Dir r = SendOnly \<or> Dir r = Inactive), media := Some st'\<rparr>, sdp))
           | None \<Rightarrow> (let (st', sdp) = Offer st SendRecv in (c\<lparr>media := Some st'\<rparr>, sdp))))"

section \<open>Our re-INVITE\<close>

text \<open>What a request got: no final response, or the response's status and body.\<close>

datatype reply = NoReply string | Reply int string

type_synonym peer = "string \<Rightarrow> hdr list \<Rightarrow> reply"

definition reply_ok :: "reply \<Rightarrow> bool" where
  "reply_ok r = (case r of NoReply _ \<Rightarrow> False | Reply n _ \<Rightarrow> 200 \<le> n \<and> n < 300)"

definition reinvite_body :: "sdp_env \<Rightarrow> Direction \<Rightarrow> Call \<Rightarrow> Call \<times> string" where
  "reinvite_body e d c =
     (case media c of
        Some st \<Rightarrow> (let (st', body) = Offer st d in (c\<lparr>media := Some st'\<rparr>, body))
      | None \<Rightarrow> (c, sdpAudioDir (sdpClock e) (devIP e) (devPort e + 2) d))"

text \<open>The call afterwards, success, and whether to retry after 491.\<close>

definition reinviteOnce :: "sdp_env \<Rightarrow> Direction \<Rightarrow> hdr list \<Rightarrow> peer \<Rightarrow> Call \<Rightarrow> Call \<times> bool \<times> bool" where
  "reinviteOnce e d hdrs pr c =
     (let (c1, body) = reinvite_body e d c
      in case pr body hdrs of
           NoReply _ \<Rightarrow>
             (c1\<lparr>media := (case media c of None \<Rightarrow> None | Some st \<Rightarrow> map_option (\<lambda>s. SetDirection s (dir st)) (media c1))\<rparr>,
              False, False)
         | Reply n ans \<Rightarrow>
             if \<not> (200 \<le> n \<and> n < 300) then
               (c1\<lparr>media := (case media c of None \<Rightarrow> None | Some st \<Rightarrow> map_option (\<lambda>s. SetDirection s (dir st)) (media c1))\<rparr>,
                False, n = 491)
             else
               (let c2 = remoteSDP e ans c1
                in (sessionRefreshed (c2\<lparr>localHold := (d \<noteq> SendRecv)\<rparr>), True, False)))"

text \<open>The loop has at most two rounds: the second one after a 491, whatever it returns.\<close>

definition reinvite :: "sdp_env \<Rightarrow> Direction \<Rightarrow> peer \<Rightarrow> peer \<Rightarrow> Call \<Rightarrow> Call \<times> bool" where
  "reinvite e d p1 p2 c =
     (if state c \<noteq> StateConnected then (c, False)
      else (let (c1, ok, retry) = reinviteOnce e d (sessionHeaders c) p1 c
            in if \<not> retry then (c1, ok)
               else (let (c2, ok2, _) = reinviteOnce e d (sessionHeaders c1) p2 c1 in (c2, ok2))))"

definition Hold :: "sdp_env \<Rightarrow> peer \<Rightarrow> peer \<Rightarrow> Call \<Rightarrow> Call \<times> bool" where
  "Hold e p1 p2 c = reinvite e SendOnly p1 p2 c"

definition Unhold :: "sdp_env \<Rightarrow> peer \<Rightarrow> peer \<Rightarrow> Call \<Rightarrow> Call \<times> bool" where
  "Unhold e p1 p2 c = reinvite e SendRecv p1 p2 c"

text \<open>The refresh of the session timer; \<open>True\<close> in the result: the call is hung up with an error.\<close>

definition refreshSession :: "sdp_env \<Rightarrow> peer \<Rightarrow> Call \<Rightarrow> Call \<times> bool" where
  "refreshSession e p c =
     (if state c \<noteq> StateConnected then (c, False)
      else (let d = (case media c of None \<Rightarrow> SendRecv | Some st \<Rightarrow> dir st);
                (c1, ok, _) = reinviteOnce e d (sessionHeaders c) p c
            in if ok then (c1, False)
               else (c1\<lparr>byeBy := EndedByError, byeReason := ''session refresh failed''\<rparr>, True)))"

definition sessionExpired :: "Call \<Rightarrow> Call \<times> bool" where
  "sessionExpired c =
     (if state c \<noteq> StateConnected then (c, False)
      else (c\<lparr>byeBy := EndedByTimeout, byeReason := ''session expired''\<rparr>, True))"

section \<open>The other side's re-INVITE and UPDATE\<close>

text \<open>The status, body and session header fields of our response; \<open>busy\<close>: our own re-INVITE is in progress.\<close>

definition onReInvite :: "sdp_env \<Rightarrow> bool \<Rightarrow> headers \<Rightarrow> string \<Rightarrow> Call option \<Rightarrow> Call option \<times> reply \<times> hdr list" where
  "onReInvite e busy h body found =
     (case found of None \<Rightarrow> (None, Reply 481 [], [])
      | Some c \<Rightarrow>
          if busy then (Some c, Reply 491 [], [])
          else (let (c1, sdp) = reofferAnswer e body c
                in (Some (sessionRefreshed c1), Reply 200 sdp, addSessionHeaders h)))"

definition onUpdate :: "sdp_env \<Rightarrow> headers \<Rightarrow> string \<Rightarrow> Call option \<Rightarrow> Call option \<times> reply \<times> hdr list" where
  "onUpdate e h body found =
     (case found of None \<Rightarrow> (None, Reply 481 [], [])
      | Some c \<Rightarrow>
          (let (c1, sdp) = (if body = [] then (c, []) else reofferAnswer e body c)
           in (Some (sessionRefreshed c1), Reply 200 sdp, addSessionHeaders h)))"

section \<open>What a re-INVITE leaves unchanged\<close>

lemma sessionRefreshed_fields [simp]:
  "state (sessionRefreshed c) = state c" "localHold (sessionRefreshed c) = localHold c"
  "remoteHold (sessionRefreshed c) = remoteHold c" "media (sessionRefreshed c) = media c"
  "endedBy (sessionRefreshed c) = endedBy c" "status (sessionRefreshed c) = status c"
  by (simp_all add: sessionRefreshed_def split: option.split)

lemma reinvite_body_fields:
  assumes "reinvite_body e d c = (c1, body)"
  shows "state c1 = state c" "localHold c1 = localHold c" "remoteHold c1 = remoteHold c" "sess c1 = sess c"
    "media c1 = map_option (\<lambda>st. fst (Offer st d)) (media c)"
  using assms by (auto simp: reinvite_body_def split: option.splits prod.splits)

text \<open>A stream up to the version of its descriptions, which only the text of the next one shows.\<close>

definition same_media :: "Stream option \<Rightarrow> Stream option \<Rightarrow> bool" where
  "same_media a b \<longleftrightarrow> map_option (\<lambda>s. s\<lparr>version := 0\<rparr>) a = map_option (\<lambda>s. s\<lparr>version := 0\<rparr>) b"

lemma same_media_trans: "same_media a b \<Longrightarrow> same_media b c \<Longrightarrow> same_media a c"
  by (simp add: same_media_def)

lemma SetDirection_Offer: "(SetDirection (fst (Offer st d)) (dir st))\<lparr>version := 0\<rparr> = st\<lparr>version := 0\<rparr>"
  by (simp add: SetDirection_def Offer_def Let_def)

lemma reinviteOnce_failed:
  assumes "reinviteOnce e d hdrs p c = (c', False, retry)"
  shows "same_media (media c') (media c) \<and> localHold c' = localHold c \<and> remoteHold c' = remoteHold c \<and> sess c' = sess c \<and>
    state c' = state c"
proof -
  obtain c1 body where b: "reinvite_body e d c = (c1, body)" by fastforce
  note f = reinvite_body_fields [OF b]
  show ?thesis
    using assms f SetDirection_Offer
    by (cases "media c")
      (auto simp: reinviteOnce_def b same_media_def Let_def split: reply.splits if_splits)
qed

text \<open>C19: A re-INVITE that fails leaves the call as it was: after an error or a final response other than
  2xx, even when a 491 made it try twice, the stream keeps its direction and everything else but the
  version number of the next description, and hold, remote hold and the session timer are unchanged.\<close>

theorem failed_reinvite_harmless:
  assumes "reinvite e d p1 p2 c = (c', False)"
  shows "same_media (media c') (media c) \<and> localHold c' = localHold c \<and> remoteHold c' = remoteHold c \<and> sess c' = sess c \<and>
    state c' = state c"
proof (cases "state c = StateConnected")
  case True
  obtain c1 ok retry where r: "reinviteOnce e d (sessionHeaders c) p1 c = (c1, ok, retry)" by (metis prod_cases3)
  show ?thesis
  proof (cases retry)
    case False
    then show ?thesis using assms reinviteOnce_failed [of e d _ p1 c c1 retry] r True by (simp add: reinvite_def)
  next
    case retry: True
    then have "\<not> ok" using r by (auto simp: reinviteOnce_def Let_def split: prod.splits reply.splits if_splits)
    then have one: "reinviteOnce e d (sessionHeaders c) p1 c = (c1, False, retry)" using r by simp
    obtain ok2 rt where two: "reinviteOnce e d (sessionHeaders c1) p2 c1 = (c', ok2, rt)"
      using assms r True retry by (auto simp: reinvite_def split: prod.splits)
    then have "\<not> ok2" using assms r True retry by (simp add: reinvite_def)
    then show ?thesis
      using reinviteOnce_failed [OF one] reinviteOnce_failed [of e d "sessionHeaders c1" p2 c1 c' rt] two same_media_trans by auto
  qed
qed (use assms in \<open>simp add: reinvite_def same_media_def\<close>)

section \<open>Hold seen from both ends\<close>

lemma buildSDP_nonempty [simp]: "buildSDP ip p cs dtmf d i v \<noteq> []"
  by (simp add: buildSDP_def)

lemma ParseSDP_Update:
  assumes "pion_sdp unmarshal" "reachable_at env b ip" "known_codec (codec b)" "dtmf_distinct [codec b] (remoteDTMF b)"
  shows "ParseSDP unmarshal env (snd (Update b r)) =
    Inr \<lparr>Addr = Some \<lparr>IP = ip, Port = port b\<rparr>, Codecs = [codec b], DTMFPT = remoteDTMF b, Dir = Reverse (Dir r)\<rparr>"
proof -
  have "codec (set_addr b r) = codec b" "remoteDTMF (set_addr b r) = remoteDTMF b" "port (set_addr b r) = port b"
    "cfg (set_addr b r) = cfg b"
    by (simp_all add: set_addr_def split: option.split)
  then show ?thesis
    using ParseSDP_sdpLocked [OF assms(1), of env "(set_addr b r)\<lparr>dir := Reverse (Dir r)\<rparr>" ip] assms(2-4)
    by (simp add: Update_def reachable_at_def)
qed

text \<open>The device that answers: what its handler does, as the peer the other end talks to.\<close>

definition answering :: "sdp_env \<Rightarrow> Call \<Rightarrow> peer" where
  "answering e b = (\<lambda>body hdrs. fst (snd (onReInvite e False (headers_of hdrs) body (Some b))))"

text \<open>One exchange, whatever carries the offer to the other end and the answer back.\<close>

lemma hold_over:
  assumes st: "state a = StateConnected" "media a = Some sa" "media b = Some sb"
    and pion: "pion_sdp (parser ea)" "pion_sdp (parser eb)"
    and sa: "offerable sa" "reachable_at (network eb) sa ipa"
    and sb: "reachable_at (network ea) sb ipb" "known_codec (codec sb)" "dtmf_distinct [codec sb] (remoteDTMF sb)"
      "\<exists>c \<in> set (cfgCodecs (cfg sa)). Name c = Name (codec sb)"
    and offer: "offer = snd (Offer sa d)"
  obtains b' ans hdrs where "onReInvite eb False h offer (Some b) = (Some b', Reply 200 ans, hdrs)" "ans \<noteq> []"
    "\<And>p1. p1 offer (sessionHeaders a) = Reply 200 ans \<Longrightarrow>
      \<exists>a' sa' sb'. reinvite ea d p1 p2 a = (a', True) \<and> media a' = Some sa' \<and> media b' = Some sb' \<and>
        localHold a' = (d \<noteq> SendRecv) \<and> remoteHold b' = (d = SendOnly \<or> d = Inactive) \<and>
        dir sa' = d \<and> dir sb' = Reverse d \<and> codec sa' = codec sb \<and> codec sb' = codec sb"
proof -
  let ?r = "\<lparr>Addr = Some \<lparr>IP = ipa, Port = port sa\<rparr>, Codecs = cfgCodecs (cfg sa), DTMFPT = defaultDTMFPT, Dir = d\<rparr>"
  let ?ans = "\<lparr>Addr = Some \<lparr>IP = ipb, Port = port sb\<rparr>, Codecs = [codec sb], DTMFPT = remoteDTMF sb, Dir = Reverse d\<rparr>"
  define ans where "ans = snd (Update sb ?r)"
  define b' where "b' = sessionRefreshed (b\<lparr>remoteHold := (d = SendOnly \<or> d = Inactive), media := Some (fst (Update sb ?r))\<rparr>)"
  have ne: "offer \<noteq> []" "ans \<noteq> []" by (simp_all add: offer Offer_def Update_def Let_def ans_def)
  have re: "reofferAnswer eb offer b =
      (b\<lparr>remoteHold := (d = SendOnly \<or> d = Inactive), media := Some (fst (Update sb ?r))\<rparr>, ans)"
    using ne(1) ParseSDP_Offer [OF pion(2) sa, of d] st(3) by (simp add: reofferAnswer_def offer ans_def split: prod.split)
  then obtain hdrs where run: "onReInvite eb False h offer (Some b) = (Some b', Reply 200 ans, hdrs)"
    by (simp add: onReInvite_def b'_def)
  have parsed: "ParseSDP (parser ea) (network ea) ans = Inr ?ans"
    using ParseSDP_Update [OF pion(1) sb(1-3), of ?r] by (simp add: ans_def)
  have "choose_codec (cfgCodecs (cfg sa)) [codec sb] False = Some (codec sb)"
    using sb(4) by (auto simp: choose_codec_def dest: sym)
  then obtain sa' where sa': "ApplyAnswer (fst (Offer sa d)) ?ans = Inr sa'" "codec sa' = codec sb" "dir sa' = d"
    by (simp add: ApplyAnswer_def Offer_def Let_def)
  have body: "reinvite_body ea d a = (a\<lparr>media := Some (fst (Offer sa d))\<rparr>, offer)"
    by (simp add: reinvite_body_def st(2) offer split: prod.split)
  have applied: "remoteSDP ea ans (a\<lparr>media := Some (fst (Offer sa d))\<rparr>) = a\<lparr>media := Some sa'\<rparr>"
    by (simp add: remoteSDP_def ne(2) apply_body_def parsed sa'(1))
  have held: "codec (fst (Update sb ?r)) = codec sb" "dir (fst (Update sb ?r)) = Reverse d"
    by (simp_all add: Update_def set_addr_def split: option.split)
  show ?thesis
  proof (rule that [OF run ne(2)])
    fix p1 :: peer
    assume "p1 offer (sessionHeaders a) = Reply 200 ans"
    then have "reinvite ea d p1 p2 a = (sessionRefreshed (a\<lparr>media := Some sa', localHold := (d \<noteq> SendRecv)\<rparr>), True)"
      using st(1) by (simp add: reinvite_def reinviteOnce_def body applied)
    then show "\<exists>a' sa' sb'. reinvite ea d p1 p2 a = (a', True) \<and> media a' = Some sa' \<and> media b' = Some sb' \<and>
        localHold a' = (d \<noteq> SendRecv) \<and> remoteHold b' = (d = SendOnly \<or> d = Inactive) \<and>
        dir sa' = d \<and> dir sb' = Reverse d \<and> codec sa' = codec sb \<and> codec sb' = codec sb"
      using sa'(2,3) held by (simp add: b'_def)
  qed
qed

text \<open>C18: Hold and unhold agree at both ends: when the party that is in a call with \<open>sb\<close> re-INVITEs with a
  direction, the other end accepts it, and over the descriptions the two ends render and the parser reads
  (only the format of RFC 4566 is assumed of the parser), the re-INVITE succeeds, the caller records the
  hold, the other end records the remote hold exactly for sendonly and inactive, the two directions
  are dual, and both ends keep the codec the answering end had.\<close>

theorem hold_agrees:
  assumes st: "state a = StateConnected" "media a = Some sa" "media b = Some sb"
    and pion: "pion_sdp (parser ea)" "pion_sdp (parser eb)"
    and sa: "offerable sa" "reachable_at (network eb) sa ipa"
    and sb: "reachable_at (network ea) sb ipb" "known_codec (codec sb)" "dtmf_distinct [codec sb] (remoteDTMF sb)"
      "\<exists>c \<in> set (cfgCodecs (cfg sa)). Name c = Name (codec sb)"
  shows "\<exists>b' ans hdrs a' sa' sb'.
    onReInvite eb False (headers_of (sessionHeaders a)) (snd (Offer sa d)) (Some b) = (Some b', Reply 200 ans, hdrs) \<and>
    reinvite ea d (answering eb b) p2 a = (a', True) \<and> media a' = Some sa' \<and> media b' = Some sb' \<and>
    localHold a' = (d \<noteq> SendRecv) \<and> remoteHold b' = (d = SendOnly \<or> d = Inactive) \<and>
    dir sa' = d \<and> dir sb' = Reverse d \<and> codec sa' = codec sb \<and> codec sb' = codec sb"
proof -
  obtain b' ans hdrs where run: "onReInvite eb False (headers_of (sessionHeaders a)) (snd (Offer sa d)) (Some b) = (Some b', Reply 200 ans, hdrs)"
    and over: "\<And>p1. p1 (snd (Offer sa d)) (sessionHeaders a) = Reply 200 ans \<Longrightarrow>
      \<exists>a' sa' sb'. reinvite ea d p1 p2 a = (a', True) \<and> media a' = Some sa' \<and> media b' = Some sb' \<and>
        localHold a' = (d \<noteq> SendRecv) \<and> remoteHold b' = (d = SendOnly \<or> d = Inactive) \<and>
        dir sa' = d \<and> dir sb' = Reverse d \<and> codec sa' = codec sb \<and> codec sb' = codec sb"
    by (rule hold_over [OF st pion sa sb refl]) blast
  have "answering eb b (snd (Offer sa d)) (sessionHeaders a) = Reply 200 ans" by (simp add: answering_def run)
  from over [of "answering eb b", OF this] run show ?thesis by blast
qed

text \<open>A session refresh is sent with the stream's current direction, and every successful re-INVITE whose
  direction is not sendrecv is recorded as our own hold: a party the other side put on hold (its
  stream only receives) believes after the refresh that it holds the call itself.\<close>

theorem refresh_marks_hold:
  assumes "state c = StateConnected" "media c = Some st" "dir st = RecvOnly" "\<not> localHold c"
    and "reply_ok (p (snd (Offer st RecvOnly)) (sessionHeaders c))"
  shows "\<exists>c'. refreshSession e p c = (c', False) \<and> localHold c'"
proof -
  obtain n ans where r: "p (snd (Offer st RecvOnly)) (sessionHeaders c) = Reply n ans" "200 \<le> n" "n < 300"
    using assms(5) by (auto simp: reply_ok_def split: reply.splits)
  show ?thesis
    using assms(1-3) r by (simp add: refreshSession_def reinviteOnce_def reinvite_body_def Let_def split_beta)
qed

section \<open>Concrete calls\<close>

definition demo_eb :: sdp_env where
  "demo_eb = \<lparr>parser = format_parser, network = demo_net, devIP = ''10.0.0.2'', devPort = 5060, sdpClock = 0\<rparr>"

definition demo_caller :: Call where
  "demo_caller = (markConnected 1 (newCall Outgoing 0))\<lparr>media := Some demo_a\<rparr>"

definition demo_callee :: Call where
  "demo_callee = (markConnected 1 (newCall Incoming 0))\<lparr>media := Some (fst demo_answer)\<rparr>"

definition demo_update :: "Stream \<times> string" where
  "demo_update = Update (fst demo_answer) demo_remote"

lemma demo_answer_fields:
  "cfg (fst demo_answer) = cfg demo_b" "port (fst demo_answer) = 5000" "cfgIP (cfg demo_b) = ''10.0.0.2''"
  by (simp_all add: demo_answer_def Answer_def demo_b_def demo_new_def demo_remote_def choose_codec_def Let_def)

lemma demo_states: "state demo_caller = StateConnected" "media demo_caller = Some demo_a" "media demo_callee = Some (fst demo_answer)"
  by (simp_all add: demo_caller_def demo_callee_def markConnected_def newCall_def)

lemma demo_hold:
  "\<exists>c \<in> set (cfgCodecs (cfg demo_a)). Name c = Name (codec (fst demo_answer))"
  "reachable_at (network demo_eb) (fst demo_answer) (IPv4 0x0A000002)" "known_codec (codec (fst demo_answer))"
  "dtmf_distinct [codec (fst demo_answer)] (remoteDTMF (fst demo_answer))" "pion_sdp (parser demo_eb)"
  "reachable_at (network demo_eb) demo_a (IPv4 0x0A000001)"
  using demo_ready(2,3) demo_ip pion_format
  by (simp_all add: demo_a_def demo_new_def demo_answered demo_eb_def reachable_at_def demo_answer_fields dtmf_distinct_def
      IsUnspecified_def sdp_host_def)

theorem hold_agrees_witness:
  "\<exists>a'. reinvite demo_eb SendOnly (answering demo_eb demo_callee) (\<lambda>_ _. NoReply []) demo_caller = (a', True) \<and> localHold a'"
  using hold_agrees [OF demo_states demo_hold(5,5) demo_ready(1) demo_hold(6,2-4,1), of SendOnly] by blast

theorem failed_reinvite_harmless_witness:
  "\<exists>c'. reinvite demo_eb SendOnly (\<lambda>_ _. Reply 488 []) (\<lambda>_ _. NoReply []) demo_caller = (c', False) \<and> \<not> localHold c'"
proof -
  have "snd (reinvite demo_eb SendOnly (\<lambda>_ _. Reply 488 []) (\<lambda>_ _. NoReply []) demo_caller) = False"
    by (simp add: reinvite_def reinviteOnce_def demo_states Let_def split: prod.split)
  then obtain c' where r: "reinvite demo_eb SendOnly (\<lambda>_ _. Reply 488 []) (\<lambda>_ _. NoReply []) demo_caller = (c', False)"
    by (metis prod.collapse)
  moreover have "\<not> localHold demo_caller" by (simp add: demo_caller_def markConnected_def newCall_def)
  ultimately show ?thesis using failed_reinvite_harmless [OF r] by blast
qed

lemma demo_held: "dir (demo_a\<lparr>dir := RecvOnly\<rparr>) = RecvOnly"
  by simp

theorem refresh_marks_hold_witness:
  "\<exists>c'. refreshSession demo_eb (\<lambda>_ _. Reply 200 []) (demo_caller\<lparr>media := Some (demo_a\<lparr>dir := RecvOnly\<rparr>)\<rparr>) = (c', False) \<and>
     localHold c'"
  by (rule refresh_marks_hold [OF _ _ demo_held]) (simp_all add: demo_caller_def markConnected_def newCall_def reply_ok_def)

end
