(* ===== verification/Transfers.thy ===== *)
theory Transfers
  imports Uac Dialogs
begin

text \<open>
  Call transfer, \<open>engine/transfer.go\<close>: REFER with the NOTIFYs that report its progress, attended
  transfer with Replaces, and the roles of the transferee and of the transfer target. How a URI
  is written is the package sipgo's: \<open>uriString\<close> is a parameter.
\<close>

section \<open>The parties of a dialog\<close>

text \<open>Which side opened the dialog: our client transaction, or the INVITE we received.\<close>

datatype dialog = ByUs uacDialog | ByPeer request

record party =
  partyCall :: Call
  partyDialog :: dialog

definition tag_or_empty :: "string option \<Rightarrow> string" where
  "tag_or_empty t = (case t of None \<Rightarrow> [] | Some v \<Rightarrow> v)"

text \<open>Our tag and the peer's; the To tag of a received INVITE is the one we answered with.\<close>

definition tags :: "dialog \<Rightarrow> string \<times> string" where
  "tags d =
     (case d of
        ByUs u \<Rightarrow> (tag_or_empty (fromTag (invite u)),
                    case established_by u of None \<Rightarrow> [] | Some r \<Rightarrow> tag_or_empty (resToTag r))
      | ByPeer req \<Rightarrow> (tag_or_empty (toTag req), tag_or_empty (fromTag req)))"

definition remoteURI :: "dialog \<Rightarrow> Uri" where
  "remoteURI d = (case d of ByUs u \<Rightarrow> Recipient (invite u) | ByPeer req \<Rightarrow> reqFrom req)"

section \<open>The transferor\<close>

definition refer_headers :: "(Uri \<Rightarrow> string) \<Rightarrow> Uri \<Rightarrow> string \<Rightarrow> hdr list" where
  "refer_headers uriString aor referTo =
     [(''Refer-To'', referTo),
      (''Referred-By'', ''<'' @ uriString \<lparr>uScheme = ''sip'', uUser = uUser aor, uHost = uHost aor, uPort = 0\<rparr> @ ''>'')]"

definition refer :: "(Uri \<Rightarrow> string) \<Rightarrow> Uri \<Rightarrow> string \<Rightarrow> (hdr list \<Rightarrow> reply) \<Rightarrow> Call \<Rightarrow> Call \<times> bool" where
  "refer uriString aor referTo send_refer c =
     (if state c \<noteq> StateConnected then (c, False)
      else (let c1 = c\<lparr>xfer := Some \<lparr>xferStatus = 0, xferCloses = 0\<rparr>\<rparr>
            in if \<not> reply_ok (send_refer (refer_headers uriString aor referTo))
               then (c1\<lparr>xfer := map_option (progress_update 0 True) (xfer c1)\<rparr>, False)
               else (c1, True)))"

text \<open>A blind transfer, to a target that \<open>targetURI\<close> resolved.\<close>

definition blind_target :: "(Uri \<Rightarrow> string) \<Rightarrow> Uri \<Rightarrow> string" where
  "blind_target uriString target = ''<'' @ uriString target @ ''>''"

definition replaces_value :: "party \<Rightarrow> string" where
  "replaces_value consult =
     (let (local_tag, remote_tag) = tags (partyDialog consult)
      in callID (partyCall consult) @ '';to-tag='' @ remote_tag @ '';from-tag='' @ local_tag)"

definition attended_target :: "(Uri \<Rightarrow> string) \<Rightarrow> party \<Rightarrow> string" where
  "attended_target uriString consult =
     ''<'' @ uriString (remoteURI (partyDialog consult)) @ ''?Replaces='' @ QueryEscape (replaces_value consult) @ ''>''"

definition AttendedTransfer :: "(Uri \<Rightarrow> string) \<Rightarrow> Uri \<Rightarrow> (hdr list \<Rightarrow> reply) \<Rightarrow> party option \<Rightarrow> Call \<Rightarrow> Call \<times> bool" where
  "AttendedTransfer uriString aor send_refer consult c =
     (case consult of None \<Rightarrow> (c, False)
      | Some p \<Rightarrow> if state (partyCall p) \<noteq> StateConnected then (c, False)
                  else refer uriString aor (attended_target uriString p) send_refer c)"

text \<open>Waiting for the outcome, once the wait is over.\<close>

definition ExpectTransferred :: "Call \<Rightarrow> bool" where
  "ExpectTransferred c =
     (case xfer c of None \<Rightarrow> False
      | Some p \<Rightarrow> xferCloses p > 0 \<and> 200 \<le> xferStatus p \<and> xferStatus p < 300)"

text \<open>The status of a sipfrag body.\<close>

definition sipfragStatus :: "string \<Rightarrow> int" where
  "sipfragStatus body =
     (let (line, _, _) = Cut body [CHR 0x0A]; f = Fields line
      in if length f < 2 then 0 else fst (Atoi (f ! 1)))"

definition onNotify :: "headers \<Rightarrow> string \<Rightarrow> Call \<Rightarrow> Call" where
  "onNotify h body c =
     (case first_header h ''Event'' of None \<Rightarrow> c
      | Some ev \<Rightarrow>
          if \<not> HasPrefix (ToLower (TrimSpace ev)) ''refer'' then c
          else (let st = sipfragStatus body;
                    terminated = (case first_header h ''Subscription-State'' of None \<Rightarrow> False
                      | Some ss \<Rightarrow> HasPrefix (ToLower (TrimSpace ss)) ''terminated'')
                in c\<lparr>xfer := map_option (progress_update st (st \<ge> 200 \<or> terminated)) (xfer c)\<rparr>))"

section \<open>The transferee\<close>

datatype refer_error = NoReferTo | EmptyReferTo | BadEscape

text \<open>The header parameters of the URI; the last Replaces wins.\<close>

fun refer_replaces :: "string list \<Rightarrow> string \<Rightarrow> refer_error + string" where
  "refer_replaces [] cur = Inr cur"
| "refer_replaces (kv # kvs) cur =
     (let (k, v, _) = Cut kv ''=''
      in if EqualFold k ''Replaces''
         then (case QueryUnescape v of None \<Rightarrow> Inl BadEscape | Some r \<Rightarrow> refer_replaces kvs r)
         else refer_replaces kvs cur)"

text \<open>What stands between the first \<open><\<close> and the \<open>>\<close> after it.\<close>

definition angle_part :: "string \<Rightarrow> string" where
  "angle_part v =
     (case Index v ''<'' of None \<Rightarrow> v
      | Some i \<Rightarrow>
          (case Index (drop i v) ''>'' of None \<Rightarrow> v
           | Some j \<Rightarrow> if j > 0 then take (j - 1) (drop (i + 1) v) else v))"

definition parseReferTo :: "string option \<Rightarrow> refer_error + (string \<times> string)" where
  "parseReferTo h =
     (case h of None \<Rightarrow> Inl NoReferTo
      | Some value \<Rightarrow>
          (let (uri, hdrs, _) = Cut (angle_part (TrimSpace value)) ''?''
           in if uri = [] then Inl EmptyReferTo
              else (case refer_replaces (Split hdrs (CHR ''&'')) [] of Inl e \<Rightarrow> Inl e
                    | Inr r \<Rightarrow> Inr (uri, r))))"

text \<open>The response to a REFER, and the call it makes us place: the target and the header fields.\<close>

definition onRefer :: "headers \<Rightarrow> Call option \<Rightarrow> int \<times> (string \<times> hdr list) option" where
  "onRefer h found =
     (case found of None \<Rightarrow> (481, None)
      | Some _ \<Rightarrow>
          (case parseReferTo (first_header h ''Refer-To'') of Inl _ \<Rightarrow> (400, None)
           | Inr (target, replaces) \<Rightarrow>
               (202, Some (target,
                 (case first_header h ''Referred-By'' of None \<Rightarrow> [] | Some rb \<Rightarrow> [(''Referred-By'', rb)]) @
                 (if replaces = [] then [] else [(''Replaces'', replaces)])))))"

text \<open>
  The NOTIFYs sent while the new call proceeds; the call's outcome is the error of placing it, or
  whether it connected and its final status.
\<close>

definition followRefer :: "string + (bool \<times> int) \<Rightarrow> (string \<times> bool) list" where
  "followRefer outcome =
     (''SIP/2.0 100 Trying'', False) #
     (case outcome of
        Inl _ \<Rightarrow> [(''SIP/2.0 503 Service Unavailable'', True)]
      | Inr (connected', st) \<Rightarrow>
          if connected' then [(''SIP/2.0 200 OK'', True)]
          else [(''SIP/2.0 '' @ Itoa (if st < 300 then 487 else st) @ '' Transfer failed'', True)])"

definition notifyRefer :: "string \<Rightarrow> bool \<Rightarrow> hdr list \<times> string" where
  "notifyRefer frag final =
     ([(''Event'', ''refer''),
       (''Subscription-State'', if final then ''terminated;reason=noresource'' else ''active;expires=60''),
       (''Content-Type'', ''message/sipfrag;version=2.0'')],
      frag @ crlf)"

section \<open>The transfer target\<close>

text \<open>The parameters of a Replaces header: the To tag (ours) and the From tag.\<close>

definition replaces_param :: "string \<Rightarrow> string \<times> string \<Rightarrow> string \<times> string" where
  "replaces_param p t =
     (let (k, v, _) = Cut (TrimSpace p) ''=''; key = ToLower k
      in if key = ''to-tag'' then (v, snd t) else if key = ''from-tag'' then (fst t, v) else t)"

text \<open>The call an INVITE replaces, and whether it names one.\<close>

definition replacedCall :: "(string \<rightharpoonup> party) \<Rightarrow> headers \<Rightarrow> party option \<times> bool" where
  "replacedCall calls h =
     (case first_header h ''Replaces'' of None \<Rightarrow> (None, False)
      | Some value \<Rightarrow>
          (let (id', params, _) = Cut (TrimSpace value) '';'';
               (toT, fromT) = fold replaces_param (Split params (CHR '';'')) ([], [])
           in case calls id' of None \<Rightarrow> (None, True)
              | Some p \<Rightarrow>
                  (let (local_tag, remote_tag) = tags (partyDialog p)
                   in if local_tag \<noteq> toT \<or> remote_tag \<noteq> fromT then (None, True) else (Some p, True))))"

section \<open>Reading back what was written\<close>

text \<open>Text of a Call-ID or tag: no white space and no semicolon.\<close>

definition token :: "string \<Rightarrow> bool" where
  "token s \<longleftrightarrow> list_all (\<lambda>c. \<not> is_space c \<and> c \<noteq> CHR '';'') s"

lemma Index_char: "d \<notin> set a \<Longrightarrow> Index (a @ d # b) [d] = Some (length a)"
  by (induction a) auto

lemma QueryEscape_plain:
  assumes "c \<in> set ''<>?&=; ''"
  shows "c \<notin> set (QueryEscape s)"
proof
  assume "c \<in> set (QueryEscape s)"
  then have "unreserved c \<or> c = CHR ''+'' \<or> c = CHR ''%''" by (rule QueryEscape_safe)
  then show False using assms by (auto simp: unreserved_def)
qed

lemma angle_part_brackets:
  assumes "CHR ''>'' \<notin> set s"
  shows "angle_part (''<'' @ s @ ''>'') = s"
proof -
  have "Index (CHR ''<'' # s @ ''>'') ''>'' = Some (Suc (length s))"
    using Index_char [of "CHR ''>''" "CHR ''<'' # s" "[]"] assms by simp
  then show ?thesis by (simp add: angle_part_def)
qed

lemma TrimSpace_brackets: "TrimSpace (''<'' @ s @ ''>'') = ''<'' @ s @ ''>''"
  by (rule TrimSpace_ends) (simp_all add: is_space_def)

lemma parseReferTo_target:
  assumes "uri \<noteq> []" "set uri \<inter> set ''>?'' = {}"
  shows "parseReferTo (Some (''<'' @ uri @ ''?Replaces='' @ QueryEscape r @ ''>'')) = Inr (uri, r)"
proof -
  have esc: "CHR ''>'' \<notin> set (QueryEscape r)" "CHR ''&'' \<notin> set (QueryEscape r)"
    by (rule QueryEscape_plain; simp)+
  have "angle_part (TrimSpace (''<'' @ (uri @ ''?Replaces='' @ QueryEscape r) @ ''>'')) = uri @ ''?Replaces='' @ QueryEscape r"
    unfolding TrimSpace_brackets by (rule angle_part_brackets) (use assms(2) esc(1) in auto)
  moreover have "Cut (uri @ CHR ''?'' # ''Replaces='' @ QueryEscape r) ''?'' = (uri, ''Replaces='' @ QueryEscape r, True)"
    using assms(2) by (intro Cut_char_found) auto
  moreover have "Split (''Replaces='' @ QueryEscape r) (CHR ''&'') = [''Replaces='' @ QueryEscape r]"
    using esc(2) by (intro Split_absent) auto
  moreover have "Cut (''Replaces'' @ CHR ''='' # QueryEscape r) ''='' = (''Replaces'', QueryEscape r, True)"
    by (rule Cut_char_found) simp
  ultimately show ?thesis using assms(1) by (simp add: parseReferTo_def QueryUnescape_QueryEscape)
qed

lemma token_plain:
  assumes "token s"
  shows "list_all (\<lambda>c. \<not> is_space c) s" "CHR '';'' \<notin> set s"
  using assms by (auto simp: token_def list_all_iff)

lemma trim_token:
  assumes "token t" "token p" "p \<noteq> []"
  shows "TrimSpace (p @ t) = p @ t"
  by (rule TrimSpace_plain) (simp add: token_plain assms)

lemma to_tag_param: "token t \<Longrightarrow> replaces_param (''to-tag='' @ t) (a, b) = (t, b)"
  and from_tag_param: "token t \<Longrightarrow> replaces_param (''from-tag='' @ t) (a, b) = (a, t)"
proof -
  have lc: "ToLower ''to-tag'' = ''to-tag''" "ToLower ''from-tag'' = ''from-tag''"
    by (simp_all add: ToLower_def lower_def char_eval)
  have tk: "token ''to-tag=''" "token ''from-tag=''" by (simp_all add: token_def is_space_def)
  show "token t \<Longrightarrow> replaces_param (''to-tag='' @ t) (a, b) = (t, b)"
    using trim_token [OF _ tk(1), of t] Cut_char_found [of "CHR ''=''" "''to-tag''" t] lc
    by (simp add: replaces_param_def del: Cut.simps)
  show "token t \<Longrightarrow> replaces_param (''from-tag='' @ t) (a, b) = (a, t)"
    using trim_token [OF _ tk(2), of t] Cut_char_found [of "CHR ''=''" "''from-tag''" t] lc
    by (simp add: replaces_param_def del: Cut.simps)
qed

lemma replacedCall_params:
  assumes h: "h ''Replaces'' = [i @ CHR '';'' # a @ CHR '';'' # b]"
    and trim: "TrimSpace (i @ CHR '';'' # a @ CHR '';'' # b) = i @ CHR '';'' # a @ CHR '';'' # b"
    and sep: "CHR '';'' \<notin> set i" "CHR '';'' \<notin> set a" "CHR '';'' \<notin> set b"
    and params: "replaces_param b (replaces_param a ([], [])) = (r, l)"
  shows "replacedCall calls h =
    (case calls i of None \<Rightarrow> (None, True)
     | Some p \<Rightarrow> if tags (partyDialog p) = (r, l) then (Some p, True) else (None, True))"
  by (auto simp: replacedCall_def first_header_def h trim Cut_char_found [OF sep(1)] Split_append [OF sep(2)]
      Split_absent [OF sep(3)] params split: option.split prod.split)

lemma replacedCall_reads:
  assumes tk: "token i" "token l" "token r" and h: "h ''Replaces'' = [i @ '';to-tag='' @ r @ '';from-tag='' @ l]"
  shows "replacedCall calls h =
    (case calls i of None \<Rightarrow> (None, True)
     | Some p \<Rightarrow> if tags (partyDialog p) = (r, l) then (Some p, True) else (None, True))"
proof (rule replacedCall_params [where a = "''to-tag='' @ r" and b = "''from-tag='' @ l"])
  let ?v = "i @ CHR '';'' # (''to-tag='' @ r) @ CHR '';'' # (''from-tag='' @ l)"
  show "h ''Replaces'' = [?v]" using h by simp
  show "TrimSpace ?v = ?v"
  proof (rule TrimSpace_plain)
    have "list_all (\<lambda>c. \<not> is_space c) '';to-tag=''" "list_all (\<lambda>c. \<not> is_space c) '';from-tag=''"
      by (simp_all add: is_space_def)
    then have "list_all (\<lambda>c. \<not> is_space c) (i @ '';to-tag='' @ r @ '';from-tag='' @ l)"
      by (simp only: list_all_append token_plain tk simp_thms)
    then show "list_all (\<lambda>c. \<not> is_space c) ?v" by simp
  qed
  show "CHR '';'' \<notin> set i" "CHR '';'' \<notin> set (''to-tag='' @ r)" "CHR '';'' \<notin> set (''from-tag='' @ l)"
    by (simp_all add: token_plain tk)
  show "replaces_param (''from-tag='' @ l) (replaces_param (''to-tag='' @ r) ([], [])) = (r, l)"
    by (simp only: to_tag_param [OF tk(3)] from_tag_param [OF tk(2)])
qed

text \<open>C21: An attended transfer reaches the call it names: the Refer-To written for a consultation call is
  read by the transferee as the target's URI and a Replaces value, and a device that gets this
  value in an INVITE finds in its map exactly the other end of the consultation dialog (the call
  with that Call-ID and the same two tags seen from the other side), and no call if its tags differ.\<close>

theorem attended_transfer_reaches:
  assumes uri: "uriString (remoteURI (partyDialog consult)) \<noteq> []"
      "set (uriString (remoteURI (partyDialog consult))) \<inter> set ''>?'' = {}"
    and tk: "token (callID (partyCall consult))" "tags (partyDialog consult) = (l, r)" "token l" "token r"
    and h: "first_header h ''Refer-To'' = Some (attended_target uriString consult)"
  shows "\<exists>hdrs. onRefer h (Some c) = (202, Some (uriString (remoteURI (partyDialog consult)), hdrs)) \<and>
    (\<forall>calls. replacedCall calls (headers_of hdrs) =
       (case calls (callID (partyCall consult)) of None \<Rightarrow> (None, True)
        | Some p \<Rightarrow> if tags (partyDialog p) = (r, l) then (Some p, True) else (None, True)))"
proof -
  let ?v = "callID (partyCall consult) @ '';to-tag='' @ r @ '';from-tag='' @ l"
  have v: "replaces_value consult = ?v" by (simp add: replaces_value_def tk(2))
  have "parseReferTo (first_header h ''Refer-To'') = Inr (uriString (remoteURI (partyDialog consult)), ?v)"
    using parseReferTo_target [OF uri, of ?v] by (simp add: h attended_target_def v)
  then obtain pre where o': "onRefer h (Some c) = (202, Some (uriString (remoteURI (partyDialog consult)), pre @ [(''Replaces'', ?v)]))"
    "filter (\<lambda>x. fst x = ''Replaces'') pre = []"
    by (simp add: onRefer_def split: option.split)
  then show ?thesis
    using replacedCall_reads [OF tk(1,3,4)] by (intro exI [of _ "pre @ [(''Replaces'', ?v)]"]) (simp add: headers_of_def)
qed

section \<open>The outcome of a transfer\<close>

lemma fields_acc_word: "list_all (\<lambda>c. \<not> is_space c) w \<Longrightarrow> fields_acc acc (w @ s) = fields_acc (rev w @ acc) s"
  by (induction w arbitrary: acc) simp_all

lemma Fields_word:
  assumes "list_all (\<lambda>c. \<not> is_space c) w" "w \<noteq> []" "is_space d"
  shows "Fields (w @ d # s) = w # Fields s"
  using assms fields_acc_word [of w "[]" "d # s"] by (simp add: Fields_def)

lemma sipfrag_status:
  assumes "- (2 ^ 63) \<le> n" "n < 2 ^ 63" "0 \<le> n" "CHR 0x0A \<notin> set rest" "is_space d" "d \<noteq> CHR 0x0A"
  shows "sipfragStatus (''SIP/2.0 '' @ Itoa n @ (d # rest) @ CHR 0x0A # z) = n"
proof -
  let ?line = "''SIP/2.0 '' @ Itoa n @ d # rest"
  have i: "list_all (\<lambda>c. \<not> is_space c) (Itoa n)" using Itoa_plain [OF assms(3)] by simp
  have ne: "Itoa n \<noteq> []" using FormatNat_digits assms(3) by (simp add: Itoa_def)
  have "CHR 0x0A \<notin> set (Itoa n)" using i by (auto simp: list_all_iff is_space_def)
  then have "Cut (?line @ CHR 0x0A # z) [CHR 0x0A] = (?line, z, True)"
    using assms(4,6) by (intro Cut_char_found) auto
  moreover have "Fields (''SIP/2.0'' @ CHR '' '' # Itoa n @ d # rest) = ''SIP/2.0'' # Fields (Itoa n @ d # rest)"
    by (rule Fields_word) (simp_all add: is_space_def)
  moreover have "Fields (Itoa n @ d # rest) = Itoa n # Fields rest" by (rule Fields_word [OF i ne assms(5)])
  ultimately show ?thesis using Atoi_Itoa [of n] assms(1,2) by (simp add: sipfragStatus_def)
qed

definition notified :: "string \<times> bool \<Rightarrow> Call \<Rightarrow> Call" where
  "notified fn c = (let (hs, body) = notifyRefer (fst fn) (snd fn) in onNotify (headers_of hs) body c)"

lemma notified_eq:
  "notified (frag, final) c =
     c\<lparr>xfer := map_option (progress_update (sipfragStatus (frag @ crlf)) (sipfragStatus (frag @ crlf) \<ge> 200 \<or> final)) (xfer c)\<rparr>"
proof -
  have "HasPrefix (ToLower (TrimSpace ''terminated;reason=noresource'')) ''terminated''"
    "\<not> HasPrefix (ToLower (TrimSpace ''active;expires=60'')) ''terminated''" "HasPrefix (ToLower (TrimSpace ''refer'')) ''refer''"
    by (simp_all add: HasPrefix_def ToLower_def TrimSpace_plain is_space_def lower_def char_eval)
  then show ?thesis
    by (simp add: notified_def notifyRefer_def onNotify_def headers_of_def first_header_def Let_def)
qed

lemma frag_status:
  "sipfragStatus (''SIP/2.0 100 Trying'' @ crlf) = 100" "sipfragStatus (''SIP/2.0 503 Service Unavailable'' @ crlf) = 503"
  "sipfragStatus (''SIP/2.0 200 OK'' @ crlf) = 200"
  "0 \<le> n \<Longrightarrow> n < 1000 \<Longrightarrow> sipfragStatus (''SIP/2.0 '' @ Itoa n @ '' Transfer failed'' @ crlf) = n"
proof -
  have dig: "Itoa 100 = ''100''" "Itoa 503 = ''503''" "Itoa 200 = ''200''"
    by (simp_all add: Itoa_def FormatNat.simps digit_def char_eval)
  have sp: "is_space (CHR '' '')" by (simp add: is_space_def)
  show "sipfragStatus (''SIP/2.0 100 Trying'' @ crlf) = 100"
    using sipfrag_status [of 100 "''Trying'' @ [CHR 0x0D]" "CHR '' ''" "[]"] sp by (simp add: dig crlf_def)
  show "sipfragStatus (''SIP/2.0 503 Service Unavailable'' @ crlf) = 503"
    using sipfrag_status [of 503 "''Service Unavailable'' @ [CHR 0x0D]" "CHR '' ''" "[]"] sp by (simp add: dig crlf_def)
  show "sipfragStatus (''SIP/2.0 200 OK'' @ crlf) = 200"
    using sipfrag_status [of 200 "''OK'' @ [CHR 0x0D]" "CHR '' ''" "[]"] sp by (simp add: dig crlf_def)
  show "0 \<le> n \<Longrightarrow> n < 1000 \<Longrightarrow> sipfragStatus (''SIP/2.0 '' @ Itoa n @ '' Transfer failed'' @ crlf) = n"
    using sipfrag_status [of n "''Transfer failed'' @ [CHR 0x0D]" "CHR '' ''" "[]"] sp by (simp add: crlf_def)
qed

text \<open>C22: The transferor learns the outcome of the transfer: after the transferee's NOTIFYs, in the order it
  sends them, the wait for the outcome is over, exactly once, and reports success if and only if the
  call the transferee placed connected.\<close>

theorem transfer_outcome:
  assumes "refer uriString aor target send_refer c = (c1, True)"
    and "\<And>n st. outcome = Inr (n, st) \<Longrightarrow> 0 \<le> st \<and> st < 1000"
  shows "(ExpectTransferred (fold notified (followRefer outcome) c1) \<longleftrightarrow> (\<exists>st. outcome = Inr (True, st))) \<and>
    (\<exists>p. xfer (fold notified (followRefer outcome) c1) = Some p \<and> xferCloses p = 1)"
proof -
  have x: "xfer c1 = Some \<lparr>xferStatus = 0, xferCloses = 0\<rparr>"
    using assms(1) by (auto simp: refer_def Let_def split: if_splits)
  show ?thesis
  proof (cases outcome)
    case (Inl e)
    then show ?thesis
      by (simp add: followRefer_def notified_eq frag_status x progress_update_def ExpectTransferred_def del: append.simps append_Cons)
  next
    case (Inr r)
    obtain n st where r: "r = (n, st)" by (cases r)
    have "0 \<le> st" "st < 1000" using assms(2) Inr r by auto
    then show ?thesis
      by (cases n) (simp_all add: Inr r followRefer_def notified_eq frag_status x progress_update_def ExpectTransferred_def
          del: append.simps append_Cons)
  qed
qed

text \<open>The outcome is not final: a NOTIFY that arrives after the final one still replaces the status, so a
  delayed or repeated 100 Trying turns a transfer that was reported as successful into a failed one.\<close>

theorem late_notify_overwrites:
  assumes "xfer c = Some p" "ExpectTransferred c"
  shows "\<not> ExpectTransferred (notified (''SIP/2.0 100 Trying'', False) c)"
  using assms by (simp add: notified_eq frag_status progress_update_def ExpectTransferred_def del: append.simps append_Cons)

section \<open>A concrete transfer\<close>

definition demo_uri :: "Uri \<Rightarrow> string" where
  "demo_uri u = ''sip:'' @ uUser u @ ''@'' @ uHost u"

definition demo_consult :: party where
  "demo_consult = \<lparr>partyCall = (markConnected 1 (newCall Outgoing 0))\<lparr>callID := ''c1''\<rparr>,
     partyDialog = ByUs ((newUAC [] demo_invite)\<lparr>established_by := Some (demo_response 200)\<rparr>)\<rparr>"

definition demo_target :: party where
  "demo_target = \<lparr>partyCall = (markConnected 1 (newCall Incoming 0))\<lparr>callID := ''c1''\<rparr>,
     partyDialog = ByPeer (demo_invite\<lparr>toTag := Some ''b''\<rparr>)\<rparr>"

lemma demo_tags: "tags (partyDialog demo_consult) = (''a'', ''b'')" "tags (partyDialog demo_target) = (''b'', ''a'')"
  "callID (partyCall demo_consult) = ''c1''"
  by (simp_all add: demo_consult_def demo_target_def tags_def tag_or_empty_def newUAC_def demo_invite_def demo_response_def)

theorem attended_transfer_reaches_witness:
  "\<exists>target hdrs. onRefer (headers_of [(''Refer-To'', attended_target demo_uri demo_consult)]) (Some (partyCall demo_target)) =
     (202, Some (target, hdrs)) \<and> replacedCall [''c1'' \<mapsto> demo_target] (headers_of hdrs) = (Some demo_target, True)"
proof -
  have "demo_uri (remoteURI (partyDialog demo_consult)) = ''sip:200@pbx''"
    by (simp add: demo_uri_def remoteURI_def demo_consult_def newUAC_def demo_invite_def)
  then have u: "demo_uri (remoteURI (partyDialog demo_consult)) \<noteq> []"
    "set (demo_uri (remoteURI (partyDialog demo_consult))) \<inter> set ''>?'' = {}"
    by simp_all
  have tk: "token (callID (partyCall demo_consult))" "token ''a''" "token ''b''"
    by (simp_all add: demo_tags token_def is_space_def)
  have h: "first_header (headers_of [(''Refer-To'', attended_target demo_uri demo_consult)]) ''Refer-To'' =
      Some (attended_target demo_uri demo_consult)"
    by (simp add: first_header_def headers_of_def)
  show ?thesis
    using attended_transfer_reaches [OF u tk(1) demo_tags(1) tk(2,3) h, of "partyCall demo_target"] demo_tags(2,3) by auto
qed

definition demo_refer :: "Call \<times> bool" where
  "demo_refer = refer demo_uri (Recipient demo_invite) ''<sip:300@pbx>'' (\<lambda>_. Reply 202 []) (markConnected 1 (newCall Outgoing 0))"

lemma demo_referred: "demo_refer = (fst demo_refer, True)"
  by (simp add: demo_refer_def refer_def markConnected_def newCall_def reply_ok_def)

theorem transfer_outcome_witness:
  "ExpectTransferred (fold notified (followRefer (Inr (True, 200))) (fst demo_refer)) \<and>
   \<not> ExpectTransferred (fold notified (followRefer (Inr (False, 486))) (fst demo_refer))"
  using transfer_outcome [OF demo_referred [unfolded demo_refer_def], of "Inr (True, 200)"]
    transfer_outcome [OF demo_referred [unfolded demo_refer_def], of "Inr (False, 486)"]
  by (auto simp: demo_refer_def)

theorem late_notify_overwrites_witness:
  "\<not> ExpectTransferred (notified (''SIP/2.0 100 Trying'', False)
     ((fst demo_refer)\<lparr>xfer := Some \<lparr>xferStatus = 200, xferCloses = 1\<rparr>\<rparr>))"
  by (rule late_notify_overwrites) (simp_all add: ExpectTransferred_def)

end
