(* ===== verification/Invites.thy ===== *)
theory Invites
  imports CallMachine Transfers
begin

text \<open>
  How a call is set up and ended: \<open>runOutgoing\<close> and \<open>bye\<close> of \<open>engine/call.go\<close>, and the
  handler of a new INVITE, \<open>onInvite\<close> of \<open>engine/device.go\<close>, with the answer it sends. Each
  handler runs here from its start to its end; \<open>CallMachine\<close> interleaves the sections it is made of,
  and its invariant carries over since a handler's run is a path of that machine. The outcome of
  the transport and of the media socket are parameters.
\<close>

section \<open>Ending a call\<close>

text \<open>\<open>finish\<close> from the lock to the last step.\<close>

definition finish :: "EndedBy \<Rightarrow> int \<Rightarrow> string \<Rightarrow> time \<Rightarrow> sys \<Rightarrow> sys" where
  "finish by' st why' now s =
     (if state (call s) = StateEnded then s
      else (let s0 = begin_finish by' st why' now s; f = fst (the (fin s0))
            in finish_tail f 4 (finish_tail f 3 (finish_tail f 2 (finish_tail f 1 (finish_tail f 0 s0))))))"

text \<open>\<open>bye\<close> once the BYE transaction is over, whatever its outcome.\<close>

definition call_bye :: "time \<Rightarrow> sys \<Rightarrow> sys" where
  "call_bye now s = (let (by', why') = bye_reason (call s) in finish by' 0 why' now s)"

definition byeWith :: "EndedBy \<Rightarrow> string \<Rightarrow> time \<Rightarrow> sys \<Rightarrow> sys" where
  "byeWith by' why' now s = call_bye now (upd (\<lambda>c. c\<lparr>byeBy := by', byeReason := why'\<rparr>) s)"

text \<open>The other side's BYE.\<close>

definition onBye :: "time \<Rightarrow> sys option \<Rightarrow> int \<times> sys option" where
  "onBye now found =
     (case found of None \<Rightarrow> (481, None) | Some s \<Rightarrow> (200, Some (finish EndedByRemote 0 ''BYE'' now s)))"

lemma finish_reach:
  assumes "call_reach s0 s"
  shows "call_reach s0 (finish by' st why' now s)"
proof (cases "state (call s) = StateEnded")
  case False
  let ?b = "begin_finish by' st why' now s"
  obtain f where f: "fin ?b = Some (f, 0)" using False by (simp add: begin_finish_cases)
  have "call_reach s0 ?b" using assms cs_finish by (rule cr_step)
  then have "call_reach s0 (finish_tail f 0 ?b)" using f by (rule cr_step [OF _ cs_tail]) simp
  then have "call_reach s0 (finish_tail f 1 (finish_tail f 0 ?b))" by (rule cr_step [OF _ cs_tail]) simp_all
  then have "call_reach s0 (finish_tail f 2 (finish_tail f 1 (finish_tail f 0 ?b)))"
    by (rule cr_step [OF _ cs_tail]) simp_all
  then have "call_reach s0 (finish_tail f 3 (finish_tail f 2 (finish_tail f 1 (finish_tail f 0 ?b))))"
    by (rule cr_step [OF _ cs_tail]) simp_all
  then have "call_reach s0 (finish_tail f 4 (finish_tail f 3 (finish_tail f 2 (finish_tail f 1 (finish_tail f 0 ?b)))))"
    by (rule cr_step [OF _ cs_tail]) simp_all
  then show ?thesis using False by (simp add: finish_def Let_def f)
qed (use assms in \<open>simp add: finish_def\<close>)

lemma closeMedia_state: "state (fst (closeMedia b c)) = state c \<and> tAnswer (fst (closeMedia b c)) = tAnswer c \<and>
    status (fst (closeMedia b c)) = status c \<and> endedBy (fst (closeMedia b c)) = endedBy c"
  using closeMedia_cases [of b c] by auto

lemma finish_tail_call: "state (call (finish_tail f k s)) = state (call s) \<and> tAnswer (call (finish_tail f k s)) = tAnswer (call s) \<and>
    status (call (finish_tail f k s)) = status (call s) \<and> endedBy (call (finish_tail f k s)) = endedBy (call s)"
  using closeMedia_state [of "wasConnected f" "call s"]
  by (simp add: finish_tail_def stopSession_def Let_def split_beta)

lemma finish_call:
  "state (call (finish by' st why' now s)) = StateEnded"
  "tAnswer (call (finish by' st why' now s)) = tAnswer (call s)"
  "state (call s) \<noteq> StateEnded \<Longrightarrow> endedBy (call (finish by' st why' now s)) = by'"
  "state (call s) \<noteq> StateEnded \<Longrightarrow> state (call s) \<noteq> StateConnected \<Longrightarrow> st \<noteq> 0 \<Longrightarrow> status (call (finish by' st why' now s)) = st"
  using finish_tail_call by (auto simp: finish_def begin_finish_cases finish_lock_def Let_def)

lemma finish_done:
  "state (call s) \<noteq> StateEnded \<Longrightarrow> \<exists>f. fin (finish by' st why' now s) = Some (f, 5)"
  by (simp add: finish_def Let_def)

lemma sys_ok_finish_all: "sys_ok s \<Longrightarrow> sys_ok (finish by' st why' now s)"
proof -
  assume ok: "sys_ok s"
  have "sys_ok s'" if "call_reach s s'" for s'
    using that by induction (use ok call_step_ok in auto)
  then show ?thesis using finish_reach [OF cr_init] by blast
qed

lemma finish_events:
  assumes "sys_ok s" "state (call s) \<noteq> StateEnded"
  shows "end_events (finish by' st why' now s) = (if tAnswer (call s) \<noteq> None then 1 else 0)"
    "listed (finish by' st why' now s) = False"
proof -
  obtain f where f: "fin (finish by' st why' now s) = Some (f, 5)" using finish_done [OF assms(2)] by blast
  have "fin_ok (finish by' st why' now s)" using sys_ok_finish_all [OF assms(1)] by (simp add: sys_ok_def)
  then show "end_events (finish by' st why' now s) = (if tAnswer (call s) \<noteq> None then 1 else 0)"
    "listed (finish by' st why' now s) = False"
    by (simp_all add: fin_ok_def f end_events_def finish_call)
qed

section \<open>Outgoing calls\<close>

record setupEvent =
  suSuccess :: bool
  suCancelled :: bool
  suStatus :: int
  suTime :: duration
  suPDD :: "duration option"

record out_leg =
  osys :: sys
  setups :: "setupEvent list"     \<comment> \<open>the \<open>CallSetup\<close> events\<close>

definition setup_of :: "inviteResult \<Rightarrow> time \<Rightarrow> Call \<Rightarrow> setupEvent" where
  "setup_of r now c =
     \<lparr>suSuccess = False, suCancelled = cancelled r,
      suStatus = (case finalRes r of None \<Rightarrow> 0 | Some res \<Rightarrow> resCode res), suTime = now - tStart c,
      suPDD = map_option (\<lambda>t. t - tStart c) (tRing c)\<rparr>"

definition startMedia :: "nat \<Rightarrow> Call \<Rightarrow> Call" where
  "startMedia sh c = c\<lparr>media := map_option (Start (sh, ())) (media c)\<rparr>"

text \<open>\<open>sh\<close> is the shard that takes the stream, \<open>later\<close> the time at which \<open>finish\<close> runs.\<close>

definition runOutgoing :: "string option \<Rightarrow> string \<Rightarrow> nat \<Rightarrow> time \<Rightarrow> time \<Rightarrow> inviteResult \<Rightarrow> out_leg \<Rightarrow> out_leg" where
  "runOutgoing ackErr errText sh now later r l =
     (let s = osys l; su = setup_of r now (call s);
          emit = (\<lambda>e. l\<lparr>setups := setups l @ [e]\<rparr>)
      in case finalRes r of
           Some res \<Rightarrow>
             if IsSuccess res then
               (case ackErr of
                  Some e \<Rightarrow> (emit su)\<lparr>osys := finish EndedByError 0 (''ACK: '' @ e) later s\<rparr>
                | None \<Rightarrow>
                    (let l1 = emit (su\<lparr>suSuccess := \<not> cancelled r\<rparr>); s1 = upd (markConnected now) s
                     in if cancelled r then l1\<lparr>osys := call_bye later s1\<rparr>
                        else l1\<lparr>osys := upd (\<lambda>c. sessionFromAnswer (resHdr res) (startMedia sh c)) s1\<rparr>))
             else if cancelled r then (emit su)\<lparr>osys := finish (cancelledBy (call s)) 487 ''cancelled'' later s\<rparr>
             else (emit su)\<lparr>osys := finish EndedByRemote (resCode res) (resReason res) later s\<rparr>
         | None \<Rightarrow>
             if cancelled r then (emit su)\<lparr>osys := finish (cancelledBy (call s)) 487 ''cancelled'' later s\<rparr>
             else (emit su)\<lparr>osys := finish EndedByError 0 errText later s\<rparr>)"

lemma sys_ok_upd_neutral: "sys_ok s \<Longrightarrow> neutral (call s) (g (call s)) \<Longrightarrow> sys_ok (upd g s)"
  using sys_ok_neutral by blast

lemma sessionFromAnswer_call:
  "state (sessionFromAnswer h c) = state c \<and> tAnswer (sessionFromAnswer h c) = tAnswer c \<and> media (sessionFromAnswer h c) = media c"
  by (auto simp: sessionFromAnswer_def startSession_def set_session_def sessionRefreshed_def split: option.split)

lemma startMedia_call [simp]: "state (startMedia sh c) = state c" "tAnswer (startMedia sh c) = tAnswer c"
  by (simp_all add: startMedia_def)

text \<open>A call that is not yet answered, as the INVITE client finds it.\<close>

definition unanswered :: "sys \<Rightarrow> bool" where
  "unanswered s \<longleftrightarrow> sys_ok s \<and> (state (call s) = StateCalling \<or> state (call s) = StateRinging)"

lemma unanswered_facts:
  assumes "unanswered s"
  shows "sys_ok s" "state (call s) \<noteq> StateEnded" "state (call s) \<noteq> StateConnected" "tAnswer (call s) = None" "end_events s = 0"
proof -
  show ok: "sys_ok s" and st: "state (call s) \<noteq> StateEnded" "state (call s) \<noteq> StateConnected"
    using assms by (auto simp: unanswered_def)
  show "tAnswer (call s) = None" using ok st by (auto simp: sys_ok_def times_ok_def)
  have "\<not> (\<exists>d t b. CallEnd d t b \<in> set (events s))" using fin_ok_None [OF _ st(1)] ok by (simp add: sys_ok_def)
  then show "end_events s = 0" using no_end_events by (simp add: end_events_def)
qed

lemma connected_facts:
  assumes "unanswered s"
  shows "state (call (upd (markConnected t) s)) = StateConnected" "tAnswer (call (upd (markConnected t) s)) = Some t"
    "sys_ok (upd (markConnected t) s)" "end_events (upd (markConnected t) s) = 0"
  using unanswered_facts [OF assms] sys_ok_connected [of s t]
  by (auto simp: markConnected_def end_events_def)

lemma bye_finishes:
  "state (call (call_bye now s)) = StateEnded"
  "sys_ok s \<Longrightarrow> state (call s) \<noteq> StateEnded \<Longrightarrow> end_events (call_bye now s) = (if tAnswer (call s) \<noteq> None then 1 else 0)"
  by (simp_all add: call_bye_def finish_call finish_events split: prod.split)

definition won_race :: "string option \<Rightarrow> inviteResult \<Rightarrow> bool" where
  "won_race ackErr r \<longleftrightarrow> cancelled r \<and> ackErr = None \<and> (\<exists>res. finalRes r = Some res \<and> IsSuccess res)"

text \<open>An outgoing call is accounted for exactly once: when the INVITE is over one \<open>CallSetup\<close> event has been
  emitted; the event says success exactly when the call is connected (with no \<open>CallEnd\<close> yet), and
  otherwise the call has ended, without a \<open>CallEnd\<close> unless a 200 won the race against our CANCEL:
  then one \<open>CallEnd\<close> was emitted for a call whose setup was not a success.\<close>

theorem outgoing_accounted:
  assumes "unanswered (osys l)" "setups l = []"
  shows "\<exists>su. setups (runOutgoing ackErr errText sh now later r l) = [su] \<and>
    (suSuccess su \<longleftrightarrow> state (call (osys (runOutgoing ackErr errText sh now later r l))) = StateConnected) \<and>
    (\<not> suSuccess su \<longrightarrow> state (call (osys (runOutgoing ackErr errText sh now later r l))) = StateEnded) \<and>
    end_events (osys (runOutgoing ackErr errText sh now later r l)) = (if won_race ackErr r then 1 else 0)"
proof -
  note u = unanswered_facts [OF assms(1)] and m = connected_facts [OF assms(1)]
  have fin: "end_events (finish by' st why' t (osys l)) = 0" for by' st why' t
    using finish_events(1) [OF u(1,2)] u(4) by simp
  have conn: "state (sessionFromAnswer h (startMedia sh (markConnected now (call (osys l))))) = StateConnected" for h
    using m(1) sessionFromAnswer_call by simp
  have bye: "end_events (call_bye later (upd (markConnected now) (osys l))) = 1"
    using bye_finishes(2) [of "upd (markConnected now) (osys l)" later] m(1-3) [of now] by simp
  show ?thesis
  proof (cases "finalRes r")
    case None
    then show ?thesis
      using fin assms(2) by (simp add: runOutgoing_def Let_def setup_of_def won_race_def finish_call)
  next
    case (Some res)
    then show ?thesis
      using fin assms(2) bye conn m(4)
      by (cases ackErr) (auto simp: runOutgoing_def Let_def setup_of_def won_race_def finish_call bye_finishes end_events_def)
  qed
qed

section \<open>Incoming calls\<close>

record in_env =
  sdpEnv :: sdp_env
  inSessionExpires :: duration
  inPRACK :: bool
  mediaDisabled :: bool
  newStream :: "string + Stream"      \<comment> \<open>\<open>media.New\<close>: its error or the stream\<close>
  inRecMode :: RecordMode
  inRecDir :: string
  readInviteErr :: bool               \<comment> \<open>sipgo rejects the INVITE\<close>
  ringErr :: "string option"
  answerErr :: "string option"
  ParseAddress :: "string \<Rightarrow> Uri option"
  mediaErrText :: "media_error + sdp_error \<Rightarrow> string"

record in_leg =
  isys :: sys
  responses :: "(int \<times> string \<times> hdr list) list"
  delivered :: bool
  replacesOld :: "party option"
  ackSDP :: bool
  answerSDP :: "string option"
  answerHdr :: "hdr list"
  sessionLater :: "(duration \<times> bool) option"

text \<open>The caller as the system under test presents it.\<close>

definition callerNumber :: "in_env \<Rightarrow> request \<Rightarrow> string" where
  "callerNumber env req =
     (case first_header (reqHdr req) ''P-Asserted-Identity'' of
        None \<Rightarrow> uUser (reqFrom req)
      | Some v \<Rightarrow> (case ParseAddress env v of None \<Rightarrow> uUser (reqFrom req)
                   | Some u \<Rightarrow> if uUser u \<noteq> [] then uUser u else uUser (reqFrom req)))"

definition setupIncomingMedia :: "in_env \<Rightarrow> string \<Rightarrow> Call \<Rightarrow> string + (Call \<times> string \<times> bool)" where
  "setupIncomingMedia env offer c =
     (case newStream env of Inl e \<Rightarrow> Inl e
      | Inr st \<Rightarrow>
          (let c1 = useMedia st (inRecMode env) (inRecDir env) c
           in if offer = [] then
                (let (st', sdp) = Offer st SendRecv in Inr (c1\<lparr>media := Some st'\<rparr>, sdp, True))
              else case ParseSDP (parser (sdpEnv env)) (network (sdpEnv env)) offer of
                     Inl e \<Rightarrow> Inl (mediaErrText env (Inr e))
                   | Inr r \<Rightarrow>
                       (case Answer st r of Inl e \<Rightarrow> Inl (mediaErrText env (Inl e))
                        | Inr (st', sdp) \<Rightarrow> Inr (c1\<lparr>media := Some st'\<rparr>, sdp, False))))"

definition respond :: "int \<Rightarrow> string \<Rightarrow> hdr list \<Rightarrow> in_leg \<Rightarrow> in_leg" where
  "respond n body hs l = l\<lparr>responses := responses l @ [(n, body, hs)]\<rparr>"

text \<open>180, reliably if we do PRACK and the caller supports it (\<open>ring\<close>, \<open>ringReliably\<close>).\<close>

definition ring :: "in_env \<Rightarrow> request \<Rightarrow> in_leg \<Rightarrow> in_leg" where
  "ring env req l =
     (if hasOption (reqHdr req) ''Require'' ''100rel'' \<or> inPRACK env \<and> hasOption (reqHdr req) ''Supported'' ''100rel''
      then respond 180 [] [(''Require'', ''100rel''), (''RSeq'', ''1'')] l
      else respond 180 [] [] l)"

definition new_in_leg :: "in_env \<Rightarrow> request \<Rightarrow> time \<Rightarrow> in_leg" where
  "new_in_leg env req now =
     \<lparr>isys = \<lparr>call = (newCall Incoming now)\<lparr>callID := reqCallID req, callee := callerNumber env req\<rparr>, fin = None,
        listed = False, events = []\<rparr>,
      responses = [], delivered = False, replacesOld = None, ackSDP = False, answerSDP = None, answerHdr = [],
      sessionLater = None\<rparr>"

definition end_leg :: "EndedBy \<Rightarrow> int \<Rightarrow> string \<Rightarrow> time \<Rightarrow> in_leg \<Rightarrow> in_leg" where
  "end_leg by' st why' now l = l\<lparr>isys := finish by' st why' now (isys l)\<rparr>"

text \<open>
  The handler up to \<open>deliver\<close>: the responses, and the call unless the INVITE was refused before there
  was one. \<open>Inl\<close>: the handler is done; \<open>Inr\<close>: it waits for the script.
\<close>

definition invite_arrives :: "in_env \<Rightarrow> (string \<rightharpoonup> party) \<Rightarrow> time \<Rightarrow> request \<Rightarrow> in_leg + in_leg" where
  "invite_arrives env calls now req =
     (let l0 = new_in_leg env req now
      in if readInviteErr env then Inl (respond 400 [] [] l0)
         else (let (old, hasReplaces) = replacedCall calls (reqHdr req)
               in if hasReplaces \<and> old = None then
                    Inl (end_leg EndedByLocal 481 ''Replaces: no such dialog'' now (respond 481 [] [] l0))
                  else (let (hs, later) = sessionForAnswer (inSessionExpires env) (reqHdr req);
                            l1 = l0\<lparr>replacesOld := old, answerHdr := hs, sessionLater := later\<rparr>
                        in case (if mediaDisabled env then Inr (call (isys l1), None, False)
                                 else case setupIncomingMedia env (reqBody req) (call (isys l1)) of
                                        Inl e \<Rightarrow> Inl e | Inr (c, sdp, ak) \<Rightarrow> Inr (c, Some sdp, ak)) of
                             Inl e \<Rightarrow> Inl (end_leg EndedByLocal 488 e now (respond 488 [] [] l1))
                           | Inr (c, sdp, ak) \<Rightarrow>
                               (let l2 = l1\<lparr>isys := (isys l1)\<lparr>call := c, listed := True\<rparr>, answerSDP := sdp, ackSDP := ak\<rparr>
                                in if old \<noteq> None then
                                     Inr (l2\<lparr>isys := upd (\<lambda>c. markRinging now (fst (Accept c))) (isys l2), delivered := True\<rparr>)
                                   else case ringErr env of
                                          Some e \<Rightarrow> Inl (end_leg EndedByError 0 e now (ring env req l2))
                                        | None \<Rightarrow> Inr ((ring env req l2)\<lparr>isys := upd (markRinging now) (isys l2),
                                                      delivered := True\<rparr>)))))"

text \<open>What the handler then waits for.\<close>

datatype wakeup = Decided | PeerCancelled | RingTimedOut | DeviceDestroyed

definition answer :: "in_env \<Rightarrow> nat \<Rightarrow> time \<Rightarrow> in_leg \<Rightarrow> in_leg" where
  "answer env sh now l =
     (let body = (case answerSDP l of None \<Rightarrow> placeholderSDP (sdpEnv env) | Some b \<Rightarrow> b);
          l1 = respond 200 body (answerHdr l) l
      in case answerErr env of
           Some e \<Rightarrow> end_leg EndedByError 0 (''answer: '' @ e) now l1
         | None \<Rightarrow> l1\<lparr>isys := upd (\<lambda>c. startSessionLater (sessionLater l) (startMedia sh (markConnected now c))) (isys l)\<rparr>)"

definition invite_decided :: "in_env \<Rightarrow> nat \<Rightarrow> time \<Rightarrow> wakeup \<Rightarrow> in_leg \<Rightarrow> in_leg" where
  "invite_decided env sh now w l =
     (case w of
        Decided \<Rightarrow>
          (case pendingDecision (call (isys l)) of
             None \<Rightarrow> l
           | Some d \<Rightarrow>
               (let l1 = l\<lparr>isys := upd (\<lambda>c. c\<lparr>pendingDecision := None\<rparr>) (isys l)\<rparr>
                in if code d = 200 then answer env sh now l1
                   else end_leg EndedByLocal (code d) (why d) now (respond (code d) [] [] l1)))
      | PeerCancelled \<Rightarrow> end_leg EndedByRemote 487 ''CANCEL'' now l
      | RingTimedOut \<Rightarrow> end_leg EndedByTimeout 480 ''ring timeout'' now (respond 480 [] [] l)
      | DeviceDestroyed \<Rightarrow> end_leg EndedByLocal 480 ''device destroyed'' now (respond 480 [] [] l))"

definition finals :: "in_leg \<Rightarrow> int list" where
  "finals l = filter (\<lambda>n. n \<ge> 200) (map fst (responses l))"

lemma finals_respond [simp]: "finals (respond n b h l) = finals l @ (if n \<ge> 200 then [n] else [])"
  by (simp add: finals_def respond_def)

lemma leg_updates [simp]:
  "finals (end_leg by' st why' now l) = finals l" "isys (respond n b h l) = isys l"
  "finals (l\<lparr>isys := x\<rparr>) = finals l" "finals (l\<lparr>delivered := d\<rparr>) = finals l"
  "finals (l\<lparr>replacesOld := ro, answerHdr := hs, sessionLater := sl\<rparr>) = finals l"
  "finals (l\<lparr>answerSDP := sdp, ackSDP := ak\<rparr>) = finals l"
  "isys (ring env req l) = isys l" "finals (ring env req l) = finals l" "finals (new_in_leg env req now) = []"
  by (simp_all add: finals_def end_leg_def respond_def ring_def new_in_leg_def)

lemma useMedia_fields [simp]:
  "state (useMedia st m dr c) = state c" "pendingDecision (useMedia st m dr c) = pendingDecision c"
  "cdir (useMedia st m dr c) = cdir c"
  by (simp_all add: useMedia_def)

lemma setupIncomingMedia_state:
  "setupIncomingMedia env offer c = Inr (c', sdp, ak) \<Longrightarrow>
     state c' = state c \<and> cdir c' = cdir c \<and> pendingDecision c' = pendingDecision c"
  by (auto simp: setupIncomingMedia_def Let_def split: sum.splits if_splits prod.splits)

lemma new_in_leg_call [simp]:
  "state (call (isys (new_in_leg env req now))) = StateCalling" "cdir (call (isys (new_in_leg env req now))) = Incoming"
  "pendingDecision (call (isys (new_in_leg env req now))) = None"
  by (simp_all add: new_in_leg_def newCall_def)

lemma markRinging_Calling: "state c = StateCalling \<Longrightarrow> state (markRinging t c) = StateRinging"
  by (simp add: markRinging_def)

text \<open>What the first part leaves: an ended call and its refusal, or a ringing call without a final response.\<close>

lemma invite_arrives_waits:
  assumes "invite_arrives env calls now req = Inr l"
  shows "finals l = [] \<and> state (call (isys l)) = StateRinging \<and> listed (isys l) \<and> delivered l"
  using assms setupIncomingMedia_state [of env "reqBody req" "call (isys (new_in_leg env req now))"]
  by (auto simp: invite_arrives_def Let_def Accept_def decide_def markRinging_Calling
      split: prod.splits if_splits sum.splits option.splits)

lemma decided_state:
  assumes "state c = StateRinging"
  shows "state (startSessionLater sl (startMedia sh (markConnected now c))) = StateConnected"
proof -
  have "state (startSession e w d) = state d" for e w d
    by (simp add: startSession_def set_session_def sessionRefreshed_def)
  then show ?thesis using assms by (simp add: startSessionLater_def markConnected_def split: option.split)
qed

section \<open>Hanging up\<close>

text \<open>What \<open>Hangup\<close> waits for after asking for the end of an unanswered call.\<close>

datatype hangup_wait = SawDone | SawConnected | WaitedOut

text \<open>
  \<open>between\<close> is what other threads do to the call between the request and the wait's end; \<open>byeOK\<close> is
  whether the BYE got a 2xx.
\<close>

definition Hangup :: "bool \<Rightarrow> (sys \<Rightarrow> sys) \<Rightarrow> hangup_wait \<Rightarrow> time \<Rightarrow> sys \<Rightarrow> sys \<times> bool" where
  "Hangup byeOK between w now s =
     (case state (call s) of
        StateEnded \<Rightarrow> (s, True)
      | StateConnected \<Rightarrow> (call_bye now s, byeOK)
      | _ \<Rightarrow>
          (let s1 = (if cdir (call s) = Incoming then upd (\<lambda>c. fst (Reject 603 ''Decline'' c)) s
                     else upd (requestCancel EndedByLocal) s);
               s2 = between s1
           in case w of SawDone \<Rightarrow> (s2, True) | SawConnected \<Rightarrow> (call_bye now s2, byeOK) | WaitedOut \<Rightarrow> (s2, False)))"

section \<open>ACK, PRACK and the reliable 180\<close>

definition onAck :: "sdp_env \<Rightarrow> bool \<Rightarrow> string \<Rightarrow> Call option \<Rightarrow> Call option" where
  "onAck e ak body found =
     map_option (\<lambda>c. if ak \<and> body \<noteq> [] then ackAnswer e body c else c) found"

definition onPrack :: "Call option \<Rightarrow> int \<times> Call option" where
  "onPrack found =
     (case found of None \<Rightarrow> (481, None)
      | Some c \<Rightarrow> (200, Some (if prackCloses c > 0 then c else c\<lparr>prackCloses := 1\<rparr>)))"

section \<open>The script decides\<close>

text \<open>
  What the script and the other threads can do to the call while the handler waits: answer it, reject it, hang up
  (the rejection that \<open>Hangup\<close> sends before it waits), acknowledge the reliable 180, mark the call as failed.
\<close>

datatype script_act = DoAccept | DoReject int string | DoHangup | DoPrack | DoMarkFailed

definition leg_act :: "script_act \<Rightarrow> in_leg \<Rightarrow> in_leg" where
  "leg_act a l =
     l\<lparr>isys := (case a of
        DoAccept \<Rightarrow> upd (\<lambda>c. fst (Accept c)) (isys l)
      | DoReject n r \<Rightarrow> upd (\<lambda>c. fst (Reject n r c)) (isys l)
      | DoHangup \<Rightarrow> fst (Hangup False id WaitedOut 0 (isys l))
      | DoPrack \<Rightarrow> upd (\<lambda>c. the (snd (onPrack (Some c)))) (isys l)
      | DoMarkFailed \<Rightarrow> upd mark_failed (isys l))\<rparr>"

text \<open>The status each of them asks for, and the one that counts: the automatic 200 of a call that replaces another, else the first.\<close>

fun asked :: "script_act \<Rightarrow> int option" where
  "asked DoAccept = Some 200"
| "asked (DoReject n r) = Some (if 300 \<le> n \<and> n \<le> 699 then n else 603)"
| "asked DoHangup = Some 603"
| "asked DoPrack = None"
| "asked DoMarkFailed = None"

fun first_asked :: "script_act list \<Rightarrow> int option" where
  "first_asked [] = None"
| "first_asked (a # as) = (case asked a of None \<Rightarrow> first_asked as | Some n \<Rightarrow> Some n)"

definition decision_code :: "in_leg \<Rightarrow> script_act list \<Rightarrow> int option" where
  "decision_code l as = (if replacesOld l \<noteq> None then Some 200 else first_asked as)"

text \<open>A leg that waits for the script, with the status decided on so far.\<close>

definition waiting :: "int option \<Rightarrow> in_leg \<Rightarrow> bool" where
  "waiting d l \<longleftrightarrow> finals l = [] \<and> state (call (isys l)) = StateRinging \<and> cdir (call (isys l)) = Incoming \<and>
     map_option code (pendingDecision (call (isys l))) = d"

lemma waiting_act: "waiting d l \<Longrightarrow> waiting (case d of None \<Rightarrow> asked a | Some n \<Rightarrow> d) (leg_act a l)"
  by (cases a) (auto simp: waiting_def leg_act_def Accept_def Reject_def Hangup_def onPrack_def mark_failed_def decide_def
      less_eq_State_def Let_def split: option.split)

lemma waiting_acts:
  "waiting d l \<Longrightarrow> waiting (case d of None \<Rightarrow> first_asked as | Some n \<Rightarrow> d) (fold leg_act as l)"
proof (induction as arbitrary: d l)
  case (Cons a as)
  from Cons.IH [OF waiting_act [OF Cons.prems, of a]] show ?case
    by (auto split: option.splits)
qed (auto split: option.split)

lemma invite_arrives_waiting:
  assumes "invite_arrives env calls now req = Inr l"
  shows "waiting (if replacesOld l \<noteq> None then Some 200 else None) l"
  using assms setupIncomingMedia_state [of env "reqBody req" "call (isys (new_in_leg env req now))"]
    invite_arrives_waits [OF assms]
  by (auto simp: waiting_def invite_arrives_def Let_def Accept_def decide_def markRinging_def less_eq_State_def ring_def respond_def
      split: prod.splits if_splits sum.splits option.splits)


section \<open>Retransmitting the reliable 180\<close>

text \<open>
  The times, in milliseconds after the first 180, at which it is retransmitted: after T1, then with
  the interval doubled up to T2, until the wait ends at \<open>stop\<close> (a PRACK, the answer, the end of the call, or
  64*T1).
\<close>

abbreviation T1 :: nat where "T1 \<equiv> 500"
abbreviation T2 :: nat where "T2 \<equiv> 4000"

function ring_times :: "nat \<Rightarrow> nat \<Rightarrow> nat \<Rightarrow> nat list" where
  "ring_times now interval stop =
     (if interval = 0 \<or> stop \<le> now + interval then []
      else (now + interval) # ring_times (now + interval) (min (2 * interval) T2) stop)"
  by pat_completeness auto
termination
  by (relation "measure (\<lambda>(now, interval, stop). stop - now)") auto

declare ring_times.simps [simp del]

definition ring_retransmissions :: "nat \<Rightarrow> nat list" where
  "ring_retransmissions stop = ring_times 0 T1 (min stop (64 * T1))"

lemma ring_times_prefix:
  "stop \<le> stop' \<Longrightarrow> ring_times now interval stop = takeWhile (\<lambda>t. t < stop) (ring_times now interval stop')"
proof (induction now interval stop rule: ring_times.induct)
  case (1 now interval stop)
  show ?case
  proof (cases "interval = 0 \<or> stop \<le> now + interval")
    case True
    then show ?thesis by (subst (1 2) ring_times.simps) auto
  next
    case False
    then have "\<not> (interval = 0 \<or> stop' \<le> now + interval)" using "1.prems" by simp
    with False 1 show ?thesis by (subst (1 2) ring_times.simps) simp
  qed
qed

text \<open>The reliable 180 is retransmitted at most ten times, at the times RFC 3262 prescribes (after 0.5, 1.5, 3.5
  seconds and then every four seconds), and only while neither PRACK nor an answer nor the end of
  the call has come: the retransmissions are those of the full schedule before the wait ends.\<close>

theorem ring_schedule:
  "ring_retransmissions stop = takeWhile (\<lambda>t. t < stop)
     [500, 1500, 3500, 7500, 11500, 15500, 19500, 23500, 27500, 31500]"
proof -
  have full: "ring_times 0 T1 32000 = [500, 1500, 3500, 7500, 11500, 15500, 19500, 23500, 27500, 31500]"
    by (simp add: ring_times.simps)
  show ?thesis
  proof (cases "stop \<le> 32000")
    case True
    then have "ring_retransmissions stop = ring_times 0 T1 stop" by (simp add: ring_retransmissions_def min_def)
    also have "\<dots> = takeWhile (\<lambda>t. t < stop) (ring_times 0 T1 32000)" by (rule ring_times_prefix [OF True])
    finally show ?thesis unfolding full .
  next
    case False
    then have "ring_retransmissions stop = ring_times 0 T1 32000" by (simp add: ring_retransmissions_def min_def)
    then show ?thesis unfolding full using False by simp
  qed
qed

section \<open>Witnesses\<close>

definition demo_leg :: out_leg where
  "demo_leg = \<lparr>osys = demo_call, setups = []\<rparr>"

lemma demo_unanswered: "unanswered (osys demo_leg)"
  using sys_init_ok [OF demo_call_init] demo_state(3) by (simp add: unanswered_def demo_leg_def)

theorem outgoing_accounted_witness:
  "\<exists>su. setups (runOutgoing None [] 0 5 6 \<lparr>finalRes = Some (demo_response 200), runErr = None, cancelled = False\<rparr> demo_leg) = [su]"
proof -
  have "setups demo_leg = []" by (simp add: demo_leg_def)
  from outgoing_accounted [OF demo_unanswered this] show ?thesis by blast
qed

definition demo_in :: in_env where
  "demo_in = \<lparr>sdpEnv = demo_eb, inSessionExpires = 0, inPRACK = False, mediaDisabled = True, newStream = Inl [],
     inRecMode = RecordOff, inRecDir = [], readInviteErr = False, ringErr = None, answerErr = None,
     ParseAddress = (\<lambda>_. None), mediaErrText = (\<lambda>_. [])\<rparr>"

definition demo_ringing :: in_leg where
  "demo_ringing = projr (invite_arrives demo_in Map.empty 10 demo_invite)"

lemma demo_arrives: "invite_arrives demo_in Map.empty 10 demo_invite = Inr demo_ringing"
  by (simp add: demo_ringing_def invite_arrives_def demo_in_def replacedCall_def first_header_def demo_invite_def no_headers_def
      sessionForAnswer_def parseSessionExpires_def hasOption_def Let_def)


end
