(* ===== verification/Devices.thy ===== *)
theory Devices
  imports "HOL-Library.Multiset" Invites
begin

text \<open>
  The device around its calls, \<open>engine/device.go\<close> and \<open>engine/engine.go\<close>: its configuration, where
  requests go, the map of calls by Call-ID and the inbox of incoming calls that scripts claim. The
  map and the inbox are interfaces (\<open>call_registry\<close>, \<open>mailbox\<close>) that the device's own operations
  provide. sipgo's URI parser is a parameter.
\<close>

section \<open>Configuration and addresses\<close>

record devConfig =
  dcID :: string
  dcRegistrar :: string
  dcProxy :: string
  dcUser :: string
  dcAuthUser :: string
  dcPassword :: string
  dcExpires :: duration
  dcSessionExpires :: duration
  dcIdentities :: "string \<rightharpoonup> string"

record uri_env =
  ParseUri :: "string \<Rightarrow> string + Uri"
  HostPort :: "Uri \<Rightarrow> string"

record device =
  dvCfg :: devConfig
  aor :: Uri
  registrarURI :: Uri
  proxyAddr :: string
  authUser :: string

datatype device_error = NoRegistrar | NoUser | BadRegistrar string

definition NewDevice :: "uri_env \<Rightarrow> devConfig \<Rightarrow> device_error + device" where
  "NewDevice env cfg0 =
     (if dcRegistrar cfg0 = [] then Inl NoRegistrar
      else if dcUser cfg0 = [] then Inl NoUser
      else (let c1 = (if dcExpires cfg0 = 0 then cfg0\<lparr>dcExpires := 300 * 1000000000\<rparr> else cfg0);
                regStr = (if \<not> HasPrefix (dcRegistrar c1) ''sip:'' \<and> \<not> HasPrefix (dcRegistrar c1) ''sips:''
                          then ''sip:'' @ dcRegistrar c1 else dcRegistrar c1)
            in case ParseUri env regStr of Inl e \<Rightarrow> Inl (BadRegistrar e)
               | Inr u \<Rightarrow>
                   (let reg = u\<lparr>uUser := [], uPort := (if uPort u = 0 then 5060 else uPort u)\<rparr>;
                        (user, dom, _) = Cut (dcUser c1) ''@'';
                        domain = (if dom = [] then uHost reg else dom)
                    in Inr \<lparr>dvCfg = (if dcID c1 = [] then c1\<lparr>dcID := user @ ''@'' @ domain\<rparr> else c1),
                            aor = \<lparr>uScheme = ''sip'', uUser = user, uHost = domain, uPort = 0\<rparr>,
                            registrarURI = reg, proxyAddr = (if dcProxy c1 = [] then HostPort env reg else dcProxy c1),
                            authUser = (if dcAuthUser c1 = [] then user else dcAuthUser c1)\<rparr>)))"

definition Identity :: "device \<Rightarrow> string \<Rightarrow> string option" where
  "Identity d key = dcIdentities (dvCfg d) key"

datatype target_error = EmptyTarget | BadTarget string

definition targetURI :: "uri_env \<Rightarrow> device \<Rightarrow> string \<Rightarrow> target_error + Uri" where
  "targetURI env d target =
     (if target = [] then Inl EmptyTarget
      else if HasPrefix target ''sip:'' \<or> HasPrefix target ''sips:''
      then (case ParseUri env target of Inl e \<Rightarrow> Inl (BadTarget e) | Inr u \<Rightarrow> Inr u)
      else (let (user, host, _) = Cut target ''@''
            in Inr \<lparr>uScheme = ''sip'', uUser = user, uHost = (if host = [] then uHost (aor d) else host), uPort = 0\<rparr>))"

text \<open>\<open>net.JoinHostPort\<close>: an address with a colon or a zone is put in brackets.\<close>

definition JoinHostPort :: "string \<Rightarrow> int \<Rightarrow> string" where
  "JoinHostPort host p =
     (if CHR '':'' \<in> set host \<or> CHR ''%'' \<in> set host then ''['' @ host @ '']:'' @ Itoa p else host @ '':'' @ Itoa p)"

definition destinationFor :: "device \<Rightarrow> Uri \<Rightarrow> string" where
  "destinationFor d target =
     (if dcProxy (dvCfg d) \<noteq> [] \<or> uHost target = uHost (aor d) \<or> uHost target = uHost (registrarURI d) then proxyAddr d
      else JoinHostPort (uHost target) (if uPort target = 0 then 5060 else uPort target))"

text \<open>The INVITE of a call; the headers of the script follow the code's own, in the map's order.\<close>

definition invite_headers :: "device \<Rightarrow> string \<Rightarrow> hdr list \<Rightarrow> hdr list" where
  "invite_headers d contact extra =
     [(''Contact'', contact), (''Supported'', ''100rel, timer'')] @
     (if dcSessionExpires (dvCfg d) > 0
      then [(''Session-Expires'', Itoa (seconds (dcSessionExpires (dvCfg d)))), (''Min-SE'', ''90'')] else []) @
     extra @ [(''Content-Type'', ''application/sdp'')]"

definition call_request :: "device \<Rightarrow> string \<Rightarrow> string \<Rightarrow> string \<Rightarrow> hdr list \<Rightarrow> string \<Rightarrow> Uri \<Rightarrow> request" where
  "call_request d tag callid contact extra body target =
     \<lparr>reqMethod = ''INVITE'', Recipient = target, reqFrom = aor d, fromTag = Some tag, toTag = None, reqCallID = callid,
      reqSeq = 1, reqSeqMethod = ''INVITE'', via = None, reqHdr = headers_of (invite_headers d contact extra),
      reqDest = destinationFor d target, reqBody = body\<rparr>"

text \<open>A dialled number goes through the proxy: for a device that was created, a target that is neither a SIP
  URI nor names a host becomes a user of the device's domain, and the INVITE for it is sent to
  the configured proxy or, without one, to the registrar.\<close>

theorem number_via_proxy:
  assumes d: "NewDevice env c = Inr d" and t: "target \<noteq> []" "\<not> HasPrefix target ''sip:''" "\<not> HasPrefix target ''sips:''"
    "CHR ''@'' \<notin> set target"
  shows "\<exists>u. targetURI env d target = Inr u \<and> uUser u = target \<and> uHost u = uHost (aor d) \<and>
    destinationFor d u = (if dcProxy c = [] then HostPort env (registrarURI d) else dcProxy c)"
proof -
  have "targetURI env d target = Inr \<lparr>uScheme = ''sip'', uUser = target, uHost = uHost (aor d), uPort = 0\<rparr>"
    using t Cut_char_absent [OF t(4)] by (simp add: targetURI_def)
  moreover have "proxyAddr d = (if dcProxy c = [] then HostPort env (registrarURI d) else dcProxy c)"
    using d by (auto simp: NewDevice_def Let_def split: if_splits sum.splits prod.splits)
  ultimately show ?thesis by (simp add: destinationFor_def)
qed

section \<open>Numbers\<close>

definition normalizeNumber :: "string \<Rightarrow> string" where
  "normalizeNumber s = filter (\<lambda>c. c \<notin> set '' -().'') (TrimPrefix (TrimSpace s) ''+'')"

definition numbersMatch :: "string \<Rightarrow> string \<Rightarrow> bool" where
  "numbersMatch expected got \<longleftrightarrow> (if expected = [] then True else normalizeNumber expected = normalizeNumber got)"

section \<open>The map of calls\<close>

datatype 'c registry_op = AddCall string 'c | RemoveCall string 'c

locale call_registry =
  fixes find_call :: "string \<Rightarrow> 'm \<Rightarrow> 'c option"
    and add :: "string \<Rightarrow> 'c \<Rightarrow> 'm \<Rightarrow> 'm"
    and remove :: "string \<Rightarrow> 'c \<Rightarrow> 'm \<Rightarrow> 'm"
    and fresh :: 'm
  assumes find_fresh: "find_call i fresh = None"
    and find_add: "find_call i (add j c m) = (if i = j then Some c else find_call i m)"
    and find_remove: "find_call i (remove j c m) = (if i = j \<and> find_call i m = Some c then None else find_call i m)"
begin

definition step :: "'c registry_op \<Rightarrow> 'm \<Rightarrow> 'm" where
  "step p m = (case p of AddCall i c \<Rightarrow> add i c m | RemoveCall i c \<Rightarrow> remove i c m)"

definition run :: "'c registry_op list \<Rightarrow> 'm" where
  "run ops = fold step ops fresh"

text \<open>Adding is what makes a call findable, and only its own removal or a newer call ends that.\<close>

lemma find_run:
  "find_call i (run ops) = Some c \<longleftrightarrow>
     (\<exists>pre post. ops = pre @ AddCall i c # post \<and> (\<forall>d. AddCall i d \<notin> set post) \<and> RemoveCall i c \<notin> set post)"
proof (induction ops rule: rev_induct)
  case Nil
  then show ?case by (simp add: run_def find_fresh)
next
  case (snoc p ops)
  have split: "(\<exists>pre post. ops @ [p] = pre @ AddCall i c # post \<and> P post) \<longleftrightarrow>
      (p = AddCall i c \<and> P []) \<or> (\<exists>pre post. ops = pre @ AddCall i c # post \<and> P (post @ [p]))" for P
    by (auto simp: append_eq_append_conv2 append_eq_Cons_conv Cons_eq_append_conv)
  show ?case
  proof (cases p)
    case (AddCall j d)
    then show ?thesis
      unfolding split using snoc by (auto simp: run_def step_def find_add)
  next
    case (RemoveCall j d)
    then show ?thesis
      unfolding split using snoc by (auto simp: run_def step_def find_remove)
  qed
qed

end

definition findCall :: "string \<Rightarrow> (string \<rightharpoonup> nat) \<Rightarrow> nat option" where
  "findCall i calls = calls i"

definition addCall :: "string \<Rightarrow> nat \<Rightarrow> (string \<rightharpoonup> nat) \<Rightarrow> (string \<rightharpoonup> nat)" where
  "addCall i c calls = calls(i \<mapsto> c)"

definition removeCall :: "string \<Rightarrow> nat \<Rightarrow> (string \<rightharpoonup> nat) \<Rightarrow> (string \<rightharpoonup> nat)" where
  "removeCall i c calls = (if calls i = Some c then calls(i := None) else calls)"

interpretation calls: call_registry findCall addCall removeCall Map.empty
  by unfold_locales (auto simp: findCall_def addCall_def removeCall_def)

definition registry_run :: "nat registry_op list \<Rightarrow> (string \<rightharpoonup> nat)" where
  "registry_run ops = fold (\<lambda>p m. case p of AddCall i c \<Rightarrow> addCall i c m | RemoveCall i c \<Rightarrow> removeCall i c m) ops Map.empty"

text \<open>C25: A request finds the call it belongs to: after any sequence of calls added and removed, the handlers find
  a call under a Call-ID exactly when it was the last one added with it and has not been removed since;
  the end of an older call with the same Call-ID does not hide the newer one.\<close>

theorem registry_finds:
  "findCall i (registry_run ops) = Some c \<longleftrightarrow>
     (\<exists>pre post. ops = pre @ AddCall i c # post \<and> (\<forall>d. AddCall i d \<notin> set post) \<and> RemoveCall i c \<notin> set post)"
proof -
  have "(\<lambda>p m. case p of AddCall i c \<Rightarrow> addCall i c m | RemoveCall i c \<Rightarrow> removeCall i c m) = calls.step"
    by (simp add: fun_eq_iff calls.step_def)
  then have "registry_run ops = calls.run ops" by (simp add: registry_run_def calls.run_def)
  then show ?thesis using calls.find_run by simp
qed

section \<open>The inbox\<close>

text \<open>The loop over the inbox: ended calls are dropped, the first match is taken, the others are kept.\<close>

fun scan :: "('c \<Rightarrow> bool) \<Rightarrow> ('c \<Rightarrow> bool) \<Rightarrow> 'c list \<Rightarrow> 'c option \<Rightarrow> 'c option \<times> 'c list" where
  "scan dead ok [] found = (found, [])"
| "scan dead ok (c # cs) found =
     (if dead c then scan dead ok cs found
      else if found = None \<and> ok c then scan dead ok cs (Some c)
      else (let (f, kept) = scan dead ok cs found in (f, c # kept)))"

record 'c mailbox_state =
  inbox :: "'c list"
  inSignals :: nat              \<comment> \<open>how often \<open>inSignal\<close> was closed and replaced\<close>

definition deliver :: "'c \<Rightarrow> 'c mailbox_state \<Rightarrow> 'c mailbox_state" where
  "deliver c m = m\<lparr>inbox := inbox m @ [c], inSignals := inSignals m + 1\<rparr>"

definition claim :: "('c \<Rightarrow> bool) \<Rightarrow> ('c \<Rightarrow> bool) \<Rightarrow> 'c mailbox_state \<Rightarrow> 'c option \<times> 'c mailbox_state" where
  "claim dead ok m = (let (f, kept) = scan dead ok (inbox m) None in (f, m\<lparr>inbox := kept\<rparr>))"

text \<open>The routing time of a claimed call, when the calling device's last INVITE can be its own.\<close>

definition delivery :: "duration \<Rightarrow> time option \<Rightarrow> time \<Rightarrow> duration option" where
  "delivery ringTimeout lastOut found =
     (case lastOut of None \<Rightarrow> None
      | Some t \<Rightarrow> if \<not> t > found \<and> found - t < ringTimeout then Some (found - t) else None)"

lemma scan_some: "scan dead ok cs (Some c) = (Some c, filter (\<lambda>x. \<not> dead x) cs)"
  by (induction cs) simp_all

lemma scan_spec:
  "scan dead ok cs None = (f, kept) \<Longrightarrow>
     (case f of
        None \<Rightarrow> (\<forall>x \<in> set cs. dead x \<or> \<not> ok x) \<and> kept = filter (\<lambda>x. \<not> dead x) cs
      | Some c \<Rightarrow> \<exists>xs ys. cs = xs @ c # ys \<and> \<not> dead c \<and> ok c \<and> (\<forall>x \<in> set xs. dead x \<or> \<not> ok x) \<and>
          kept = filter (\<lambda>x. \<not> dead x) (xs @ ys))"
proof (induction cs arbitrary: f kept)
  case (Cons x cs)
  show ?case
  proof (cases "\<not> dead x \<and> ok x")
    case True
    then have "f = Some x" "kept = filter (\<lambda>x. \<not> dead x) cs" using Cons.prems by (simp_all add: scan_some)
    moreover have "x # cs = [] @ x # cs \<and> \<not> dead x \<and> ok x" using True by simp
    ultimately show ?thesis by fastforce
  next
    case False
    obtain g k where g: "scan dead ok cs None = (g, k)" by fastforce
    have f: "f = g" "kept = (if dead x then k else x # k)" using Cons.prems False g by (auto split: if_splits)
    show ?thesis
    proof (cases g)
      case None
      then show ?thesis using Cons.IH [OF g] False f by auto
    next
      case (Some c)
      then obtain xs ys where "cs = xs @ c # ys" "\<not> dead c" "ok c" "\<forall>x \<in> set xs. dead x \<or> \<not> ok x"
        "k = filter (\<lambda>x. \<not> dead x) (xs @ ys)"
        using Cons.IH [OF g] by auto
      then have "x # cs = (x # xs) @ c # ys \<and> \<not> dead c \<and> ok c \<and> (\<forall>y \<in> set (x # xs). dead y \<or> \<not> ok y) \<and>
          kept = filter (\<lambda>y. \<not> dead y) ((x # xs) @ ys)"
        using False f by auto
      then show ?thesis unfolding f(1) Some option.case by blast
    qed
  qed
qed simp

locale mailbox =
  fixes contents :: "'s \<Rightarrow> 'c list"
    and put :: "'c \<Rightarrow> 's \<Rightarrow> 's"
    and take_first :: "('c \<Rightarrow> bool) \<Rightarrow> ('c \<Rightarrow> bool) \<Rightarrow> 's \<Rightarrow> 'c option \<times> 's"
  assumes put: "contents (put c s) = contents s @ [c]"
    and take_none: "take_first dead ok s = (None, s') \<Longrightarrow>
      (\<forall>x \<in> set (contents s). dead x \<or> \<not> ok x) \<and> contents s' = filter (\<lambda>x. \<not> dead x) (contents s)"
    and take_some: "take_first dead ok s = (Some c, s') \<Longrightarrow>
      \<exists>xs ys. contents s = xs @ c # ys \<and> \<not> dead c \<and> ok c \<and> (\<forall>x \<in> set xs. dead x \<or> \<not> ok x) \<and>
        contents s' = filter (\<lambda>x. \<not> dead x) (xs @ ys)"
begin

lemma take_conserves:
  assumes "take_first dead ok s = (f, s')"
  shows "mset (contents s) = mset (contents s') + (case f of None \<Rightarrow> {#} | Some c \<Rightarrow> {#c#}) +
    mset (filter dead (contents s))"
proof (cases f)
  case None
  have part: "mset zs = mset (filter (\<lambda>x. \<not> dead x) zs) + mset (filter dead zs)" for zs
    by (induction zs) simp_all
  show ?thesis using take_none [of dead ok s s'] assms None part [of "contents s"] by simp
next
  case (Some c)
  then obtain xs ys where x: "contents s = xs @ c # ys" "\<not> dead c" "contents s' = filter (\<lambda>x. \<not> dead x) (xs @ ys)"
    using take_some [of dead ok s c s'] assms by blast
  have part: "mset zs = filter_mset (\<lambda>x. \<not> dead x) (mset zs) + filter_mset dead (mset zs)" for zs
    by (induction zs) simp_all
  have "mset xs + mset ys = (filter_mset (\<lambda>x. \<not> dead x) (mset xs) + filter_mset dead (mset xs)) +
      (filter_mset (\<lambda>x. \<not> dead x) (mset ys) + filter_mset dead (mset ys))"
    by (rule arg_cong2 [where f = plus, OF part part])
  also have "\<dots> = mset (filter (\<lambda>x. \<not> dead x) (xs @ ys)) + mset (filter dead (xs @ c # ys))"
    using x(2) by (simp add: ac_simps)
  finally show ?thesis unfolding x Some by (simp add: ac_simps)
qed

lemma take_waits:
  "take_first dead ok s = (None, s') \<Longrightarrow> x \<in> set (contents s') \<Longrightarrow> \<not> ok x"
  using take_none by fastforce

end

interpretation inbox: mailbox inbox deliver claim
proof unfold_locales
  fix dead ok :: "'c \<Rightarrow> bool" and s s' :: "'c mailbox_state" and c
  show "inbox (deliver c s) = inbox s @ [c]" by (simp add: deliver_def)
  show "claim dead ok s = (None, s') \<Longrightarrow>
      (\<forall>x \<in> set (inbox s). dead x \<or> \<not> ok x) \<and> inbox s' = filter (\<lambda>x. \<not> dead x) (inbox s)"
    using scan_spec [of dead ok "inbox s"] by (auto simp: claim_def split: prod.splits)
  show "claim dead ok s = (Some c, s') \<Longrightarrow>
      \<exists>xs ys. inbox s = xs @ c # ys \<and> \<not> dead c \<and> ok c \<and> (\<forall>x \<in> set xs. dead x \<or> \<not> ok x) \<and>
        inbox s' = filter (\<lambda>x. \<not> dead x) (xs @ ys)"
  proof -
    assume "claim dead ok s = (Some c, s')"
    then have "scan dead ok (inbox s) None = (Some c, inbox s')" by (auto simp: claim_def split: prod.splits)
    from scan_spec [OF this] show ?thesis by simp
  qed
qed

section \<open>Waiters\<close>

text \<open>
  Handlers deliver calls, calls end, any number of scripts claim, and one script, the waiter, sleeps
  after a pass that found nothing, with the signal it read in the same critical section. Calls are
  numbered; each is delivered once.
\<close>

record mail_sys =
  box :: "nat mailbox_state"
  endedCalls :: "nat list"
  deliveredCalls :: "nat list"
  claimedCalls :: "nat list"
  sleeper :: "(nat \<times> (nat \<Rightarrow> bool)) option"    \<comment> \<open>the signal waited for, and the match\<close>

definition mail_claim :: "(nat \<Rightarrow> bool) \<Rightarrow> mail_sys \<Rightarrow> mail_sys" where
  "mail_claim ok s =
     (let (f, b) = claim (\<lambda>c. c \<in> set (endedCalls s)) ok (box s)
      in s\<lparr>box := b, claimedCalls := claimedCalls s @ (case f of None \<Rightarrow> [] | Some c \<Rightarrow> [c])\<rparr>)"

definition waiter_pass :: "(nat \<Rightarrow> bool) \<Rightarrow> mail_sys \<Rightarrow> mail_sys" where
  "waiter_pass ok s =
     (let (f, b) = claim (\<lambda>c. c \<in> set (endedCalls s)) ok (box s)
      in case f of
           None \<Rightarrow> s\<lparr>box := b, sleeper := Some (inSignals b, ok)\<rparr>
         | Some c \<Rightarrow> s\<lparr>box := b, claimedCalls := claimedCalls s @ [c], sleeper := None\<rparr>)"

inductive mail_step :: "mail_sys \<Rightarrow> mail_sys \<Rightarrow> bool" where
  ms_deliver: "c \<notin> set (deliveredCalls s) \<Longrightarrow>
    mail_step s (s\<lparr>box := deliver c (box s), deliveredCalls := deliveredCalls s @ [c]\<rparr>)"
| ms_end: "mail_step s (s\<lparr>endedCalls := c # endedCalls s\<rparr>)"
| ms_claim: "mail_step s (mail_claim ok s)"
| ms_sleep: "sleeper s = None \<Longrightarrow> mail_step s (waiter_pass ok s)"
| ms_wake: "sleeper s = Some (g, ok) \<Longrightarrow> inSignals (box s) > g \<Longrightarrow> mail_step s (waiter_pass ok (s\<lparr>sleeper := None\<rparr>))"

inductive mail_reach :: "mail_sys \<Rightarrow> bool" where
  mr_init: "mail_reach \<lparr>box = \<lparr>inbox = [], inSignals = 0\<rparr>, endedCalls = [], deliveredCalls = [], claimedCalls = [], sleeper = None\<rparr>"
| mr_step: "mail_reach s \<Longrightarrow> mail_step s s' \<Longrightarrow> mail_reach s'"

definition mail_ok :: "mail_sys \<Rightarrow> bool" where
  "mail_ok s \<longleftrightarrow> distinct (claimedCalls s @ inbox (box s)) \<and>
     set (claimedCalls s) \<union> set (inbox (box s)) \<subseteq> set (deliveredCalls s) \<and>
     set (deliveredCalls s) \<subseteq> set (claimedCalls s) \<union> set (inbox (box s)) \<union> set (endedCalls s) \<and>
     (\<forall>g ok. sleeper s = Some (g, ok) \<longrightarrow> g \<le> inSignals (box s) \<and>
        (inSignals (box s) = g \<longrightarrow> (\<forall>c \<in> set (inbox (box s)). ok c \<longrightarrow> c \<in> set (endedCalls s))))"

lemma claim_cases:
  assumes "claim (\<lambda>c. c \<in> set en) ok b = (f, b')" "distinct (cl @ inbox b)"
  shows "distinct (cl @ (case f of None \<Rightarrow> [] | Some c \<Rightarrow> [c]) @ inbox b')"
    "set (inbox b') \<subseteq> set (inbox b)" "inSignals b' = inSignals b"
    "set (inbox b) \<subseteq> set (inbox b') \<union> set en \<union> (case f of None \<Rightarrow> {} | Some c \<Rightarrow> {c})"
    "f = Some c \<Longrightarrow> c \<in> set (inbox b)"
    "f = None \<Longrightarrow> \<forall>x \<in> set (inbox b'). \<not> ok x"
proof -
  show "inSignals b' = inSignals b" using assms(1) by (auto simp: claim_def split: prod.splits)
  show "f = None \<Longrightarrow> \<forall>x \<in> set (inbox b'). \<not> ok x"
    using inbox.take_waits [of "\<lambda>c. c \<in> set en" ok b b'] assms(1) by simp
  have "distinct (cl @ (case f of None \<Rightarrow> [] | Some c \<Rightarrow> [c]) @ inbox b') \<and> set (inbox b') \<subseteq> set (inbox b) \<and>
      (f = Some c \<longrightarrow> c \<in> set (inbox b)) \<and>
      set (inbox b) \<subseteq> set (inbox b') \<union> set en \<union> (case f of None \<Rightarrow> {} | Some c \<Rightarrow> {c})"
  proof (cases f)
    case None
    then have i: "inbox b' = filter (\<lambda>x. x \<notin> set en) (inbox b)"
      using inbox.take_none [of "\<lambda>c. c \<in> set en" ok b b'] assms(1) by simp
    show "distinct (cl @ (case f of None \<Rightarrow> [] | Some c \<Rightarrow> [c]) @ inbox b') \<and> set (inbox b') \<subseteq> set (inbox b) \<and>
        (f = Some c \<longrightarrow> c \<in> set (inbox b)) \<and>
        set (inbox b) \<subseteq> set (inbox b') \<union> set en \<union> (case f of None \<Rightarrow> {} | Some c \<Rightarrow> {c})"
      using assms(2) by (auto simp: i None)
  next
    case (Some d)
    then obtain xs ys where i: "inbox b = xs @ d # ys" "inbox b' = filter (\<lambda>x. x \<notin> set en) (xs @ ys)"
      using inbox.take_some [of "\<lambda>c. c \<in> set en" ok b d b'] assms(1) by auto
    have "distinct (cl @ d # filter (\<lambda>x. x \<notin> set en) (xs @ ys))"
      using assms(2) unfolding i(1) by auto
    moreover have "set (filter (\<lambda>x. x \<notin> set en) (xs @ ys)) \<subseteq> set (xs @ d # ys)"
      "set (xs @ d # ys) \<subseteq> set (filter (\<lambda>x. x \<notin> set en) (xs @ ys)) \<union> set en \<union> {d}" by auto
    ultimately show "distinct (cl @ (case f of None \<Rightarrow> [] | Some c \<Rightarrow> [c]) @ inbox b') \<and> set (inbox b') \<subseteq> set (inbox b) \<and>
        (f = Some c \<longrightarrow> c \<in> set (inbox b)) \<and>
        set (inbox b) \<subseteq> set (inbox b') \<union> set en \<union> (case f of None \<Rightarrow> {} | Some c \<Rightarrow> {c})"
      unfolding i Some by simp
  qed
  then show "distinct (cl @ (case f of None \<Rightarrow> [] | Some c \<Rightarrow> [c]) @ inbox b')"
    "set (inbox b') \<subseteq> set (inbox b)" "f = Some c \<Longrightarrow> c \<in> set (inbox b)"
    "set (inbox b) \<subseteq> set (inbox b') \<union> set en \<union> (case f of None \<Rightarrow> {} | Some c \<Rightarrow> {c})"
    by blast+
qed

lemma mail_ok_claim:
  assumes ok: "mail_ok s"
  shows "mail_ok (mail_claim p s)"
proof -
  obtain f b where c: "claim (\<lambda>c. c \<in> set (endedCalls s)) p (box s) = (f, b)" by fastforce
  have "distinct (claimedCalls s @ inbox (box s))" using ok by (simp add: mail_ok_def)
  note x = claim_cases [OF c this]
  show ?thesis
  proof (cases f)
    case None
    then show ?thesis using ok x(1-4) by (auto simp: mail_claim_def c mail_ok_def)
  next
    case (Some d)
    then show ?thesis using ok x(1-4) x(5) [OF Some] by (auto simp: mail_claim_def c mail_ok_def)
  qed
qed

lemma mail_ok_pass:
  assumes ok: "mail_ok s"
  shows "mail_ok (waiter_pass p s)"
proof -
  obtain f b where c: "claim (\<lambda>c. c \<in> set (endedCalls s)) p (box s) = (f, b)" by fastforce
  have "distinct (claimedCalls s @ inbox (box s))" using ok by (simp add: mail_ok_def)
  note x = claim_cases [OF c this]
  show ?thesis
  proof (cases f)
    case None
    then show ?thesis using ok x(1-4) x(6) [OF None] by (auto simp: waiter_pass_def c mail_ok_def)
  next
    case (Some d)
    then show ?thesis using ok x(1-4) x(5) [OF Some] by (auto simp: waiter_pass_def c mail_ok_def)
  qed
qed

lemma mail_step_ok: "mail_step s s' \<Longrightarrow> mail_ok s \<Longrightarrow> mail_ok s'"
proof (induction rule: mail_step.induct)
  case (ms_deliver c s)
  then show ?case by (auto simp: mail_ok_def deliver_def)
next
  case (ms_end s c)
  then show ?case by (auto simp: mail_ok_def)
next
  case (ms_wake s g ok)
  then have "mail_ok (s\<lparr>sleeper := None\<rparr>)" by (simp add: mail_ok_def)
  then show ?case by (rule mail_ok_pass)
qed (simp_all add: mail_ok_claim mail_ok_pass)

lemma mail_reach_ok: "mail_reach s \<Longrightarrow> mail_ok s"
proof (induction rule: mail_reach.induct)
  case (mr_step s s')
  then show ?case by (blast intro: mail_step_ok)
qed (simp add: mail_ok_def)

text \<open>C26: An incoming call is claimed at most once and never lost: however deliveries, call ends and any number of
  waiting scripts interleave, no call is claimed twice or both claimed and in the inbox, and a call that was
  delivered is claimed, still in the inbox, or has ended.\<close>

theorem calls_claimed_once:
  assumes "mail_reach s"
  shows "distinct (claimedCalls s @ inbox (box s)) \<and>
    set (deliveredCalls s) \<subseteq> set (claimedCalls s) \<union> set (inbox (box s)) \<union> set (endedCalls s)"
  using mail_reach_ok [OF assms] unfolding mail_ok_def by blast

text \<open>C27: No wake-up is lost: while a script sleeps in \<open>ExpectCall\<close> and its signal has not been closed, the inbox
  holds no call it would take that has not ended; so a matching call that arrives wakes it.\<close>

theorem no_lost_wakeup:
  assumes "mail_reach s" "sleeper s = Some (g, ok)" "c \<in> set (inbox (box s))" "ok c" "c \<notin> set (endedCalls s)"
  shows "inSignals (box s) > g"
  using mail_reach_ok [OF assms(1)] assms(2-5) unfolding mail_ok_def by (metis nat_less_le)

section \<open>The engine\<close>

record engineOptions =
  ReadBufferSize :: int
  RingTimeout :: duration
  RegisterRate :: rat

definition New_engine :: "engineOptions \<Rightarrow> engineOptions \<times> bool" where
  "New_engine o' =
     (let o1 = (if ReadBufferSize o' \<le> 0 \<or> ReadBufferSize o' > 65535 then o'\<lparr>ReadBufferSize := 4096\<rparr> else o');
          o2 = (if RingTimeout o1 = 0 then o1\<lparr>RingTimeout := 180 * 1000000000\<rparr> else o1)
      in (o2, RegisterRate o2 > 0))"

text \<open>The devices that are started and their answered outgoing calls.\<close>

definition Counts :: "(bool \<times> Call list) list \<Rightarrow> nat \<times> nat" where
  "Counts devs =
     fold (\<lambda>(st, cs) (n, k). if \<not> st then (n, k)
       else (n + 1, k + length (filter (\<lambda>c. cdir c = Outgoing \<and> state c = StateConnected) cs))) devs (0, 0)"

section \<open>Witnesses\<close>

definition demo_uris :: uri_env where
  "demo_uris = \<lparr>ParseUri = (\<lambda>_. Inr \<lparr>uScheme = ''sip'', uUser = [], uHost = ''pbx'', uPort = 0\<rparr>), HostPort = (\<lambda>u. uHost u @ '':5060'')\<rparr>"

definition demo_config :: devConfig where
  "demo_config = \<lparr>dcID = [], dcRegistrar = ''pbx'', dcProxy = [], dcUser = ''alice'', dcAuthUser = [], dcPassword = [],
     dcExpires = 0, dcSessionExpires = 0, dcIdentities = Map.empty\<rparr>"

definition demo_device :: device where
  "demo_device = projr (NewDevice demo_uris demo_config)"

lemma demo_device: "NewDevice demo_uris demo_config = Inr demo_device" "registrarURI demo_device = \<lparr>uScheme = ''sip'', uUser = [], uHost = ''pbx'', uPort = 5060\<rparr>"
  by (simp_all add: demo_device_def NewDevice_def demo_config_def demo_uris_def HasPrefix_def Let_def)

theorem number_via_proxy_witness:
  "\<exists>u. targetURI demo_uris demo_device ''702'' = Inr u \<and> destinationFor demo_device u = ''pbx:5060''"
  using number_via_proxy [OF demo_device(1), of "''702''"] demo_device(2)
  by (auto simp: HasPrefix_def demo_config_def demo_uris_def)

definition demo_mail :: mail_sys where
  "demo_mail = \<lparr>box = \<lparr>inbox = [7], inSignals = 1\<rparr>, endedCalls = [], deliveredCalls = [7], claimedCalls = [],
     sleeper = Some (0, \<lambda>c. c = 7)\<rparr>"

lemma demo_mail_reach: "mail_reach demo_mail"
proof -
  let ?s0 = "\<lparr>box = \<lparr>inbox = [], inSignals = 0\<rparr>, endedCalls = [], deliveredCalls = [], claimedCalls = [], sleeper = None\<rparr>"
  have "mail_reach (waiter_pass (\<lambda>c. c = 7) ?s0)" by (rule mr_step [OF mr_init ms_sleep]) simp
  then have s1: "mail_reach (?s0\<lparr>sleeper := Some (0, \<lambda>c. c = 7)\<rparr>)"
    by (simp add: waiter_pass_def claim_def)
  show ?thesis using mr_step [OF s1 ms_deliver, of 7] by (simp add: deliver_def demo_mail_def)
qed

theorem calls_claimed_once_witness: "distinct (claimedCalls demo_mail @ inbox (box demo_mail)) \<and> deliveredCalls demo_mail = [7]"
  using calls_claimed_once [OF demo_mail_reach] by (simp add: demo_mail_def)

theorem no_lost_wakeup_witness: "inSignals (box demo_mail) > 0"
  by (rule no_lost_wakeup [OF demo_mail_reach, of 0 "\<lambda>c. c = 7" 7]) (simp_all add: demo_mail_def)

end
