(* ===== verification/Pbx.thy ===== *)
theory Pbx
  imports Registrar Devices
begin

text \<open>
  The calls of the test PBX, \<open>testpbx/calls.go\<close>: a call is a bridge of two legs, found by the
  Call-ID of either; the PBX relays BYE and re-INVITE between them and carries out transfers
  itself. A leg and a bridge are pointers in the code: here they are positions in the lists
  \<open>legHeap\<close> and \<open>bridges\<close>, which only grow. Every handler is cut where it gives up the lock or waits for
  the network: what is left of it is a \<open>pbx_thread\<close>, and the handlers run interleaved. The
  answers of the endpoints (\<open>pbx_io\<close>) are parameters.
\<close>

section \<open>Legs and bridges\<close>

record pleg =
  lgCallID :: string
  lgUser :: pbx_user
  lgServer :: bool        \<comment> \<open>\<open>uasLeg\<close>: the endpoint called the PBX\<close>
  lgSDP :: string
  lgUp :: bool            \<comment> \<open>neither side has sent BYE or refused\<close>

record bridge =
  brX :: nat
  brY :: nat

record pbx = registrar +
  legHeap :: "pleg list"
  bridges :: "bridge list"
  legs :: "string \<rightharpoonup> nat"       \<comment> \<open>Call-ID of either leg to the bridge\<close>
  orphans :: "string \<rightharpoonup> nat"    \<comment> \<open>legs of transferors left after a transfer\<close>

definition Start_pbx :: "string \<Rightarrow> pbx_config \<Rightarrow> pbx" where
  "Start_pbx host c = registrar.extend (Start_registrar host c) (pbx.fields [] [] Map.empty Map.empty)"

definition leg_id :: "pbx \<Rightarrow> nat \<Rightarrow> string" where
  "leg_id p i = lgCallID (legHeap p ! i)"

definition sdp_of :: "pbx \<Rightarrow> nat \<Rightarrow> string" where
  "sdp_of p i = lgSDP (legHeap p ! i)"

definition setSDP :: "nat \<Rightarrow> string \<Rightarrow> pbx \<Rightarrow> pbx" where
  "setSDP i b p = (if b = [] then p else p\<lparr>legHeap := (legHeap p)[i := (legHeap p ! i)\<lparr>lgSDP := b\<rparr>]\<rparr>)"

definition new_leg :: "string \<Rightarrow> pbx_user \<Rightarrow> bool \<Rightarrow> string \<Rightarrow> pbx \<Rightarrow> pbx" where
  "new_leg cid u srv b p =
     p\<lparr>legHeap := legHeap p @ [\<lparr>lgCallID = cid, lgUser = u, lgServer = srv, lgSDP = b, lgUp = True\<rparr>]\<rparr>"

definition leg_over :: "nat \<Rightarrow> pbx \<Rightarrow> pbx" where
  "leg_over i p = p\<lparr>legHeap := (legHeap p)[i := (legHeap p ! i)\<lparr>lgUp := False\<rparr>]\<rparr>"

definition other :: "bridge \<Rightarrow> nat \<Rightarrow> nat" where
  "other b l = (if l = brX b then brY b else brX b)"

text \<open>\<open>link\<close> of a new bridge.\<close>

definition link_legs :: "nat \<Rightarrow> nat \<Rightarrow> pbx \<Rightarrow> pbx" where
  "link_legs x y p =
     (let b = length (bridges p)
      in p\<lparr>bridges := bridges p @ [\<lparr>brX = x, brY = y\<rparr>], legs := (legs p)(leg_id p x \<mapsto> b, leg_id p y \<mapsto> b)\<rparr>)"

definition find_leg :: "string \<Rightarrow> pbx \<Rightarrow> nat option \<times> nat option" where
  "find_leg i p =
     (case legs p i of
        Some b \<Rightarrow> if leg_id p (brX (bridges p ! b)) = i then (Some b, Some (brX (bridges p ! b)))
                  else (Some b, Some (brY (bridges p ! b)))
      | None \<Rightarrow> (None, orphans p i))"

definition unlink_leg :: "nat \<Rightarrow> pbx \<Rightarrow> pbx" where
  "unlink_leg l p = p\<lparr>legs := (legs p)(leg_id p l := None), orphans := (orphans p)(leg_id p l := None)\<rparr>"

definition unlink :: "nat list \<Rightarrow> pbx \<Rightarrow> pbx" where
  "unlink ls p = fold unlink_leg ls p"

section \<open>What the handlers send and what they wait for\<close>

datatype pbx_action =
    Respond int string
  | CallOut Uri string string string    \<comment> \<open>INVITE of \<open>dial\<close>: contact, caller ID, called number, offer\<close>
  | SendReinvite nat string
  | SendAck nat
  | ByeLeg nat
  | Notify nat string bool

datatype dial_outcome = DialAnswered string string | DialRefused int | DialFailed

record pbx_io =
  ioRinging :: "int list"                  \<comment> \<open>provisional responses to the INVITE of \<open>dial\<close>\<close>
  ioDial :: dial_outcome
  ioCancelled :: bool                      \<comment> \<open>the caller has cancelled\<close>
  ioReply :: "(int \<times> string) option"    \<comment> \<open>final response of an in-dialog request\<close>
  ioAckOk :: bool
  ioWriteOk :: bool

definition success :: "int \<Rightarrow> bool" where
  "success st \<longleftrightarrow> 200 \<le> st \<and> st < 300"

text \<open>
  What is left to do of a handler: \<open>onInvite\<close> while it dials (\<open>Dialing\<close>), before and after
  \<open>link\<close>; \<open>onBye\<close> after \<open>find\<close>; a BYE still to be sent, with the NOTIFY that follows it;
  \<open>onReInvite\<close> while it waits; and the stages of a transfer.
\<close>

datatype pbx_thread =
    Dialing nat pbx_user
  | Linking nat nat
  | Answering nat nat
  | ByeRead nat "nat option"
  | HangingUp nat "pbx_action list"
  | Relaying nat nat
  | Transferring nat nat string string
  | Repointing nat nat nat
  | Detaching nat nat nat
  | Joining nat nat nat
  | RepointKeep nat nat nat nat
  | RepointTarget nat nat nat nat
  | DetachBoth nat nat nat nat
  | JoinBoth nat nat nat nat

type_synonym section_result = "pbx \<times> pbx_thread option \<times> pbx_action list"

section \<open>Calls\<close>

text \<open>\<open>dial\<close>: an endpoint without a binding is unavailable.\<close>

definition dial :: "pbx_io \<Rightarrow> pbx_user \<Rightarrow> pbx_user \<Rightarrow> string \<Rightarrow> pbx \<Rightarrow> dial_outcome \<times> pbx_action list" where
  "dial io u caller offer p =
     (case contactOf u p of None \<Rightarrow> (DialRefused 480, [])
      | Some a \<Rightarrow> (ioDial io, [CallOut a (callerID caller) (callerID u) offer]))"

text \<open>A new INVITE up to \<open>dial\<close>.\<close>

definition pbx_onInvite :: "digest_env \<Rightarrow> nat \<Rightarrow> bool \<Rightarrow> request \<Rightarrow> pbx \<Rightarrow> section_result" where
  "pbx_onInvite dg now readable req p0 =
     (let p = p0\<lparr>InvitesSeen := InvitesSeen p0 + 1\<rparr>
      in case users p (uUser (reqFrom req)) of
           None \<Rightarrow> (p, None, [Respond 403 []])
         | Some caller \<Rightarrow>
             (let (p1, chal) = (if AuthInvite (pcfg p) then authorized dg now req caller ''Proxy-Authorization'' p else (p, None))
              in case chal of Some c \<Rightarrow> (p1, None, [Respond 407 c])
                 | None \<Rightarrow>
                     (case lookup_user (uUser (Recipient req)) p1 of
                        None \<Rightarrow> (p1, None, [Respond 404 []])
                      | Some dst \<Rightarrow>
                          if \<not> readable then (p1, None, [Respond 400 []])
                          else (new_leg (reqCallID req) caller True (reqBody req) p1,
                                Some (Dialing (length (legHeap p1)) dst), [Respond 100 []]))))"

definition dial_step :: "pbx_io \<Rightarrow> nat \<Rightarrow> pbx_user \<Rightarrow> pbx \<Rightarrow> section_result" where
  "dial_step io a dst p =
     (let (out, sent) = dial io dst (lgUser (legHeap p ! a)) (sdp_of p a) p;
          rings = map (\<lambda>n. Respond n []) (filter (\<lambda>n. n = 180 \<or> n = 183) (if sent = [] then [] else ioRinging io))
      in case out of
           DialAnswered cid b \<Rightarrow>
             ((new_leg cid dst False b p)\<lparr>AnsweredCalls := AnsweredCalls p + 1\<rparr>,
              Some (Linking a (length (legHeap p))), sent @ rings)
         | DialRefused st \<Rightarrow> (leg_over a p, None, sent @ rings @ [Respond st []])
         | DialFailed \<Rightarrow> (leg_over a p, None, sent @ rings @ (if ioCancelled io then [] else [Respond 408 []])))"

definition link_step :: "nat \<Rightarrow> nat \<Rightarrow> pbx \<Rightarrow> section_result" where
  "link_step a b p = (link_legs a b p, Some (Answering a b), [])"

definition answer_step :: "pbx_io \<Rightarrow> nat \<Rightarrow> nat \<Rightarrow> pbx \<Rightarrow> section_result" where
  "answer_step io a b p =
     (if ioWriteOk io then (p, None, [Respond 200 (sdp_of p b)])
      else (unlink [a, b] (leg_over a p), Some (HangingUp b []), []))"

definition hang_step :: "nat \<Rightarrow> pbx_action list \<Rightarrow> pbx \<Rightarrow> section_result" where
  "hang_step l after p = (leg_over l p, None, ByeLeg l # after)"

definition pbx_onBye :: "string \<Rightarrow> pbx \<Rightarrow> section_result" where
  "pbx_onBye i p =
     (case find_leg i p of
        (_, None) \<Rightarrow> (p, None, [Respond 481 []])
      | (br, Some l) \<Rightarrow> (leg_over l p, Some (ByeRead l br), [Respond 200 []]))"

definition bye_step :: "nat \<Rightarrow> nat option \<Rightarrow> pbx \<Rightarrow> section_result" where
  "bye_step l br p =
     (case br of None \<Rightarrow> (unlink [l] p, None, [])
      | Some b \<Rightarrow> (let o' = other (bridges p ! b) l in (unlink [l, o'] p, Some (HangingUp o' []), [])))"

definition pbx_onReInvite :: "string \<Rightarrow> string \<Rightarrow> pbx \<Rightarrow> section_result" where
  "pbx_onReInvite i body p =
     (case find_leg i p of
        (Some b, Some l) \<Rightarrow>
          (let o' = other (bridges p ! b) l in (setSDP l body p, Some (Relaying l o'), [SendReinvite o' body]))
      | _ \<Rightarrow> (p, None, [Respond 481 []]))"

definition relay_step :: "pbx_io \<Rightarrow> nat \<Rightarrow> pbx \<Rightarrow> section_result" where
  "relay_step io o' p =
     (case ioReply io of None \<Rightarrow> (p, None, [Respond 500 []])
      | Some (st, ans) \<Rightarrow>
          if success st then (setSDP o' ans p, None, [SendAck o', Respond st ans]) else (p, None, [Respond st ans]))"

section \<open>Transfers\<close>

text \<open>\<open>url.Parse\<close>, as far as it decides whether a URI has an opaque part.\<close>

fun escapes_ok :: "string \<Rightarrow> bool" where
  "escapes_ok [] = True"
| "escapes_ok (c # s) =
     (if c \<noteq> CHR ''%'' then escapes_ok s
      else case s of a # b # s' \<Rightarrow> hex_val a \<noteq> None \<and> hex_val b \<noteq> None \<and> escapes_ok s' | _ \<Rightarrow> False)"

definition is_letter :: "char \<Rightarrow> bool" where
  "is_letter c \<longleftrightarrow> (let n = of_char c :: nat in (65 \<le> n \<and> n \<le> 90) \<or> (97 \<le> n \<and> n \<le> 122))"

fun scheme_end :: "nat \<Rightarrow> string \<Rightarrow> nat option" where
  "scheme_end i [] = None"
| "scheme_end i (c # s) =
     (if is_letter c then scheme_end (i + 1) s
      else if is_digit c \<or> c \<in> {CHR ''+'', CHR ''-'', CHR ''.''} then (if i = 0 then None else scheme_end (i + 1) s)
      else if c = CHR '':'' then Some i else None)"

definition urlOpaque :: "string \<Rightarrow> string option" where
  "urlOpaque raw =
     (let (u, frag, _) = Cut raw ''#''
      in if list_ex (\<lambda>c. (of_char c :: nat) < 32 \<or> (of_char c :: nat) = 127) raw \<or> \<not> escapes_ok frag then None
         else case scheme_end 0 u of
                Some i \<Rightarrow>
                  (let (rest, _, _) = Cut (drop (i + 1) u) ''?''
                   in if i = 0 \<or> rest = [] \<or> HasPrefix rest ''/'' then None else Some rest)
              | None \<Rightarrow> None)"

definition refer_user :: "string \<Rightarrow> string" where
  "refer_user target = (case urlOpaque target of Some q \<Rightarrow> fst (Cut q ''@'') | None \<Rightarrow> target)"

text \<open>The Refer-To reader, the same as the device's except that an empty URI is accepted.\<close>

definition pbx_parseReferTo :: "string option \<Rightarrow> refer_error + (string \<times> string)" where
  "pbx_parseReferTo h =
     (case h of None \<Rightarrow> Inl NoReferTo
      | Some value \<Rightarrow>
          (let (uri, hdrs, _) = Cut (angle_part (TrimSpace value)) ''?''
           in case refer_replaces (Split hdrs (CHR ''&'')) [] of Inl e \<Rightarrow> Inl e | Inr r \<Rightarrow> Inr (uri, r)))"

definition reasonFor :: "int \<Rightarrow> string" where
  "reasonFor st = (if st = 200 then ''OK'' else ''Transfer Failed'')"

definition final_notify :: "nat \<Rightarrow> int \<Rightarrow> pbx_action list" where
  "final_notify t st = [Notify t (''SIP/2.0 '' @ Itoa st @ '' '' @ reasonFor st) True]"

definition pbx_notify :: "string \<Rightarrow> bool \<Rightarrow> hdr list \<times> string" where
  "pbx_notify frag final =
     ([(''Content-Type'', ''message/sipfrag;version=2.0''), (''Event'', ''refer''),
       (''Subscription-State'', if final then ''terminated;reason=noresource'' else ''active;expires=60'')],
      frag @ crlf)"

definition pbx_onRefer :: "string \<Rightarrow> string option \<Rightarrow> pbx \<Rightarrow> section_result" where
  "pbx_onRefer i referTo p =
     (case find_leg i p of
        (Some b, Some t) \<Rightarrow>
          (case pbx_parseReferTo referTo of Inl _ \<Rightarrow> (p, None, [Respond 400 []])
           | Inr (target, replaces) \<Rightarrow>
               (p, Some (Transferring b t target replaces), [Respond 202 [], Notify t ''SIP/2.0 100 Trying'' False]))
      | _ \<Rightarrow> (p, None, [Respond 481 []]))"

text \<open>\<open>reinvite\<close>: whether it succeeded.\<close>

definition reinvite_leg :: "pbx_io \<Rightarrow> nat \<Rightarrow> string \<Rightarrow> pbx \<Rightarrow> bool \<times> pbx \<times> pbx_action list" where
  "reinvite_leg io l offer p =
     (case ioReply io of
        Some (st, ans) \<Rightarrow>
          if success st then (ioAckOk io, setSDP l ans p, [SendReinvite l offer, SendAck l]) else (False, p, [SendReinvite l offer])
      | None \<Rightarrow> (False, p, [SendReinvite l offer]))"

definition blind_start :: "pbx_io \<Rightarrow> nat \<Rightarrow> nat \<Rightarrow> string \<Rightarrow> pbx \<Rightarrow> section_result" where
  "blind_start io b t target p =
     (let keep = other (bridges p ! b) t
      in case lookup_user (refer_user target) p of
           None \<Rightarrow> (p, None, final_notify t 404)
         | Some c \<Rightarrow>
             (let (out, sent) = dial io c (lgUser (legHeap p ! keep)) (sdp_of p keep) p
              in case out of
                   DialAnswered cid ans \<Rightarrow> (new_leg cid c False ans p, Some (Repointing t keep (length (legHeap p))), sent)
                 | DialRefused st \<Rightarrow> (p, None, sent @ final_notify t st)
                 | DialFailed \<Rightarrow> (p, None, sent @ final_notify t 500)))"

definition repoint_step :: "pbx_io \<Rightarrow> nat \<Rightarrow> nat \<Rightarrow> nat \<Rightarrow> pbx \<Rightarrow> section_result" where
  "repoint_step io t keep nl p =
     (let (ok, p1, sent) = reinvite_leg io keep (sdp_of p nl) p
      in (p1, Some (if ok then Detaching t keep nl else HangingUp nl (final_notify t 500)), sent))"

definition detach :: "nat \<Rightarrow> pbx \<Rightarrow> pbx" where
  "detach t p = p\<lparr>legs := (legs p)(leg_id p t := None), orphans := (orphans p)(leg_id p t \<mapsto> t)\<rparr>"

definition detach_step :: "nat \<Rightarrow> nat \<Rightarrow> nat \<Rightarrow> pbx \<Rightarrow> section_result" where
  "detach_step t keep nl p = (detach t p, Some (Joining t keep nl), [])"

definition join_step :: "nat \<Rightarrow> nat \<Rightarrow> nat \<Rightarrow> pbx \<Rightarrow> section_result" where
  "join_step t keep nl p = (link_legs keep nl p, None, final_notify t 200)"

definition attended_start :: "nat \<Rightarrow> nat \<Rightarrow> string \<Rightarrow> pbx \<Rightarrow> section_result" where
  "attended_start b t replaces p =
     (let (cid, _, _) = Cut replaces '';''
      in case legs p cid of
           None \<Rightarrow> (p, None, final_notify t 481)
         | Some cb \<Rightarrow>
             if cb = b then (p, None, final_notify t 481)
             else (let c = bridges p ! cb; consult = (if leg_id p (brX c) = cid then brX c else brY c)
                   in (p, Some (RepointKeep t (other (bridges p ! b) t) (other c consult) consult), [])))"

definition repoint_keep_step :: "pbx_io \<Rightarrow> nat \<Rightarrow> nat \<Rightarrow> nat \<Rightarrow> nat \<Rightarrow> pbx \<Rightarrow> section_result" where
  "repoint_keep_step io t keep target consult p =
     (let (ok, p1, sent) = reinvite_leg io keep (sdp_of p target) p
      in if ok then (p1, Some (RepointTarget t keep target consult), sent) else (p1, None, sent @ final_notify t 500))"

definition repoint_target_step :: "pbx_io \<Rightarrow> nat \<Rightarrow> nat \<Rightarrow> nat \<Rightarrow> nat \<Rightarrow> pbx \<Rightarrow> section_result" where
  "repoint_target_step io t keep target consult p =
     (let (ok, p1, sent) = reinvite_leg io target (sdp_of p keep) p
      in if ok then (p1, Some (DetachBoth t keep target consult), sent) else (p1, None, sent @ final_notify t 500))"

definition detach_both_step :: "nat \<Rightarrow> nat \<Rightarrow> nat \<Rightarrow> nat \<Rightarrow> pbx \<Rightarrow> section_result" where
  "detach_both_step t keep target consult p =
     (p\<lparr>legs := (legs p)(leg_id p t := None, leg_id p consult := None), orphans := (orphans p)(leg_id p t \<mapsto> t)\<rparr>,
      Some (JoinBoth t keep target consult), [])"

definition join_both_step :: "nat \<Rightarrow> nat \<Rightarrow> nat \<Rightarrow> nat \<Rightarrow> pbx \<Rightarrow> section_result" where
  "join_both_step t keep target consult p =
     (link_legs keep target p, Some (HangingUp consult (final_notify t 200)), [])"

section \<open>The handlers together\<close>

text \<open>The table of handlers that \<open>Start\<close> registers.\<close>

datatype pbx_message =
    MRegister register_message
  | MInvite bool request
  | MBye string
  | MRefer string "string option"

definition pbx_receive :: "digest_env \<Rightarrow> nat \<Rightarrow> pbx_message \<Rightarrow> pbx \<Rightarrow> section_result" where
  "pbx_receive dg now m p =
     (case m of
        MRegister req \<Rightarrow> (let (p1, r) = onRegister dg now req p in (p1, None, [Respond (raCode r) []]))
      | MInvite readable req \<Rightarrow>
          if toTag req \<noteq> None then pbx_onReInvite (reqCallID req) (reqBody req) p else pbx_onInvite dg now readable req p
      | MBye i \<Rightarrow> pbx_onBye i p
      | MRefer i referTo \<Rightarrow> pbx_onRefer i referTo p)"

definition thread_step :: "pbx_io \<Rightarrow> pbx_thread \<Rightarrow> pbx \<Rightarrow> section_result" where
  "thread_step io t p =
     (case t of
        Dialing a dst \<Rightarrow> dial_step io a dst p
      | Linking a b \<Rightarrow> link_step a b p
      | Answering a b \<Rightarrow> answer_step io a b p
      | ByeRead l br \<Rightarrow> bye_step l br p
      | HangingUp l after \<Rightarrow> hang_step l after p
      | Relaying l o' \<Rightarrow> relay_step io o' p
      | Transferring b tr target replaces \<Rightarrow>
          if replaces \<noteq> [] then attended_start b tr replaces p else blind_start io b tr target p
      | Repointing tr keep nl \<Rightarrow> repoint_step io tr keep nl p
      | Detaching tr keep nl \<Rightarrow> detach_step tr keep nl p
      | Joining tr keep nl \<Rightarrow> join_step tr keep nl p
      | RepointKeep tr keep target consult \<Rightarrow> repoint_keep_step io tr keep target consult p
      | RepointTarget tr keep target consult \<Rightarrow> repoint_target_step io tr keep target consult p
      | DetachBoth tr keep target consult \<Rightarrow> detach_both_step tr keep target consult p
      | JoinBoth tr keep target consult \<Rightarrow> join_both_step tr keep target consult p)"

record pbx_sys =
  the_pbx :: pbx
  threads :: "pbx_thread list"

text \<open>
  The PBX runs a request up to its first wait, or one thread up to its next. Call-IDs are
  globally unique (RFC 3261, 8.1.1.4): a leg that a step adds has one of its own.
\<close>

definition unique_ids :: "pbx \<Rightarrow> bool" where
  "unique_ids p \<longleftrightarrow> distinct (map lgCallID (legHeap p))"

definition replace_at :: "nat \<Rightarrow> 'a option \<Rightarrow> 'a list \<Rightarrow> 'a list" where
  "replace_at i t l = take i l @ (case t of None \<Rightarrow> [] | Some x \<Rightarrow> [x]) @ drop (Suc i) l"

inductive pbx_step :: "pbx_sys \<Rightarrow> pbx_sys \<Rightarrow> bool" where
  ps_receive: "pbx_receive dg now m (the_pbx s) = (p, t, acts) \<Longrightarrow> unique_ids p \<Longrightarrow>
     pbx_step s \<lparr>the_pbx = p, threads = threads s @ (case t of None \<Rightarrow> [] | Some x \<Rightarrow> [x])\<rparr>"
| ps_run: "i < length (threads s) \<Longrightarrow> thread_step io (threads s ! i) (the_pbx s) = (p, t, acts) \<Longrightarrow> unique_ids p \<Longrightarrow>
     pbx_step s \<lparr>the_pbx = p, threads = replace_at i t (threads s)\<rparr>"

inductive pbx_reach :: "pbx_sys \<Rightarrow> pbx_sys \<Rightarrow> bool" where
  pr_init: "pbx_reach s s"
| pr_step: "pbx_reach s s' \<Longrightarrow> pbx_step s' s'' \<Longrightarrow> pbx_reach s s''"

definition pbx_init :: "string \<Rightarrow> pbx_config \<Rightarrow> pbx_sys" where
  "pbx_init host c = \<lparr>the_pbx = Start_pbx host c, threads = []\<rparr>"

text \<open>A handler run on without interference.\<close>

fun run_thread :: "pbx_io list \<Rightarrow> pbx_thread \<Rightarrow> pbx \<Rightarrow> section_result" where
  "run_thread [] t p = (p, Some t, [])"
| "run_thread (io # ios) t p =
     (case thread_step io t p of
        (p1, None, a) \<Rightarrow> (p1, None, a)
      | (p1, Some t1, a) \<Rightarrow> (let (p2, t2, a2) = run_thread ios t1 p1 in (p2, t2, a @ a2)))"

section \<open>No live leg is forgotten\<close>

text \<open>The legs a thread names, and those it alone still knows of.\<close>

fun mentioned :: "pbx_thread \<Rightarrow> nat list" where
  "mentioned (Dialing a u) = [a]"
| "mentioned (Linking a b) = [a, b]"
| "mentioned (Answering a b) = [a, b]"
| "mentioned (ByeRead l br) = [l]"
| "mentioned (HangingUp l after) = [l]"
| "mentioned (Relaying l k) = [l, k]"
| "mentioned (Transferring b t target replaces) = [t]"
| "mentioned (Repointing t k n) = [t, k, n]"
| "mentioned (Detaching t k n) = [t, k, n]"
| "mentioned (Joining t k n) = [t, k, n]"
| "mentioned (RepointKeep t k n c) = [t, k, n, c]"
| "mentioned (RepointTarget t k n c) = [t, k, n, c]"
| "mentioned (DetachBoth t k n c) = [t, k, n, c]"
| "mentioned (JoinBoth t k n c) = [t, k, n, c]"

fun thread_bridge :: "pbx_thread \<Rightarrow> nat option" where
  "thread_bridge (ByeRead l br) = br"
| "thread_bridge (Transferring b t target replaces) = Some b"
| "thread_bridge _ = None"

fun owned :: "pbx_thread \<Rightarrow> nat set" where
  "owned (Dialing a u) = {a}"
| "owned (Linking a b) = {a, b}"
| "owned (HangingUp l after) = {l}"
| "owned (Repointing t k n) = {n}"
| "owned (Detaching t k n) = {n}"
| "owned (Joining t k n) = {n}"
| "owned (JoinBoth t k n c) = {c}"
| "owned _ = {}"

definition owned_opt :: "pbx_thread option \<Rightarrow> nat set" where
  "owned_opt t = (case t of None \<Rightarrow> {} | Some x \<Rightarrow> owned x)"

definition known_leg :: "pbx \<Rightarrow> nat \<Rightarrow> bool" where
  "known_leg p i \<longleftrightarrow> legs p (leg_id p i) \<noteq> None \<or> orphans p (leg_id p i) \<noteq> None"

definition up_leg :: "pbx \<Rightarrow> nat \<Rightarrow> bool" where
  "up_leg p i \<longleftrightarrow> i < length (legHeap p) \<and> lgUp (legHeap p ! i)"

definition thread_wf :: "pbx \<Rightarrow> pbx_thread \<Rightarrow> bool" where
  "thread_wf p t \<longleftrightarrow> list_all (\<lambda>l. l < length (legHeap p)) (mentioned t) \<and>
     (\<forall>b. thread_bridge t = Some b \<longrightarrow> b < length (bridges p)) \<and>
     (\<forall>l br. t = ByeRead l br \<longrightarrow> \<not> up_leg p l)"

definition pbx_wf :: "pbx \<Rightarrow> bool" where
  "pbx_wf p \<longleftrightarrow>
     (\<forall>b < length (bridges p). brX (bridges p ! b) < length (legHeap p) \<and> brY (bridges p ! b) < length (legHeap p)) \<and>
     (\<forall>i b. legs p i = Some b \<longrightarrow> b < length (bridges p) \<and>
        (i = leg_id p (brX (bridges p ! b)) \<or> i = leg_id p (brY (bridges p ! b)))) \<and>
     (\<forall>i l. orphans p i = Some l \<longrightarrow> l < length (legHeap p) \<and> leg_id p l = i)"

definition tended :: "nat set \<Rightarrow> pbx \<Rightarrow> bool" where
  "tended own p \<longleftrightarrow> (\<forall>i. up_leg p i \<longrightarrow> known_leg p i \<or> i \<in> own)"

definition grows :: "pbx \<Rightarrow> pbx \<Rightarrow> bool" where
  "grows p p' \<longleftrightarrow> length (legHeap p) \<le> length (legHeap p') \<and> length (bridges p) \<le> length (bridges p') \<and>
     (\<forall>i < length (legHeap p). leg_id p' i = leg_id p i \<and> (up_leg p' i \<longrightarrow> up_leg p i))"

text \<open>What a section owes: it keeps the tables well formed and takes over every leg it drops from them.\<close>

definition keeps :: "nat set \<Rightarrow> pbx \<Rightarrow> section_result \<Rightarrow> bool" where
  "keeps own p r \<longleftrightarrow>
     (case r of (p', t, acts) \<Rightarrow> pbx_wf p' \<and> grows p p' \<and> (\<forall>x. t = Some x \<longrightarrow> thread_wf p' x) \<and>
        (\<forall>R. tended (own \<union> R) p \<longrightarrow> tended (owned_opt t \<union> R) p'))"

lemma thread_wf_grows: "thread_wf p t \<Longrightarrow> grows p p' \<Longrightarrow> thread_wf p' t"
  by (auto simp: thread_wf_def grows_def list_all_iff intro: less_le_trans)

lemma grows_refl [simp]: "grows p p"
  by (simp add: grows_def)

lemma tended_mono: "tended A p \<Longrightarrow> A \<subseteq> B \<Longrightarrow> tended B p"
  by (auto simp: tended_def)

subsection \<open>The operations on the tables\<close>

lemma leg_over_fields [simp]:
  "length (legHeap (leg_over i p)) = length (legHeap p)" "bridges (leg_over i p) = bridges p" "legs (leg_over i p) = legs p"
  "orphans (leg_over i p) = orphans p" "leg_id (leg_over i p) j = leg_id p j" "sdp_of (leg_over i p) j = sdp_of p j"
  "up_leg (leg_over i p) j \<longleftrightarrow> up_leg p j \<and> j \<noteq> i"
  by (cases "i < length (legHeap p)"; auto simp: leg_over_def leg_id_def sdp_of_def up_leg_def nth_list_update list_update_beyond)+

lemma setSDP_fields [simp]:
  "length (legHeap (setSDP i b p)) = length (legHeap p)" "bridges (setSDP i b p) = bridges p" "legs (setSDP i b p) = legs p"
  "orphans (setSDP i b p) = orphans p" "leg_id (setSDP i b p) j = leg_id p j" "up_leg (setSDP i b p) j = up_leg p j"
  by (cases "i < length (legHeap p)"; auto simp: setSDP_def leg_id_def up_leg_def nth_list_update list_update_beyond)+

lemma new_leg_fields [simp]:
  "length (legHeap (new_leg cid u s b p)) = Suc (length (legHeap p))" "bridges (new_leg cid u s b p) = bridges p"
  "legs (new_leg cid u s b p) = legs p" "orphans (new_leg cid u s b p) = orphans p"
  "j < length (legHeap p) \<Longrightarrow> leg_id (new_leg cid u s b p) j = leg_id p j"
  "leg_id (new_leg cid u s b p) (length (legHeap p)) = cid"
  "up_leg (new_leg cid u s b p) j \<longleftrightarrow> up_leg p j \<or> j = length (legHeap p)"
  by (auto simp: new_leg_def leg_id_def up_leg_def nth_append)

lemma new_leg_up [simp]: "up_leg p j \<Longrightarrow> leg_id (new_leg cid u s b p) j = leg_id p j"
  by (simp add: up_leg_def)

lemma count_fields [simp]:
  "leg_id (p\<lparr>AnsweredCalls := n\<rparr>) = leg_id p" "leg_id (p\<lparr>InvitesSeen := n\<rparr>) = leg_id p"
  "up_leg (p\<lparr>AnsweredCalls := n\<rparr>) = up_leg p" "up_leg (p\<lparr>InvitesSeen := n\<rparr>) = up_leg p"
  "leg_id (p\<lparr>pbxNonce := k\<rparr>) = leg_id p" "up_leg (p\<lparr>pbxNonce := k\<rparr>) = up_leg p"
  "leg_id (p\<lparr>legs := m\<rparr>) = leg_id p" "leg_id (p\<lparr>orphans := m'\<rparr>) = leg_id p" "leg_id (p\<lparr>bridges := bs\<rparr>) = leg_id p"
  "up_leg (p\<lparr>legs := m\<rparr>) = up_leg p" "up_leg (p\<lparr>orphans := m'\<rparr>) = up_leg p" "up_leg (p\<lparr>bridges := bs\<rparr>) = up_leg p"
  by (simp_all add: leg_id_def up_leg_def fun_eq_iff)

lemma link_fields [simp]:
  "legHeap (link_legs x y p) = legHeap p" "bridges (link_legs x y p) = bridges p @ [\<lparr>brX = x, brY = y\<rparr>]"
  "legs (link_legs x y p) = (legs p)(leg_id p x \<mapsto> length (bridges p), leg_id p y \<mapsto> length (bridges p))"
  "orphans (link_legs x y p) = orphans p" "leg_id (link_legs x y p) = leg_id p" "up_leg (link_legs x y p) = up_leg p"
  by (simp_all add: link_legs_def Let_def leg_id_def up_leg_def fun_eq_iff)

lemma unlink_fields [simp]:
  "legHeap (unlink ls p) = legHeap p" "bridges (unlink ls p) = bridges p" "leg_id (unlink ls p) = leg_id p"
  "up_leg (unlink ls p) = up_leg p"
  "legs (unlink ls p) i = (if i \<in> leg_id p ` set ls then None else legs p i)"
  "orphans (unlink ls p) i = (if i \<in> leg_id p ` set ls then None else orphans p i)"
proof -
  have step: "legHeap (unlink_leg l q) = legHeap q \<and> bridges (unlink_leg l q) = bridges q \<and> leg_id (unlink_leg l q) = leg_id q \<and>
      up_leg (unlink_leg l q) = up_leg q" for l q
    by (simp add: unlink_leg_def)
  show fixed: "legHeap (unlink ls p) = legHeap p" "bridges (unlink ls p) = bridges p" "leg_id (unlink ls p) = leg_id p"
      "up_leg (unlink ls p) = up_leg p" for p
    unfolding unlink_def by (induction ls arbitrary: p) (simp_all add: step)
  show "legs (unlink ls p) i = (if i \<in> leg_id p ` set ls then None else legs p i)"
    "orphans (unlink ls p) i = (if i \<in> leg_id p ` set ls then None else orphans p i)"
    unfolding unlink_def by (induction ls arbitrary: p) (simp_all add: step, simp_all add: unlink_leg_def)
qed

lemma detach_fields [simp]:
  "legHeap (detach t p) = legHeap p" "bridges (detach t p) = bridges p" "leg_id (detach t p) = leg_id p" "up_leg (detach t p) = up_leg p"
  "legs (detach t p) = (legs p)(leg_id p t := None)" "orphans (detach t p) = (orphans p)(leg_id p t \<mapsto> t)"
  by (simp_all add: detach_def)

lemma other_in:
  "pbx_wf p \<Longrightarrow> b < length (bridges p) \<Longrightarrow> other (bridges p ! b) l < length (legHeap p)"
  by (simp add: pbx_wf_def other_def)

lemma find_leg_some:
  assumes "pbx_wf p" "find_leg i p = (br, Some l)"
  shows "l < length (legHeap p) \<and> leg_id p l = i \<and> (\<forall>b. br = Some b \<longrightarrow> b < length (bridges p) \<and> legs p i = Some b)"
proof (cases "legs p i")
  case None
  then have "orphans p i = Some l" "br = None" using assms(2) by (simp_all add: find_leg_def)
  then show ?thesis using assms(1) unfolding pbx_wf_def by blast
next
  case (Some b)
  then have b: "b < length (bridges p)" "i = leg_id p (brX (bridges p ! b)) \<or> i = leg_id p (brY (bridges p ! b))"
      "brX (bridges p ! b) < length (legHeap p)" "brY (bridges p ! b) < length (legHeap p)"
    using assms(1) unfolding pbx_wf_def by blast+
  have "br = Some b" "l = (if leg_id p (brX (bridges p ! b)) = i then brX (bridges p ! b) else brY (bridges p ! b))"
    using assms(2) Some by (simp_all add: find_leg_def split: if_splits)
  with b Some show ?thesis by (simp split: if_splits)
qed

lemma leg_id_inj: "unique_ids p \<Longrightarrow> i < length (legHeap p) \<Longrightarrow> j < length (legHeap p) \<Longrightarrow> leg_id p i = leg_id p j \<longleftrightarrow> i = j"
  by (auto simp: unique_ids_def leg_id_def distinct_conv_nth)

lemma up_leg_same:
  "unique_ids p \<Longrightarrow> leg_id p i = leg_id p j \<Longrightarrow> up_leg p i \<Longrightarrow> j < length (legHeap p) \<Longrightarrow> i = j"
  using leg_id_inj [of p i j] by (simp add: up_leg_def)

lemma find_known:
  assumes "pbx_wf p" "unique_ids p" "i < length (legHeap p)" "known_leg p i"
  shows "\<exists>br. find_leg (leg_id p i) p = (br, Some i)"
proof -
  have "snd (find_leg (leg_id p i) p) \<noteq> None"
    using assms(4) by (auto simp: known_leg_def find_leg_def split: option.split)
  then obtain br l where f: "find_leg (leg_id p i) p = (br, Some l)" by (metis not_None_eq prod.collapse)
  then have "l = i" using find_leg_some [OF assms(1) f] leg_id_inj [OF assms(2)] assms(3) by blast
  with f show ?thesis by blast
qed

lemma wf_same:
  assumes "pbx_wf p" "length (legHeap p') = length (legHeap p)" "bridges p' = bridges p" "legs p' = legs p"
    "orphans p' = orphans p" "leg_id p' = leg_id p"
  shows "pbx_wf p'"
  using assms by (simp add: pbx_wf_def)

lemma wf_leg_over [simp]: "pbx_wf p \<Longrightarrow> pbx_wf (leg_over i p)"
  by (erule wf_same) (simp_all add: fun_eq_iff)

lemma wf_setSDP [simp]: "pbx_wf p \<Longrightarrow> pbx_wf (setSDP i b p)"
  by (erule wf_same) (simp_all add: fun_eq_iff)

lemma wf_counts [simp]:
  "pbx_wf p \<Longrightarrow> pbx_wf (p\<lparr>AnsweredCalls := n\<rparr>)" "pbx_wf p \<Longrightarrow> pbx_wf (p\<lparr>InvitesSeen := n\<rparr>)"
  by (erule wf_same; simp)+

lemma wf_new_leg [simp]: "pbx_wf p \<Longrightarrow> pbx_wf (new_leg cid u s b p)"
  unfolding pbx_wf_def by (auto simp: less_SucI)

lemma wf_link [simp]: "pbx_wf p \<Longrightarrow> x < length (legHeap p) \<Longrightarrow> y < length (legHeap p) \<Longrightarrow> pbx_wf (link_legs x y p)"
  unfolding pbx_wf_def by (auto simp: nth_append less_Suc_eq split: if_splits)

lemma wf_unlink [simp]: "pbx_wf p \<Longrightarrow> pbx_wf (unlink ls p)"
  unfolding pbx_wf_def by (auto split: if_splits)

lemma wf_detach [simp]: "pbx_wf p \<Longrightarrow> t < length (legHeap p) \<Longrightarrow> pbx_wf (detach t p)"
  unfolding pbx_wf_def by (auto split: if_splits)

lemma wf_registrar:
  assumes "pbx_wf p" "legHeap p' = legHeap p" "bridges p' = bridges p" "legs p' = legs p" "orphans p' = orphans p"
  shows "pbx_wf p'" "grows p p'" "up_leg p' = up_leg p" "known_leg p' = known_leg p"
proof -
  have "leg_id p' = leg_id p" by (simp add: fun_eq_iff leg_id_def assms(2))
  then show "pbx_wf p'" "grows p p'" "up_leg p' = up_leg p" "known_leg p' = known_leg p"
    using assms by (auto intro: wf_same simp: grows_def up_leg_def known_leg_def fun_eq_iff)
qed

lemma keepsI:
  assumes "pbx_wf p'" "grows p p'" "\<And>x. t = Some x \<Longrightarrow> thread_wf p' x"
    and "\<And>i. up_leg p' i \<Longrightarrow> \<not> known_leg p' i \<Longrightarrow> i \<notin> owned_opt t \<Longrightarrow> up_leg p i \<and> \<not> known_leg p i \<and> i \<notin> own"
  shows "keeps own p (p', t, acts)"
  using assms unfolding keeps_def tended_def by fastforce

subsection \<open>Every section\<close>

lemmas section_simps = owned_opt_def known_leg_def thread_wf_def grows_def

lemma keeps_dial: "pbx_wf p \<Longrightarrow> thread_wf p (Dialing a u) \<Longrightarrow> keeps {a} p (dial_step io a u p)"
  by (auto simp: dial_step_def Let_def section_simps intro!: keepsI split: dial_outcome.split prod.split)

lemma keeps_link: "pbx_wf p \<Longrightarrow> thread_wf p (Linking a b) \<Longrightarrow> keeps {a, b} p (link_step a b p)"
  by (auto simp: link_step_def section_simps intro!: keepsI split: if_splits)

lemma keeps_answer:
  assumes "pbx_wf p" "unique_ids p" "thread_wf p (Answering a b)"
  shows "keeps {} p (answer_step io a b p)"
  using assms
  by (auto simp: answer_step_def section_simps intro!: keepsI split: if_splits dest: up_leg_same [OF assms(2)])

lemma keeps_hang: "pbx_wf p \<Longrightarrow> keeps {l} p (hang_step l after p)"
  by (auto simp: hang_step_def section_simps intro!: keepsI)

lemma keeps_bye_arrives: "pbx_wf p \<Longrightarrow> keeps {} p (pbx_onBye i p)"
  using find_leg_some [of p i]
  by (auto simp: pbx_onBye_def section_simps intro!: keepsI split: prod.split option.split)

lemma keeps_bye:
  assumes "pbx_wf p" "unique_ids p" "thread_wf p (ByeRead l br)"
  shows "keeps {} p (bye_step l br p)"
proof (cases br)
  case None
  then show ?thesis using assms
    by (auto simp: bye_step_def section_simps intro!: keepsI split: if_splits dest: up_leg_same [OF assms(2)])
next
  case (Some b)
  let ?o = "other (bridges p ! b) l"
  have o: "?o < length (legHeap p)" "l < length (legHeap p)" "\<not> up_leg p l"
    using assms(3) other_in [OF assms(1)] Some by (simp_all add: thread_wf_def)
  note same = up_leg_same [OF assms(2) _ _ o(1)] up_leg_same [OF assms(2) _ _ o(2)]
  show ?thesis using assms(1) o Some
    by (auto simp: bye_step_def Let_def section_simps intro!: keepsI split: if_splits dest: same)
qed

lemma keeps_reinvite_arrives: "pbx_wf p \<Longrightarrow> keeps {} p (pbx_onReInvite i body p)"
  using find_leg_some [of p i] other_in [of p]
  by (auto simp: pbx_onReInvite_def Let_def section_simps intro!: keepsI split: prod.split option.split)

lemma keeps_relay: "pbx_wf p \<Longrightarrow> keeps {} p (relay_step io k p)"
  by (auto simp: relay_step_def section_simps intro!: keepsI split: option.split)

lemma keeps_refer_arrives: "pbx_wf p \<Longrightarrow> keeps {} p (pbx_onRefer i h p)"
  using find_leg_some [of p i]
  by (auto simp: pbx_onRefer_def section_simps intro!: keepsI split: prod.split option.split sum.split)

lemma reinvite_leg_cases:
  "reinvite_leg io l offer p = (ok, p1, acts) \<Longrightarrow> p1 = p \<or> (\<exists>b. p1 = setSDP l b p)"
  by (auto simp: reinvite_leg_def split: option.splits prod.splits if_splits)

lemma keeps_blind_start: "pbx_wf p \<Longrightarrow> thread_wf p (Transferring b t target []) \<Longrightarrow> keeps {} p (blind_start io b t target p)"
  using other_in [of p b t]
  by (auto simp: blind_start_def Let_def section_simps intro!: keepsI split: option.split dial_outcome.split prod.split)

lemma keeps_repoint: "pbx_wf p \<Longrightarrow> thread_wf p (Repointing t k n) \<Longrightarrow> keeps {n} p (repoint_step io t k n p)"
  by (auto simp: repoint_step_def section_simps intro!: keepsI split: prod.split dest!: reinvite_leg_cases)

lemma keeps_detach: "pbx_wf p \<Longrightarrow> thread_wf p (Detaching t k n) \<Longrightarrow> keeps {n} p (detach_step t k n p)"
  by (auto simp: detach_step_def section_simps intro!: keepsI split: if_splits)

lemma keeps_join: "pbx_wf p \<Longrightarrow> thread_wf p (Joining t k n) \<Longrightarrow> keeps {n} p (join_step t k n p)"
  by (auto simp: join_step_def section_simps intro!: keepsI split: if_splits)

lemma wf_bridge:
  assumes "pbx_wf p" "legs p cid = Some b"
  shows "b < length (bridges p)" "brX (bridges p ! b) < length (legHeap p)" "brY (bridges p ! b) < length (legHeap p)"
  using assms unfolding pbx_wf_def by blast+

lemma keeps_attended_start: "pbx_wf p \<Longrightarrow> thread_wf p (Transferring b t target replaces) \<Longrightarrow> keeps {} p (attended_start b t replaces p)"
  using other_in [of p] wf_bridge [of p]
  by (auto simp: attended_start_def Let_def section_simps intro!: keepsI split: option.split prod.split)

lemma keeps_repoint_keep:
  "pbx_wf p \<Longrightarrow> thread_wf p (RepointKeep t k n c) \<Longrightarrow> keeps {} p (repoint_keep_step io t k n c p)"
  by (auto simp: repoint_keep_step_def section_simps intro!: keepsI split: prod.split dest!: reinvite_leg_cases)

lemma keeps_repoint_target:
  "pbx_wf p \<Longrightarrow> thread_wf p (RepointTarget t k n c) \<Longrightarrow> keeps {} p (repoint_target_step io t k n c p)"
  by (auto simp: repoint_target_step_def section_simps intro!: keepsI split: prod.split dest!: reinvite_leg_cases)

lemma wf_detach_both [simp]:
  "pbx_wf p \<Longrightarrow> t < length (legHeap p) \<Longrightarrow>
   pbx_wf (p\<lparr>legs := (legs p)(i := None, j := None), orphans := (orphans p)(leg_id p t \<mapsto> t)\<rparr>)"
  unfolding pbx_wf_def by (auto split: if_splits)

lemma keeps_detach_both:
  assumes "pbx_wf p" "unique_ids p" "thread_wf p (DetachBoth t k n c)"
  shows "keeps {} p (detach_both_step t k n c p)"
  using assms
  by (auto simp: detach_both_step_def section_simps intro!: keepsI split: if_splits dest: up_leg_same [OF assms(2)])

lemma keeps_join_both: "pbx_wf p \<Longrightarrow> thread_wf p (JoinBoth t k n c) \<Longrightarrow> keeps {c} p (join_both_step t k n c p)"
  by (auto simp: join_both_step_def section_simps intro!: keepsI split: if_splits)

definition same_tables :: "pbx \<Rightarrow> pbx \<Rightarrow> bool" where
  "same_tables p p' \<longleftrightarrow> legHeap p' = legHeap p \<and> bridges p' = bridges p \<and> legs p' = legs p \<and> orphans p' = orphans p"

lemma same_authorized: "authorized dg now req u h p0 = (p', c) \<Longrightarrow> same_tables p p0 \<Longrightarrow> same_tables p p'"
  by (auto simp: authorized_def same_tables_def split: if_splits)

lemma same_onRegister: "onRegister dg now req p = (p', r) \<Longrightarrow> same_tables p p'"
  by (auto simp: onRegister_def Let_def authorized_def same_tables_def split: option.splits prod.splits if_splits)

lemma keeps_same: "pbx_wf p \<Longrightarrow> same_tables p p' \<Longrightarrow> keeps {} p (p', None, acts)"
  using wf_registrar [of p p'] unfolding same_tables_def by (intro keepsI) simp_all

lemma keeps_caller:
  assumes "pbx_wf p" "same_tables p p'"
  shows "keeps {} p (new_leg cid c True b p', Some (Dialing (length (legHeap p')) u), acts)"
    "keeps {} p (new_leg cid c True b p', Some (Dialing (length (legHeap p)) u), acts)"
proof -
  have s: "legHeap p' = legHeap p" "bridges p' = bridges p" "legs p' = legs p" "orphans p' = orphans p"
    using assms(2) by (simp_all add: same_tables_def)
  have "leg_id p' = leg_id p" by (simp add: fun_eq_iff leg_id_def s)
  then show "keeps {} p (new_leg cid c True b p', Some (Dialing (length (legHeap p')) u), acts)"
    using wf_registrar [OF assms(1) s] s by (intro keepsI) (auto simp: section_simps)
  then show "keeps {} p (new_leg cid c True b p', Some (Dialing (length (legHeap p)) u), acts)" by (simp add: s)
qed

lemma keeps_invite_arrives:
  assumes "pbx_wf p"
  shows "keeps {} p (pbx_onInvite dg now readable req p)"
proof -
  have s: "same_tables p (p\<lparr>InvitesSeen := n\<rparr>)" for n by (simp add: same_tables_def)
  show ?thesis
    using assms s
    by (auto simp: pbx_onInvite_def Let_def intro!: keeps_same keeps_caller intro: same_authorized split: option.split prod.split)
qed

lemma keeps_receive: "pbx_wf p \<Longrightarrow> keeps {} p (pbx_receive dg now m p)"
  by (cases m) (auto simp: pbx_receive_def keeps_invite_arrives keeps_reinvite_arrives keeps_bye_arrives keeps_refer_arrives
      intro!: keeps_same dest: same_onRegister split: prod.split)

lemma keeps_thread:
  assumes "pbx_wf p" "unique_ids p" "thread_wf p t"
  shows "keeps (owned t) p (thread_step io t p)"
  using assms
  by (cases t) (auto simp: thread_step_def keeps_dial keeps_link keeps_answer keeps_bye keeps_hang keeps_relay keeps_blind_start
      keeps_attended_start keeps_repoint keeps_detach keeps_join keeps_repoint_keep keeps_repoint_target keeps_detach_both
      keeps_join_both)

definition all_owned :: "pbx_thread list \<Rightarrow> nat set" where
  "all_owned l = (\<Union>t \<in> set l. owned t)"

definition pbx_ok :: "pbx_sys \<Rightarrow> bool" where
  "pbx_ok s \<longleftrightarrow> pbx_wf (the_pbx s) \<and> unique_ids (the_pbx s) \<and> list_all (thread_wf (the_pbx s)) (threads s) \<and>
     tended (all_owned (threads s)) (the_pbx s)"

lemma pbx_init_ok: "pbx_ok (pbx_init host c)"
proof -
  have "legHeap (Start_pbx host c) = []" "bridges (Start_pbx host c) = []" "legs (Start_pbx host c) = Map.empty"
      "orphans (Start_pbx host c) = Map.empty"
    by (simp_all add: Start_pbx_def registrar.defs pbx.defs)
  then show ?thesis by (simp add: pbx_ok_def pbx_init_def pbx_wf_def unique_ids_def tended_def up_leg_def)
qed

lemma pbx_step_ok:
  assumes "pbx_step s s'" "pbx_ok s"
  shows "pbx_ok s'"
  using assms(1)
proof cases
  case (ps_receive dg now m p t acts)
  have k: "keeps {} (the_pbx s) (p, t, acts)"
    using keeps_receive [of "the_pbx s" dg now m] assms(2) ps_receive(2) by (simp add: pbx_ok_def)
  then have "list_all (thread_wf p) (threads s)"
    using assms(2) thread_wf_grows unfolding pbx_ok_def keeps_def list_all_iff by fast
  moreover have "tended (owned_opt t \<union> all_owned (threads s)) p"
    using k assms(2) by (simp add: pbx_ok_def keeps_def)
  ultimately show ?thesis using k ps_receive
    by (cases t) (auto simp: pbx_ok_def keeps_def all_owned_def owned_opt_def Un_commute)
next
  case (ps_run i io p t acts)
  let ?t = "threads s ! i"
  let ?rest = "take i (threads s) @ drop (Suc i) (threads s)"
  have split: "threads s = take i (threads s) @ ?t # drop (Suc i) (threads s)"
    using ps_run(2) by (rule id_take_nth_drop)
  then have own: "all_owned (threads s) = owned ?t \<union> all_owned ?rest"
    unfolding all_owned_def by (metis Un_insert_right UN_Un UN_insert list.simps(15) set_append sup_left_commute)
  have wf: "thread_wf (the_pbx s) ?t" "list_all (thread_wf (the_pbx s)) (threads s)"
    using assms(2) ps_run(2) by (simp_all add: pbx_ok_def list_all_length)
  have k: "keeps (owned ?t) (the_pbx s) (p, t, acts)"
    using keeps_thread [OF _ _ wf(1), of io] assms(2) ps_run(3) by (simp add: pbx_ok_def)
  then have "list_all (thread_wf p) (threads s)"
    using wf(2) thread_wf_grows unfolding keeps_def list_all_iff by fast
  then have rest: "list_all (thread_wf p) ?rest" by (subst (asm) split) simp
  moreover have "tended (owned_opt t \<union> all_owned ?rest) p"
    using k assms(2) own by (simp add: pbx_ok_def keeps_def)
  ultimately show ?thesis using k ps_run
    by (cases t) (auto simp: pbx_ok_def keeps_def all_owned_def owned_opt_def replace_at_def elim!: tended_mono)
qed

lemma pbx_reach_ok: "pbx_reach s s' \<Longrightarrow> pbx_ok s \<Longrightarrow> pbx_ok s'"
  by (induction rule: pbx_reach.induct) (auto intro: pbx_step_ok)

text \<open>C28: Under every interleaving of requests and transfers, whatever the endpoints answer, the PBX's tables lead
  a request to the leg whose Call-ID it carries and to no other, and no leg whose dialog is up is
  ever forgotten: it is found under its Call-ID, or a handler that is still running holds it to
  bridge it or to hang it up; so when no handler is running every live leg is found.\<close>

theorem live_legs_found:
  assumes "pbx_reach (pbx_init host c) s"
  shows "(\<forall>i br l. find_leg i (the_pbx s) = (br, Some l) \<longrightarrow> l < length (legHeap (the_pbx s)) \<and> leg_id (the_pbx s) l = i) \<and>
    (\<forall>i. up_leg (the_pbx s) i \<longrightarrow>
       (\<exists>br. find_leg (leg_id (the_pbx s) i) (the_pbx s) = (br, Some i)) \<or> (\<exists>t \<in> set (threads s). i \<in> owned t)) \<and>
    (threads s = [] \<longrightarrow> (\<forall>i. up_leg (the_pbx s) i \<longrightarrow> (\<exists>br. find_leg (leg_id (the_pbx s) i) (the_pbx s) = (br, Some i))))"
proof -
  have ok: "pbx_wf (the_pbx s)" "unique_ids (the_pbx s)" "tended (all_owned (threads s)) (the_pbx s)"
    using pbx_reach_ok [OF assms pbx_init_ok] by (simp_all add: pbx_ok_def)
  have live: "(\<exists>br. find_leg (leg_id (the_pbx s) i) (the_pbx s) = (br, Some i)) \<or> (\<exists>t \<in> set (threads s). i \<in> owned t)"
    if "up_leg (the_pbx s) i" for i
    using that ok(3) find_known [OF ok(1,2), of i] by (auto simp: tended_def all_owned_def up_leg_def)
  have right: "l < length (legHeap (the_pbx s)) \<and> leg_id (the_pbx s) l = i" if "find_leg i (the_pbx s) = (br, Some l)" for i br l
    using find_leg_some [OF ok(1) that] by simp
  show ?thesis
    apply (intro conjI allI impI)
    subgoal by (simp add: right)
    subgoal by (simp add: right)
    subgoal by (rule live)
    subgoal using live by fastforce
    done
qed

section \<open>Transfers without interference\<close>

definition bridged :: "pbx \<Rightarrow> nat \<Rightarrow> nat \<Rightarrow> bool" where
  "bridged p x y \<longleftrightarrow>
     (\<exists>b. find_leg (leg_id p x) p = (Some b, Some x) \<and> find_leg (leg_id p y) p = (Some b, Some y) \<and>
          other (bridges p ! b) x = y \<and> other (bridges p ! b) y = x)"

lemma link_bridged:
  assumes "unique_ids p" "x < length (legHeap p)" "y < length (legHeap p)" "x \<noteq> y"
  shows "bridged (link_legs x y p) x y"
  using assms leg_id_inj [OF assms(1-3)]
  by (intro bridged_def [THEN iffD2] exI [of _ "length (bridges p)"]) (auto simp: find_leg_def other_def)

lemma link_others:
  assumes "pbx_wf p" "j \<noteq> leg_id p x" "j \<noteq> leg_id p y"
  shows "find_leg j (link_legs x y p) = find_leg j p"
proof (cases "legs p j")
  case (Some b)
  then have "b < length (bridges p)" using assms(1) unfolding pbx_wf_def by blast
  then show ?thesis using Some assms(2,3) by (simp add: find_leg_def nth_append)
qed (use assms(2,3) in \<open>simp add: find_leg_def\<close>)

lemma find_leg_cong:
  assumes "legs p' j = legs p j" "orphans p' j = orphans p j" "bridges p' = bridges p"
    and "\<And>b. legs p j = Some b \<Longrightarrow> leg_id p' (brX (bridges p ! b)) = leg_id p (brX (bridges p ! b))"
  shows "find_leg j p' = find_leg j p"
  using assms by (simp add: find_leg_def split: option.split)

lemma find_detach_self:
  assumes "pbx_wf p" "unique_ids p" "t < length (legHeap p)"
  shows "find_leg (leg_id p t) (detach t p) = (None, Some t)"
  by (simp add: find_leg_def)

lemma find_detach: "j \<noteq> leg_id p t \<Longrightarrow> find_leg j (detach t p) = find_leg j p"
  by (rule find_leg_cong) simp_all

lemma find_setSDP: "find_leg j (setSDP l b p) = find_leg j p"
  by (rule find_leg_cong) simp_all

lemma find_new_leg:
  assumes "pbx_wf p"
  shows "find_leg j (new_leg cid u s b p) = find_leg j p"
  using wf_bridge [OF assms] by (intro find_leg_cong) simp_all

lemma unique_new_leg: "unique_ids p \<Longrightarrow> cid \<notin> lgCallID ` set (legHeap p) \<Longrightarrow> unique_ids (new_leg cid u s b p)"
  by (simp add: unique_ids_def new_leg_def)

lemma unique_same: "unique_ids p \<Longrightarrow> map lgCallID (legHeap p') = map lgCallID (legHeap p) \<Longrightarrow> unique_ids p'"
  by (simp add: unique_ids_def)

lemma unique_setSDP [simp]: "unique_ids (setSDP l b p) = unique_ids p"
proof -
  have "map lgCallID (legHeap (setSDP l b p)) = map lgCallID (legHeap p)"
    using setSDP_fields(5) [of l b p] by (intro nth_equalityI) (simp_all add: leg_id_def)
  then show ?thesis by (simp add: unique_ids_def)
qed

lemma unique_detach [simp]: "unique_ids (detach t p) = unique_ids p"
  by (simp add: unique_ids_def)

lemma unique_leg_over [simp]: "unique_ids (leg_over t p) = unique_ids p"
proof -
  have "map lgCallID (legHeap (leg_over t p)) = map lgCallID (legHeap p)"
    using leg_over_fields(5) [of t p] by (intro nth_equalityI) (simp_all add: leg_id_def)
  then show ?thesis by (simp add: unique_ids_def)
qed

subsection \<open>Reading the Refer-To\<close>

lemma pbx_parse_target:
  assumes "parseReferTo h = Inr (u, r)"
  shows "pbx_parseReferTo h = Inr (u, r)"
  using assms by (auto simp: parseReferTo_def pbx_parseReferTo_def Let_def split: option.splits prod.splits sum.splits if_splits)

text \<open>Text that a URI shows as it is.\<close>

definition plain_char :: "char \<Rightarrow> bool" where
  "plain_char c \<longleftrightarrow> 33 \<le> (of_char c :: nat) \<and> (of_char c :: nat) < 127 \<and> c \<notin> {CHR ''<'', CHR ''>'', CHR ''?'', CHR ''#''}"

definition dialable :: "string \<Rightarrow> bool" where
  "dialable n \<longleftrightarrow> n \<noteq> [] \<and> list_all (\<lambda>c. is_digit c \<or> is_letter c) n"

lemma dialable_plain:
  assumes "dialable n"
  shows "n \<noteq> []" "list_all plain_char n" "CHR ''@'' \<notin> set n" "CHR ''/'' \<notin> set n"
proof -
  have "plain_char c \<and> c \<noteq> CHR ''@'' \<and> c \<noteq> CHR ''/''" if "is_digit c \<or> is_letter c" for c
  proof -
    have "48 \<le> (of_char c :: nat) \<and> (of_char c :: nat) \<le> 57 \<or> 65 \<le> (of_char c :: nat) \<and> (of_char c :: nat) \<le> 90 \<or>
        97 \<le> (of_char c :: nat) \<and> (of_char c :: nat) \<le> 122"
      using that by (auto simp: is_digit_def is_letter_def Let_def)
    then show ?thesis by (auto simp: plain_char_def)
  qed
  then show "n \<noteq> []" "list_all plain_char n" "CHR ''@'' \<notin> set n" "CHR ''/'' \<notin> set n"
    using assms by (auto simp: dialable_def list_all_iff)
qed

lemma plain_absent: "list_all plain_char s \<Longrightarrow> c \<in> {CHR ''<'', CHR ''>'', CHR ''?'', CHR ''#''} \<Longrightarrow> c \<notin> set s"
  by (auto simp: list_all_iff plain_char_def)

lemma plain_no_control:
  "list_all plain_char s \<Longrightarrow> \<not> list_ex (\<lambda>c. (of_char c :: nat) < 32 \<or> (of_char c :: nat) = 127) s"
  by (induction s) (auto simp: plain_char_def)

lemma parse_blind:
  assumes "list_all plain_char s"
  shows "pbx_parseReferTo (Some (''<'' @ s @ ''>'')) = Inr (s, [])"
proof -
  have "angle_part (TrimSpace (''<'' @ s @ ''>'')) = s"
    unfolding TrimSpace_brackets by (rule angle_part_brackets) (simp add: plain_absent assms)
  moreover have "Cut s ''?'' = (s, [], False)" by (rule Cut_char_absent) (simp add: plain_absent assms)
  moreover have "\<not> EqualFold [] ''Replaces''" by (simp add: EqualFold_def ToLower_def)
  ultimately show ?thesis by (simp add: pbx_parseReferTo_def)
qed

lemma refer_user_sip:
  assumes "dialable n" "list_all plain_char rest"
  shows "refer_user (''sip:'' @ n @ ''@'' @ rest) = n"
proof -
  let ?q = "n @ CHR ''@'' # rest"
  let ?u = "''sip:'' @ ?q"
  have plain: "list_all plain_char ?u"
    using dialable_plain(2) [OF assms(1)] assms(2) by (simp add: plain_char_def)
  have "\<not> list_ex (\<lambda>c. (of_char c :: nat) < 32 \<or> (of_char c :: nat) = 127) ?u"
    by (rule plain_no_control [OF plain])
  moreover have "Cut ?u ''#'' = (?u, [], False)" by (rule Cut_char_absent) (rule plain_absent [OF plain], simp)
  moreover have "scheme_end 0 ?u = Some 3" by (simp add: is_letter_def is_digit_def)
  moreover have "Cut ?q ''?'' = (?q, [], False)" by (rule Cut_char_absent) (use plain_absent [OF plain] in simp)
  moreover have "\<not> HasPrefix ?q ''/''"
    using dialable_plain(1,4) [OF assms(1)] by (cases n) auto
  ultimately have "urlOpaque ?u = Some ?q" by (simp add: urlOpaque_def)
  moreover have "Cut ?q ''@'' = (n, rest, True)" by (rule Cut_char_found [OF dialable_plain(3) [OF assms(1)]])
  ultimately show ?thesis by (simp add: refer_user_def)
qed

lemma HasPrefix_set: "HasPrefix s q \<Longrightarrow> set q \<subseteq> set s"
  unfolding HasPrefix_def by (metis set_take_subset)

lemma target_number:
  assumes "dialable number"
  shows "targetURI env d number = Inr \<lparr>uScheme = ''sip'', uUser = number, uHost = uHost (aor d), uPort = 0\<rparr>"
proof -
  have at: "Cut number ''@'' = (number, [], False)" by (rule Cut_char_absent [OF dialable_plain(3) [OF assms]])
  have "CHR '':'' \<notin> set number"
    using assms by (auto simp: dialable_def list_all_iff is_digit_def is_letter_def)
  then have "\<not> HasPrefix number ''sip:''" "\<not> HasPrefix number ''sips:''"
    using HasPrefix_set [of number "''sip:''"] HasPrefix_set [of number "''sips:''"] by auto
  then show ?thesis using dialable_plain(1) [OF assms] at by (simp add: targetURI_def)
qed

subsection \<open>Blind transfer\<close>

text \<open>The tables after a transfer has joined two legs and left the transferor's behind.\<close>

lemma joined_tables:
  assumes wf: "pbx_wf p" "unique_ids p" and leg: "t < length (legHeap p)" "x < length (legHeap p)" "y < length (legHeap p)"
    and ne: "x \<noteq> y" "t \<noteq> x" "t \<noteq> y"
  defines "q \<equiv> link_legs x y (detach t p)"
  shows "bridged q x y" "find_leg (leg_id p t) q = (None, Some t)"
    "j \<notin> {leg_id p t, leg_id p x, leg_id p y} \<Longrightarrow> find_leg j q = find_leg j p"
proof -
  show "bridged q x y" unfolding q_def by (rule link_bridged) (simp_all add: assms)
  have other: "find_leg j q = find_leg j (detach t p)" if "j \<noteq> leg_id p x" "j \<noteq> leg_id p y" for j
    unfolding q_def using that by (intro link_others) (simp_all add: assms)
  have "leg_id p t \<noteq> leg_id p x" "leg_id p t \<noteq> leg_id p y" using leg_id_inj [OF wf(2)] leg ne by auto
  then show "find_leg (leg_id p t) q = (None, Some t)" using other find_detach_self [OF wf leg(1)] by simp
  show "j \<notin> {leg_id p t, leg_id p x, leg_id p y} \<Longrightarrow> find_leg j q = find_leg j p"
    using other find_detach by simp
qed

lemma find_leg_range:
  assumes "pbx_wf p" "find_leg i p = (Some b, Some t)"
  shows "t < length (legHeap p)" "leg_id p t = i" "b < length (bridges p)" "other (bridges p ! b) t < length (legHeap p)"
    "legs p i = Some b"
  using find_leg_some [OF assms] other_in [OF assms(1), of b t] by auto

lemma blind_run:
  assumes wf: "pbx_wf p" and leg: "b < length (bridges p)" and keep: "keep = other (bridges p ! b) t"
    and dst: "lookup_user (refer_user target) p = Some dst" "contactOf dst p = Some a"
    and io1: "ioDial io1 = DialAnswered cid ans"
    and io2: "ioReply io2 = Some (st, ans2)" "success st" "ioAckOk io2"
  shows "run_thread [io1, io2, io3, io4] (Transferring b t target []) p =
    (link_legs keep (length (legHeap p)) (detach t (setSDP keep ans2 (new_leg cid dst False ans p))), None,
     [CallOut a (callerID (lgUser (legHeap p ! keep))) (callerID dst) (sdp_of p keep), SendReinvite keep ans, SendAck keep] @
     final_notify t 200)"
proof -
  have "sdp_of (new_leg cid dst False ans p) (length (legHeap p)) = ans" by (simp add: sdp_of_def new_leg_def)
  then show ?thesis
    using assms by (simp add: thread_step_def blind_start_def Let_def dial_def repoint_step_def reinvite_leg_def detach_step_def join_step_def)
qed

text \<open>C30: A blind transfer connects the transferee with the number the transferor's script named: the
  Refer-To that \<open>Transfer\<close> writes is read back as that number, the PBX calls its user with the
  transferee's current description, gives the transferee the answer's, and afterwards requests of
  either are relayed to the other, the transferor's leg stands alone until it hangs up, every other
  call is untouched, and the last NOTIFY is 200.\<close>

theorem blind_transfer:
  assumes quiet: "pbx_reach (pbx_init host c) \<lparr>the_pbx = p, threads = []\<rparr>"
    and leg: "find_leg i p = (Some b, Some t)" "keep = other (bridges p ! b) t" "keep \<noteq> t"
    and number: "dialable number" "targetURI uenv d number = Inr u" "list_all plain_char (uHost (aor d))"
      "uriString u = ''sip:'' @ number @ ''@'' @ uHost u"
    and dst: "lookup_user number p = Some dst" "contactOf dst p = Some a"
    and io1: "ioDial io1 = DialAnswered cid ans" "cid \<notin> lgCallID ` set (legHeap p)"
    and io2: "ioReply io2 = Some (st, ans2)" "success st" "ioAckOk io2"
    and new: "new = length (legHeap p)"
  shows "\<exists>th acts p'.
    pbx_onRefer i (Some (blind_target uriString u)) p = (p, Some th, [Respond 202 [], Notify t ''SIP/2.0 100 Trying'' False]) \<and>
    run_thread [io1, io2, io3, io4] th p = (p', None, acts) \<and>
    acts = [CallOut a (callerID (lgUser (legHeap p ! keep))) (callerID dst) (sdp_of p keep), SendReinvite keep ans, SendAck keep,
            Notify t ''SIP/2.0 200 OK'' True] \<and>
    leg_id p' new = cid \<and> bridged p' keep new \<and> find_leg i p' = (None, Some t) \<and>
    (\<forall>j. j \<notin> {i, leg_id p keep, cid} \<longrightarrow> find_leg j p' = find_leg j p)"
proof -
  have ok: "pbx_wf p" "unique_ids p" using pbx_reach_ok [OF quiet pbx_init_ok] by (simp_all add: pbx_ok_def)
  note range = find_leg_range [OF ok(1) leg(1), folded leg(2)]
  have u: "u = \<lparr>uScheme = ''sip'', uUser = number, uHost = uHost (aor d), uPort = 0\<rparr>"
    using number(2) target_number [OF number(1), of uenv d] by simp
  let ?uri = "''sip:'' @ number @ ''@'' @ uHost (aor d)"
  have plain: "list_all plain_char ?uri"
    using dialable_plain(2) [OF number(1)] number(3) by (simp add: plain_char_def)
  have "pbx_parseReferTo (Some (blind_target uriString u)) = Inr (?uri, [])"
    using parse_blind [OF plain] number(4) by (simp add: blind_target_def u)
  then have refer: "pbx_onRefer i (Some (blind_target uriString u)) p =
      (p, Some (Transferring b t ?uri []), [Respond 202 [], Notify t ''SIP/2.0 100 Trying'' False])"
    by (simp add: pbx_onRefer_def leg(1))
  let ?q = "setSDP keep ans2 (new_leg cid dst False ans p)"
  have run: "run_thread [io1, io2, io3, io4] (Transferring b t ?uri []) p = (link_legs keep new (detach t ?q), None,
      [CallOut a (callerID (lgUser (legHeap p ! keep))) (callerID dst) (sdp_of p keep), SendReinvite keep ans, SendAck keep] @
      final_notify t 200)"
    unfolding new
    by (rule blind_run [OF ok(1) range(3) leg(2) _ dst(2) io1(1) io2]) (simp only: refer_user_sip [OF number(1,3)] dst(1))
  have q: "pbx_wf ?q" "unique_ids ?q" "length (legHeap ?q) = Suc new" "leg_id ?q t = i" "leg_id ?q keep = leg_id p keep"
    "leg_id ?q new = cid" "find_leg j ?q = find_leg j p" for j
    using ok range unique_new_leg [OF ok(2) io1(2)] by (simp_all add: new find_setSDP find_new_leg)
  have bnd: "t < length (legHeap ?q)" "keep < length (legHeap ?q)" "new < length (legHeap ?q)" "keep \<noteq> new" "t \<noteq> keep" "t \<noteq> new"
    using q(3) range leg(3) new by auto
  note j = joined_tables [OF q(1,2) bnd, unfolded q]
  have d200: "Itoa 200 = ''200''" by (simp add: Itoa_def FormatNat.simps digit_def char_eval)
  show ?thesis
    using refer run j q(6)
    by (intro exI [of _ "Transferring b t ?uri []"] exI [of _ "link_legs keep new (detach t ?q)"] exI conjI; (assumption | rule refl | simp add: final_notify_def reasonFor_def d200)?)
qed

subsection \<open>Attended transfer\<close>

definition detach_both :: "nat \<Rightarrow> nat \<Rightarrow> pbx \<Rightarrow> pbx" where
  "detach_both t consult p =
     p\<lparr>legs := (legs p)(leg_id p t := None, leg_id p consult := None), orphans := (orphans p)(leg_id p t \<mapsto> t)\<rparr>"

lemma detach_both_fields [simp]:
  "legHeap (detach_both t k p) = legHeap p" "bridges (detach_both t k p) = bridges p" "leg_id (detach_both t k p) = leg_id p"
  "unique_ids (detach_both t k p) = unique_ids p" "pbx_wf p \<Longrightarrow> t < length (legHeap p) \<Longrightarrow> pbx_wf (detach_both t k p)"
  by (simp_all add: detach_both_def unique_ids_def)

lemma find_detach_both:
  "leg_id p t \<noteq> leg_id p k \<Longrightarrow> find_leg (leg_id p t) (detach_both t k p) = (None, Some t)"
  "leg_id p t \<noteq> leg_id p k \<Longrightarrow> find_leg (leg_id p k) (detach_both t k p) = (None, orphans p (leg_id p k))"
  by (simp_all add: find_leg_def detach_both_def)

lemma find_detach_both_other:
  "j \<noteq> leg_id p t \<Longrightarrow> j \<noteq> leg_id p k \<Longrightarrow> find_leg j (detach_both t k p) = find_leg j p"
  by (rule find_leg_cong) (simp_all add: detach_both_def)

lemma find_leg_over: "find_leg j (leg_over l p) = find_leg j p"
  by (rule find_leg_cong) simp_all

lemma attended_start_found:
  assumes "Cut replaces '';'' = (j, params, f)" "find_leg j p = (Some cb, Some consult)" "cb \<noteq> b"
    and "keep = other (bridges p ! b) t" "target = other (bridges p ! cb) consult"
  shows "attended_start b t replaces p = (p, Some (RepointKeep t keep target consult), [])"
proof -
  have "legs p j = Some cb" "consult = (if leg_id p (brX (bridges p ! cb)) = j then brX (bridges p ! cb) else brY (bridges p ! cb))"
    using assms(2) by (auto simp: find_leg_def split: option.splits if_splits)
  then show ?thesis using assms by (simp add: attended_start_def Let_def)
qed

lemma attended_run:
  assumes cut: "Cut replaces '';'' = (j, params, f)" "replaces \<noteq> []"
    and cons: "find_leg j p = (Some cb, Some consult)" "cb \<noteq> b"
    and keep: "keep = other (bridges p ! b) t" "target = other (bridges p ! cb) consult"
    and io2: "ioReply io2 = Some (st2, ans2)" "success st2" "ioAckOk io2"
    and io3: "ioReply io3 = Some (st3, ans3)" "success st3" "ioAckOk io3"
  shows "run_thread [io1, io2, io3, io4, io5, io6] (Transferring b t uri replaces) p =
    (leg_over consult (link_legs keep target (detach_both t consult (setSDP target ans3 (setSDP keep ans2 p)))), None,
     [SendReinvite keep (sdp_of p target), SendAck keep, SendReinvite target (sdp_of (setSDP keep ans2 p) keep), SendAck target,
      ByeLeg consult] @ final_notify t 200)"
proof -
  have "attended_start b t replaces p = (p, Some (RepointKeep t keep target consult), [])"
    by (rule attended_start_found [OF cut(1) cons keep])
  then show ?thesis
    using cut(2) io2 io3
    by (simp add: thread_step_def repoint_keep_step_def repoint_target_step_def reinvite_leg_def detach_both_step_def
        join_both_step_def hang_step_def detach_both_def)
qed

text \<open>What the device that asked for the transfer makes of the PBX's NOTIFYs.\<close>

definition notifies :: "nat \<Rightarrow> pbx_action list \<Rightarrow> (string \<times> bool) list" where
  "notifies t acts = concat (map (\<lambda>a. case a of Notify k frag done' \<Rightarrow> if k = t then [(frag, done')] else [] | _ \<Rightarrow> []) acts)"

definition pbx_notified :: "string \<times> bool \<Rightarrow> Call \<Rightarrow> Call" where
  "pbx_notified fn c = (let (hs, body) = pbx_notify (fst fn) (snd fn) in onNotify (headers_of hs) body c)"

lemma pbx_notified_eq: "pbx_notified fn c = notified fn c"
  by (simp add: pbx_notified_def notified_def pbx_notify_def notifyRefer_def onNotify_def headers_of_def first_header_def)

lemma replaces_value_read:
  assumes "token (callID (partyCall cp))"
  shows "\<exists>w. Cut (replaces_value cp) '';'' = (callID (partyCall cp), w, True)" "replaces_value cp \<noteq> []"
  using Cut_char_found [OF token_plain(2) [OF assms]] by (auto simp: replaces_value_def split: prod.split)

lemma attended_refer:
  assumes "uriString (remoteURI (partyDialog cp)) \<noteq> []" "set (uriString (remoteURI (partyDialog cp))) \<inter> set ''>?'' = {}"
    and "find_leg i p = (Some b, Some t)"
  shows "pbx_onRefer i (Some (attended_target uriString cp)) p =
    (p, Some (Transferring b t (uriString (remoteURI (partyDialog cp))) (replaces_value cp)),
     [Respond 202 [], Notify t ''SIP/2.0 100 Trying'' False])"
proof -
  have "pbx_parseReferTo (Some (attended_target uriString cp)) = Inr (uriString (remoteURI (partyDialog cp)), replaces_value cp)"
    unfolding attended_target_def by (rule pbx_parse_target [OF parseReferTo_target [OF assms(1,2)]])
  then show ?thesis by (simp add: pbx_onRefer_def assms(3))
qed

text \<open>C29: An attended transfer joins the two far ends and the transferor learns it: the Refer-To a device writes
  for its consultation call leads the PBX to that call, the transferee is given the target's
  description and the target the transferee's, afterwards requests of either are relayed to the other,
  the consultation leg is hung up and unknown, every other call is untouched, and the device, fed with the PBX's NOTIFYs in
  order, reports the transfer as successful.\<close>

theorem attended_transfer:
  assumes quiet: "pbx_reach (pbx_init host c) \<lparr>the_pbx = p, threads = []\<rparr>"
    and leg: "find_leg i p = (Some b, Some t)" "keep = other (bridges p ! b) t"
    and cons: "find_leg (callID (partyCall cp)) p = (Some cb, Some consult)" "cb \<noteq> b" "target = other (bridges p ! cb) consult"
    and apart: "distinct [t, keep, target, consult]" "orphans p (callID (partyCall cp)) = None"
    and uri: "uriString (remoteURI (partyDialog cp)) \<noteq> []" "set (uriString (remoteURI (partyDialog cp))) \<inter> set ''>?'' = {}"
    and tk: "token (callID (partyCall cp))"
    and io2: "ioReply io2 = Some (st2, ans2)" "success st2" "ioAckOk io2" "ans2 \<noteq> []"
    and io3: "ioReply io3 = Some (st3, ans3)" "success st3" "ioAckOk io3"
    and referred: "AttendedTransfer uriString aor' send_refer (Some cp) k = (k', True)"
  shows "\<exists>th acts0 acts p'.
    pbx_onRefer i (Some (attended_target uriString cp)) p = (p, Some th, acts0) \<and>
    run_thread [io1, io2, io3, io4, io5, io6] th p = (p', None, acts) \<and>
    acts = [SendReinvite keep (sdp_of p target), SendAck keep, SendReinvite target ans2, SendAck target, ByeLeg consult,
            Notify t ''SIP/2.0 200 OK'' True] \<and>
    bridged p' keep target \<and> find_leg i p' = (None, Some t) \<and> find_leg (callID (partyCall cp)) p' = (None, None) \<and>
    \<not> up_leg p' consult \<and>
    (\<forall>j. j \<notin> leg_id p ` {t, keep, target, consult} \<longrightarrow> find_leg j p' = find_leg j p) \<and>
    ExpectTransferred (fold pbx_notified (notifies t (acts0 @ acts)) k')"
proof -
  have ok: "pbx_wf p" "unique_ids p" using pbx_reach_ok [OF quiet pbx_init_ok] by (simp_all add: pbx_ok_def)
  note range = find_leg_range [OF ok(1) leg(1), folded leg(2)] and crange = find_leg_range [OF ok(1) cons(1), folded cons(3)]
  let ?v = "replaces_value cp" and ?uri = "uriString (remoteURI (partyDialog cp))"
  note v = replaces_value_read [OF tk] and refer = attended_refer [where uriString = uriString, OF uri leg(1)]
  obtain w where w: "Cut ?v '';'' = (callID (partyCall cp), w, True)" using v(1) by blast
  let ?q = "setSDP target ans3 (setSDP keep ans2 p)"
  let ?r = "link_legs keep target (detach_both t consult ?q)"
  have sdp: "sdp_of (setSDP keep ans2 p) keep = ans2" using io2(4) range(4) by (simp add: sdp_of_def setSDP_def)
  note run = attended_run [where ?io1.0 = io1 and ?io4.0 = io4 and ?io5.0 = io5 and ?io6.0 = io6 and uri = ?uri,
      OF w v(2) cons(1,2) leg(2) cons(3) io2(1-3) io3, unfolded sdp]
  have q: "pbx_wf ?q" "unique_ids ?q" "length (legHeap ?q) = length (legHeap p)" "leg_id ?q x = leg_id p x"
    "find_leg j ?q = find_leg j p" "orphans ?q = orphans p" for x j
    using ok by (simp_all add: find_setSDP)
  have ids: "leg_id p t \<noteq> leg_id p consult" "leg_id p t \<noteq> leg_id p keep" "leg_id p t \<noteq> leg_id p target"
    "leg_id p consult \<noteq> leg_id p keep" "leg_id p consult \<noteq> leg_id p target"
    using apart(1) by (simp_all add: leg_id_inj [OF ok(2)] range(1,4) crange(1,4))
  have others: "find_leg j (leg_over consult ?r) = find_leg j (detach_both t consult ?q)" if "j \<noteq> leg_id p keep" "j \<noteq> leg_id p target" for j
    unfolding find_leg_over using that q(1) range(1) by (intro link_others) simp_all
  have "bridged ?r keep target" by (rule link_bridged) (use ok range crange apart(1) in simp_all)
  then have "bridged (leg_over consult ?r) keep target" by (simp add: bridged_def find_leg_over)
  moreover have "find_leg i (leg_over consult ?r) = (None, Some t)"
    using others [of i] find_detach_both(1) [of ?q t consult] ids range(2) by simp
  moreover have "find_leg (callID (partyCall cp)) (leg_over consult ?r) = (None, None)"
    using others [of "leg_id p consult"] find_detach_both(2) [of ?q t consult] ids crange(2) apart(2) by simp
  moreover have "find_leg j (leg_over consult ?r) = find_leg j p" if "j \<notin> leg_id p ` {t, keep, target, consult}" for j
    using that others [of j] find_detach_both_other [of j ?q t consult] q(5) by simp
  moreover have "\<not> up_leg (leg_over consult ?r) consult" by simp
  moreover have "ExpectTransferred (fold pbx_notified [(''SIP/2.0 100 Trying'', False), (''SIP/2.0 200 OK'', True)] k')"
  proof -
    have "xfer k' = Some \<lparr>xferStatus = 0, xferCloses = 0\<rparr>"
      using referred by (auto simp: AttendedTransfer_def refer_def Let_def split: if_splits)
    then show ?thesis
      by (simp add: pbx_notified_eq notified_eq frag_status progress_update_def ExpectTransferred_def del: append.simps append_Cons)
  qed
  moreover have "notifies t ([Respond 202 [], Notify t ''SIP/2.0 100 Trying'' False] @ [SendReinvite keep (sdp_of p target), SendAck keep,
      SendReinvite target ans2, SendAck target, ByeLeg consult, Notify t ''SIP/2.0 200 OK'' True]) =
      [(''SIP/2.0 100 Trying'', False), (''SIP/2.0 200 OK'', True)]"
    by (simp add: notifies_def)
  moreover have "run_thread [io1, io2, io3, io4, io5, io6] (Transferring b t ?uri ?v) p = (leg_over consult ?r, None,
      [SendReinvite keep (sdp_of p target), SendAck keep, SendReinvite target ans2, SendAck target, ByeLeg consult,
       Notify t ''SIP/2.0 200 OK'' True])"
    unfolding run by (simp add: final_notify_def reasonFor_def Itoa_def FormatNat.simps digit_def char_eval)
  ultimately show ?thesis using refer by (metis (no_types, lifting))
qed

text \<open>A failed attended transfer is not undone: when the target refuses its re-INVITE the transferor is
  told 500 and the tables are as before, but the transferee has already been given the target's
  description and no re-INVITE takes it back, so the call it is still bridged in has lost its media.\<close>

theorem attended_half_done:
  assumes leg: "find_leg i p = (Some b, Some t)" "keep = other (bridges p ! b) t"
    and cons: "find_leg (callID (partyCall cp)) p = (Some cb, Some consult)" "cb \<noteq> b" "target = other (bridges p ! cb) consult"
    and uri: "uriString (remoteURI (partyDialog cp)) \<noteq> []" "set (uriString (remoteURI (partyDialog cp))) \<inter> set ''>?'' = {}"
    and tk: "token (callID (partyCall cp))"
    and io2: "ioReply io2 = Some (st2, ans2)" "success st2" "ioAckOk io2"
    and io3: "ioReply io3 = Some (st3, ans3)" "\<not> success st3"
  shows "\<exists>th acts0 p'.
    pbx_onRefer i (Some (attended_target uriString cp)) p = (p, Some th, acts0) \<and>
    run_thread [io1, io2, io3] th p = (p', None,
      [SendReinvite keep (sdp_of p target), SendAck keep, SendReinvite target (sdp_of (setSDP keep ans2 p) keep),
       Notify t ''SIP/2.0 500 Transfer Failed'' True]) \<and>
    (\<forall>j. find_leg j p' = find_leg j p) \<and> bridges p' = bridges p"
proof -
  let ?v = "replaces_value cp" and ?uri = "uriString (remoteURI (partyDialog cp))"
  note v = replaces_value_read [OF tk] and refer = attended_refer [where uriString = uriString, OF uri leg(1)]
  have "attended_start b t ?v p = (p, Some (RepointKeep t keep target consult), [])"
    using v(1) attended_start_found [OF _ cons(1,2) leg(2) cons(3)] by blast
  then have "run_thread [io1, io2, io3] (Transferring b t ?uri ?v) p = (setSDP keep ans2 p, None,
      [SendReinvite keep (sdp_of p target), SendAck keep, SendReinvite target (sdp_of (setSDP keep ans2 p) keep),
       Notify t ''SIP/2.0 500 Transfer Failed'' True])"
    using v(2) io2 io3
    by (simp add: thread_step_def repoint_keep_step_def repoint_target_step_def reinvite_leg_def final_notify_def reasonFor_def
        Itoa_def FormatNat.simps digit_def char_eval)
  then show ?thesis using refer find_setSDP setSDP_fields(2) by blast
qed

section \<open>Hold through the PBX\<close>

definition reply_io :: "(int \<times> string) option \<Rightarrow> pbx_io" where
  "reply_io r = \<lparr>ioRinging = [], ioDial = DialFailed, ioCancelled = False, ioReply = r, ioAckOk = True, ioWriteOk = True\<rparr>"

text \<open>The final response among the actions of a handler.\<close>

fun responded :: "pbx_action list \<Rightarrow> reply" where
  "responded [] = NoReply []"
| "responded (Respond n b # acts) = Reply n b"
| "responded (_ # acts) = responded acts"

text \<open>
  The PBX between two endpoints, as the peer the endpoint with Call-ID \<open>i\<close> talks to: \<open>far\<close> is
  how the other endpoint answers an offer; header fields are not relayed.
\<close>

definition relayed :: "pbx \<Rightarrow> string \<Rightarrow> (string \<Rightarrow> reply) \<Rightarrow> string \<Rightarrow> pbx \<times> reply" where
  "relayed p i far body =
     (case pbx_onReInvite i body p of
        (p1, Some (Relaying l k), acts) \<Rightarrow>
          (let (p2, t, acts2) = relay_step (reply_io (case far body of Reply n ans \<Rightarrow> Some (n, ans) | NoReply e \<Rightarrow> None)) k p1
           in (p2, responded acts2))
      | (p1, _, acts) \<Rightarrow> (p1, responded acts))"

lemma relayed_success:
  assumes "find_leg i p = (Some b, Some l)" "far body = Reply n ans" "success n"
  shows "relayed p i far body = (setSDP (other (bridges p ! b) l) ans (setSDP l body p), Reply n ans)"
  using assms by (simp add: relayed_def pbx_onReInvite_def relay_step_def reply_io_def Let_def)

text \<open>C32: Hold works through the PBX: when an endpoint of a bridged call re-INVITEs with a direction, the PBX
  offers its description to the other endpoint, which accepts it, and brings the answer back, so that the
  re-INVITE succeeds, the caller records the hold, the other end the remote hold, the two directions are
  dual and both keep the codec; and the PBX then holds the two new descriptions, those it would offer in a
  transfer. Only the format of RFC 4566 is assumed of the endpoints' parsers.\<close>

theorem hold_through_pbx:
  assumes leg: "find_leg i p = (Some br, Some l)" "other (bridges p ! br) l = k" "l \<noteq> k"
      "l < length (legHeap p)" "k < length (legHeap p)"
    and st: "state a = StateConnected" "media a = Some sa" "media b = Some sb"
    and pion: "pion_sdp (parser ea)" "pion_sdp (parser eb)"
    and sa: "offerable sa" "reachable_at (network eb) sa ipa"
    and sb: "reachable_at (network ea) sb ipb" "known_codec (codec sb)" "dtmf_distinct [codec sb] (remoteDTMF sb)"
      "\<exists>c \<in> set (cfgCodecs (cfg sa)). Name c = Name (codec sb)"
    and far: "far = (\<lambda>body. fst (snd (onReInvite eb False (headers_of []) body (Some b))))"
  shows "\<exists>b' ans hdrs a' sa' sb' p'.
    onReInvite eb False (headers_of []) (snd (Offer sa d)) (Some b) = (Some b', Reply 200 ans, hdrs) \<and>
    reinvite ea d (\<lambda>body _. snd (relayed p i far body)) p2 a = (a', True) \<and>
    media a' = Some sa' \<and> media b' = Some sb' \<and>
    localHold a' = (d \<noteq> SendRecv) \<and> remoteHold b' = (d = SendOnly \<or> d = Inactive) \<and>
    dir sa' = d \<and> dir sb' = Reverse d \<and> codec sa' = codec sb \<and> codec sb' = codec sb \<and>
    fst (relayed p i far (snd (Offer sa d))) = p' \<and> sdp_of p' l = snd (Offer sa d) \<and> sdp_of p' k = ans"
proof -
  define offer where "offer = snd (Offer sa d)"
  obtain b' ans hdrs where run: "onReInvite eb False (headers_of []) offer (Some b) = (Some b', Reply 200 ans, hdrs)" "ans \<noteq> []"
    and over: "\<And>p1. p1 offer (sessionHeaders a) = Reply 200 ans \<Longrightarrow>
      \<exists>a' sa' sb'. reinvite ea d p1 p2 a = (a', True) \<and> media a' = Some sa' \<and> media b' = Some sb' \<and>
        localHold a' = (d \<noteq> SendRecv) \<and> remoteHold b' = (d = SendOnly \<or> d = Inactive) \<and>
        dir sa' = d \<and> dir sb' = Reverse d \<and> codec sa' = codec sb \<and> codec sb' = codec sb"
    by (rule hold_over [OF st pion sa sb offer_def]) blast
  have ne: "offer \<noteq> []" by (simp add: offer_def Offer_def Let_def)
  have "far offer = Reply 200 ans" by (simp add: far run(1))
  then have rel: "relayed p i far offer = (setSDP k ans (setSDP l offer p), Reply 200 ans)"
    using relayed_success [OF leg(1), of far offer 200 ans] leg(2) by (simp add: success_def)
  have "sdp_of (setSDP k ans (setSDP l offer p)) l = offer \<and> sdp_of (setSDP k ans (setSDP l offer p)) k = ans"
    using leg(3-5) ne run(2) by (simp add: sdp_of_def setSDP_def)
  then show ?thesis
    using over [of "\<lambda>body _. snd (relayed p i far body)"] rel run(1) unfolding offer_def [symmetric] by auto
qed

section \<open>Handlers end\<close>

text \<open>The sections a handler has at most before it, this one included.\<close>

fun rank :: "pbx_thread \<Rightarrow> nat" where
  "rank (Transferring b t target replaces) = 6"
| "rank (RepointKeep t k n c) = 5"
| "rank (RepointTarget t k n c) = 4"
| "rank (DetachBoth t k n c) = 3"
| "rank (JoinBoth t k n c) = 2"
| "rank (Dialing a u) = 4"
| "rank (Linking a b) = 3"
| "rank (Answering a b) = 2"
| "rank (ByeRead l br) = 2"
| "rank (HangingUp l after) = 1"
| "rank (Relaying l k) = 1"
| "rank (Repointing t k n) = 5"
| "rank (Detaching t k n) = 2"
| "rank (Joining t k n) = 1"

lemma rank_step: "thread_step io t p = (p', Some t', acts) \<Longrightarrow> rank t' < rank t"
  by (cases t) (auto simp: thread_step_def dial_step_def link_step_def answer_step_def bye_step_def hang_step_def relay_step_def
      attended_start_def blind_start_def repoint_step_def detach_step_def join_step_def repoint_keep_step_def
      repoint_target_step_def detach_both_step_def join_both_step_def Let_def
      split: prod.splits option.splits dial_outcome.splits if_splits)

lemma handler_ends: "rank t \<le> length ios \<Longrightarrow> \<exists>p' acts. run_thread ios t p = (p', None, acts)"
proof (induction ios t p rule: run_thread.induct)
  case (1 t p)
  then show ?case by (cases t) simp_all
next
  case (2 io ios t p)
  obtain p1 t1 a where st: "thread_step io t p = (p1, t1, a)" by (metis prod_cases3)
  show ?case
  proof (cases t1)
    case (Some x)
    then have "rank x < rank t" using rank_step st by blast
    then have "\<exists>p' acts. run_thread ios x p1 = (p', None, acts)" using 2 st Some by simp
    then show ?thesis using st Some by auto
  qed (simp add: st)
qed

section \<open>A concrete PBX\<close>

text \<open>Requests, and runs of the thread that has waited longest; a step that reuses a Call-ID is refused.\<close>

datatype pbx_event = Incoming_message pbx_message | Run_first pbx_io

definition checked :: "pbx_sys \<Rightarrow> pbx_sys option" where
  "checked s = (if unique_ids (the_pbx s) then Some s else None)"

definition pbx_exec1 :: "digest_env \<Rightarrow> pbx_event \<Rightarrow> pbx_sys \<Rightarrow> pbx_sys option" where
  "pbx_exec1 dg e s =
     (case e of
        Incoming_message m \<Rightarrow>
          (let (p, t, acts) = pbx_receive dg 0 m (the_pbx s)
           in checked \<lparr>the_pbx = p, threads = threads s @ (case t of None \<Rightarrow> [] | Some x \<Rightarrow> [x])\<rparr>)
      | Run_first io \<Rightarrow>
          (case threads s of [] \<Rightarrow> Some s
           | x # l \<Rightarrow> (let (p, t, acts) = thread_step io x (the_pbx s) in checked \<lparr>the_pbx = p, threads = replace_at 0 t (x # l)\<rparr>)))"

fun pbx_exec :: "digest_env \<Rightarrow> pbx_event list \<Rightarrow> pbx_sys \<Rightarrow> pbx_sys option" where
  "pbx_exec dg [] s = Some s"
| "pbx_exec dg (e # es) s = (case pbx_exec1 dg e s of None \<Rightarrow> None | Some s1 \<Rightarrow> pbx_exec dg es s1)"

lemma pbx_exec1_reach: "pbx_exec1 dg e s = Some s' \<Longrightarrow> pbx_reach s0 s \<Longrightarrow> pbx_reach s0 s'"
proof (cases e)
  case (Incoming_message m)
  then show "pbx_exec1 dg e s = Some s' \<Longrightarrow> pbx_reach s0 s \<Longrightarrow> pbx_reach s0 s'"
    by (auto simp: pbx_exec1_def checked_def split: prod.splits if_splits intro: pr_step ps_receive)
next
  case (Run_first io)
  have "pbx_step s s'" if "threads s = x # l" "pbx_exec1 dg e s = Some s'" for x l
    using that ps_run [of 0 s io] by (auto simp: Run_first pbx_exec1_def checked_def split: prod.splits if_splits)
  then show "pbx_exec1 dg e s = Some s' \<Longrightarrow> pbx_reach s0 s \<Longrightarrow> pbx_reach s0 s'"
    using Run_first pr_step by (cases "threads s") (auto simp: pbx_exec1_def)
qed

lemma pbx_exec_reach: "pbx_exec dg es s = Some s' \<Longrightarrow> pbx_reach s0 s \<Longrightarrow> pbx_reach s0 s'"
  by (induction es arbitrary: s) (auto intro: pbx_exec1_reach split: option.splits)

text \<open>Three registered users; \<open>a\<close> has called \<open>b\<close> and, for consultation, \<open>c\<close>.\<close>

definition demo_pbx_config :: pbx_config where
  "demo_pbx_config = \<lparr>pbxDomain = ''pbx'',
     pbxUsers = [\<lparr>uName = ''a'', uPassword = [], uExt = ''1''\<rparr>, \<lparr>uName = ''b'', uPassword = [], uExt = ''2''\<rparr>,
                 \<lparr>uName = ''c'', uPassword = [], uExt = ''3''\<rparr>],
     AuthRegister = False, AuthInvite = False\<rparr>"

definition demo_phone :: "string \<Rightarrow> Uri" where
  "demo_phone n = \<lparr>uScheme = ''sip'', uUser = n, uHost = ''10.0.0.1'', uPort = 4000\<rparr>"

definition demo_message :: "string \<Rightarrow> string \<Rightarrow> string \<Rightarrow> string \<Rightarrow> request" where
  "demo_message m org dst' cid = \<lparr>reqMethod = m, Recipient = demo_phone dst', reqFrom = demo_phone org, fromTag = Some ''f'',
     toTag = None, reqCallID = cid, reqSeq = 1, reqSeqMethod = m, via = None, reqHdr = no_headers, reqDest = [],
     reqBody = org\<rparr>"

definition demo_reg_event :: "string \<Rightarrow> pbx_event" where
  "demo_reg_event n = Incoming_message (MRegister (request.extend (demo_message ''REGISTER'' n [] [])
     (register_message.fields (demo_phone n) (Some (demo_phone n, None)))))"

definition demo_io :: "dial_outcome \<Rightarrow> (int \<times> string) option \<Rightarrow> pbx_io" where
  "demo_io o' r = \<lparr>ioRinging = [180], ioDial = o', ioCancelled = False, ioReply = r, ioAckOk = True, ioWriteOk = True\<rparr>"

definition demo_call_events :: "string \<Rightarrow> string \<Rightarrow> string \<Rightarrow> string \<Rightarrow> pbx_event list" where
  "demo_call_events org number cid cid2 =
     [Incoming_message (MInvite True (demo_message ''INVITE'' org number cid)), Run_first (demo_io (DialAnswered cid2 number) None),
      Run_first (demo_io DialFailed None), Run_first (demo_io DialFailed None)]"

definition demo_digest :: digest_env where
  "demo_digest = \<lparr>ParseCredentials = (\<lambda>_. None), DigestResponse = (\<lambda>_ _. None), ChallengeText = chRealm\<rparr>"

definition demo_run :: "pbx_sys option" where
  "demo_run = pbx_exec demo_digest
     ([demo_reg_event ''a'', demo_reg_event ''b'', demo_reg_event ''c''] @
      demo_call_events ''a'' ''2'' ''i1'' ''o1'' @ demo_call_events ''a'' ''3'' ''i2'' ''o2'') (pbx_init ''10.0.0.9'' demo_pbx_config)"

definition demo_tables :: pbx where
  "demo_tables = the_pbx (the demo_run)"

lemmas demo_defs = demo_run_def demo_pbx_config_def demo_phone_def demo_message_def demo_reg_event_def demo_io_def
  demo_call_events_def pbx_init_def Start_pbx_def Start_registrar_def add_user_def request.defs register_message.defs
  registrar.defs pbx.defs pbx_exec1_def checked_def unique_ids_def pbx_receive_def onRegister_def Let_def binding_expires_def
  first_header_def no_headers_def pbx_onInvite_def lookup_user_def new_leg_def thread_step_def dial_step_def dial_def
  contactOf_def link_step_def answer_step_def replace_at_def link_legs_def leg_id_def

lemma demo_run_facts:
  "\<exists>p. demo_run = Some \<lparr>the_pbx = p, threads = []\<rparr> \<and> find_leg ''i1'' p = (Some 0, Some 0) \<and>
     find_leg ''i2'' p = (Some 1, Some 2) \<and> map lgCallID (legHeap p) = [''i1'', ''o1'', ''i2'', ''o2''] \<and>
     map lgUp (legHeap p) = [True, True, True, True] \<and> bridges p = [\<lparr>brX = 0, brY = 1\<rparr>, \<lparr>brX = 2, brY = 3\<rparr>] \<and>
     orphans p = Map.empty \<and> lookup_user ''3'' p = Some \<lparr>uName = ''c'', uPassword = [], uExt = ''3''\<rparr> \<and>
     contactOf \<lparr>uName = ''c'', uPassword = [], uExt = ''3''\<rparr> p = Some (demo_phone ''c'')"
  by (simp add: demo_defs find_leg_def)

lemma demo_tables_facts:
  "find_leg ''i1'' demo_tables = (Some 0, Some 0)" "find_leg ''i2'' demo_tables = (Some 1, Some 2)"
  "map lgCallID (legHeap demo_tables) = [''i1'', ''o1'', ''i2'', ''o2'']" "map lgUp (legHeap demo_tables) = [True, True, True, True]"
  "bridges demo_tables = [\<lparr>brX = 0, brY = 1\<rparr>, \<lparr>brX = 2, brY = 3\<rparr>]" "orphans demo_tables = Map.empty"
  "lookup_user ''3'' demo_tables = Some \<lparr>uName = ''c'', uPassword = [], uExt = ''3''\<rparr>"
  "contactOf \<lparr>uName = ''c'', uPassword = [], uExt = ''3''\<rparr> demo_tables = Some (demo_phone ''c'')"
  "demo_run = Some \<lparr>the_pbx = demo_tables, threads = []\<rparr>"
proof -
  from demo_run_facts obtain p where
    p: "demo_run = Some \<lparr>the_pbx = p, threads = []\<rparr> \<and> find_leg ''i1'' p = (Some 0, Some 0) \<and>
     find_leg ''i2'' p = (Some 1, Some 2) \<and> map lgCallID (legHeap p) = [''i1'', ''o1'', ''i2'', ''o2''] \<and>
     map lgUp (legHeap p) = [True, True, True, True] \<and> bridges p = [\<lparr>brX = 0, brY = 1\<rparr>, \<lparr>brX = 2, brY = 3\<rparr>] \<and>
     orphans p = Map.empty \<and> lookup_user ''3'' p = Some \<lparr>uName = ''c'', uPassword = [], uExt = ''3''\<rparr> \<and>
     contactOf \<lparr>uName = ''c'', uPassword = [], uExt = ''3''\<rparr> p = Some (demo_phone ''c'')"
    by (rule exE)
  have q: "demo_tables = p" unfolding demo_tables_def p [THEN conjunct1] by simp
  show "find_leg ''i1'' demo_tables = (Some 0, Some 0)" "find_leg ''i2'' demo_tables = (Some 1, Some 2)"
    "map lgCallID (legHeap demo_tables) = [''i1'', ''o1'', ''i2'', ''o2'']" "map lgUp (legHeap demo_tables) = [True, True, True, True]"
    "bridges demo_tables = [\<lparr>brX = 0, brY = 1\<rparr>, \<lparr>brX = 2, brY = 3\<rparr>]" "orphans demo_tables = Map.empty"
    "lookup_user ''3'' demo_tables = Some \<lparr>uName = ''c'', uPassword = [], uExt = ''3''\<rparr>"
    "contactOf \<lparr>uName = ''c'', uPassword = [], uExt = ''3''\<rparr> demo_tables = Some (demo_phone ''c'')"
    "demo_run = Some \<lparr>the_pbx = demo_tables, threads = []\<rparr>"
    unfolding q using p by - (elim conjE, assumption)+
qed

lemma demo_reached: "pbx_reach (pbx_init ''10.0.0.9'' demo_pbx_config) \<lparr>the_pbx = demo_tables, threads = []\<rparr>"
  using demo_tables_facts(9) unfolding demo_run_def by (rule pbx_exec_reach [OF _ pr_init])

lemma demo_up: "i < 4 \<Longrightarrow> up_leg demo_tables i"
proof -
  assume i: "i < 4"
  have l: "length (legHeap demo_tables) = 4" using arg_cong [OF demo_tables_facts(4), of length] by simp
  have "map lgUp (legHeap demo_tables) ! i" unfolding demo_tables_facts(4) using i by (auto simp: less_Suc_eq numeral_eq_Suc)
  then show "up_leg demo_tables i" using i l by (simp add: up_leg_def)
qed

theorem live_legs_found_witness:
  "list_all (\<lambda>i. snd (find_leg (leg_id demo_tables i) demo_tables) = Some i) [0, 1, 2, 3]"
proof -
  have "snd (find_leg (leg_id demo_tables i) demo_tables) = Some i" if "i < 4" for i
    using live_legs_found [OF demo_reached] demo_up [OF that] by (metis pbx_sys.select_convs snd_conv)
  then show ?thesis by (simp del: up_leg_def)
qed

definition demo_phone_device :: device where
  "demo_phone_device = \<lparr>dvCfg = demo_config, aor = \<lparr>uScheme = ''sip'', uUser = ''a'', uHost = ''pbx'', uPort = 0\<rparr>,
     registrarURI = demo_phone [], proxyAddr = [], authUser = ''a''\<rparr>"

theorem blind_transfer_witness:
  "\<exists>p'. bridged p' 1 4 \<and> find_leg ''i1'' p' = (None, Some 0) \<and> find_leg ''i2'' p' = find_leg ''i2'' demo_tables"
proof -
  have keep: "(1 :: nat) = other (bridges demo_tables ! 0) 0" "(1 :: nat) \<noteq> 0" by (simp_all add: demo_tables_facts(5) other_def)
  have num: "dialable ''3''" by (simp add: dialable_def is_digit_def)
  have u: "targetURI demo_uris demo_phone_device ''3'' = Inr \<lparr>uScheme = ''sip'', uUser = ''3'', uHost = uHost (aor demo_phone_device), uPort = 0\<rparr>"
    by (rule target_number [OF num])
  have uri: "list_all plain_char (uHost (aor demo_phone_device))"
    "demo_uri \<lparr>uScheme = ''sip'', uUser = ''3'', uHost = uHost (aor demo_phone_device), uPort = 0\<rparr> = ''sip:'' @ ''3'' @ ''@'' @
       uHost \<lparr>uScheme = ''sip'', uUser = ''3'', uHost = uHost (aor demo_phone_device), uPort = 0\<rparr>"
    by (simp_all add: demo_phone_device_def plain_char_def demo_uri_def)
  have new: "''o3'' \<notin> lgCallID ` set (legHeap demo_tables)" "(4 :: nat) = length (legHeap demo_tables)"
    using arg_cong [OF demo_tables_facts(3), of set] arg_cong [OF demo_tables_facts(3), of length] by simp_all
  have ids: "leg_id demo_tables 1 = ''o1''"
    using arg_cong [OF demo_tables_facts(3), of "\<lambda>l. l ! 1"] new(2) by (simp add: leg_id_def)
  have io: "ioDial (demo_io (DialAnswered ''o3'' ''v'') None) = DialAnswered ''o3'' ''v''"
    "ioReply (demo_io DialFailed (Some (200, ''w''))) = Some (200, ''w'')" "success 200" "ioAckOk (demo_io DialFailed (Some (200, ''w'')))"
    by (simp_all add: demo_io_def success_def)
  from blind_transfer [where uriString = demo_uri and ?io3.0 = "demo_io DialFailed None" and ?io4.0 = "demo_io DialFailed None",
      OF demo_reached demo_tables_facts(1) keep num u uri demo_tables_facts(7,8)
      io(1) new(1) io(2-4) new(2)]
  obtain p' where "bridged p' 1 4" "find_leg ''i1'' p' = (None, Some 0)"
    "\<forall>j. j \<notin> {''i1'', leg_id demo_tables 1, ''o3''} \<longrightarrow> find_leg j p' = find_leg j demo_tables"
    by (elim exE conjE) (rule that)
  then show ?thesis unfolding ids by (intro exI [of _ p']) simp
qed

definition demo_consultation :: party where
  "demo_consultation = demo_consult\<lparr>partyCall := (partyCall demo_consult)\<lparr>callID := ''i2''\<rparr>\<rparr>"

lemma demo_consultation_facts:
  "callID (partyCall demo_consultation) = ''i2''" "token (callID (partyCall demo_consultation))"
  "demo_uri (remoteURI (partyDialog demo_consultation)) = ''sip:200@pbx''" "state (partyCall demo_consultation) = StateConnected"
  by (simp_all add: demo_consultation_def token_def is_space_def demo_uri_def remoteURI_def demo_consult_def newUAC_def
      demo_invite_def markConnected_def newCall_def)

theorem attended_transfer_witness:
  "\<exists>p' acts. bridged p' 1 3 \<and> find_leg ''i1'' p' = (None, Some 0) \<and> find_leg ''i2'' p' = (None, None) \<and>
     ExpectTransferred (fold pbx_notified (notifies 0 acts)
       (fst (AttendedTransfer demo_uri (Recipient demo_invite) (\<lambda>_. Reply 202 []) (Some demo_consultation) (partyCall demo_consult))))"
proof -
  let ?x = "AttendedTransfer demo_uri (Recipient demo_invite) (\<lambda>_. Reply 202 []) (Some demo_consultation) (partyCall demo_consult)"
  have st: "state (partyCall demo_consult) = StateConnected" by (simp add: demo_consult_def markConnected_def newCall_def)
  have x: "?x = (fst ?x, True)"
    by (simp add: AttendedTransfer_def demo_consultation_facts(4) refer_def st reply_ok_def)
  have keep: "(1 :: nat) = other (bridges demo_tables ! 0) 0" "(3 :: nat) = other (bridges demo_tables ! 1) 2" "(1 :: nat) \<noteq> 0"
    "distinct [0, 1, 3, 2 :: nat]"
    by (simp_all add: demo_tables_facts(5) other_def)
  have uri: "demo_uri (remoteURI (partyDialog demo_consultation)) \<noteq> []"
    "set (demo_uri (remoteURI (partyDialog demo_consultation))) \<inter> set ''>?'' = {}"
    unfolding demo_consultation_facts(3) by simp_all
  have cons: "find_leg (callID (partyCall demo_consultation)) demo_tables = (Some 1, Some 2)"
    "orphans demo_tables (callID (partyCall demo_consultation)) = None"
    by (simp_all only: demo_consultation_facts(1) demo_tables_facts(2,6))
  have io: "ioReply (demo_io DialFailed (Some (200, ''w''))) = Some (200, ''w'')" "success 200"
    "ioAckOk (demo_io DialFailed (Some (200, ''w'')))" "''w'' \<noteq> []"
    by (simp_all add: demo_io_def success_def)
  show ?thesis
    using attended_transfer [where uriString = demo_uri and ?io1.0 = "demo_io DialFailed None" and ?io4.0 = "demo_io DialFailed None"
      and ?io5.0 = "demo_io DialFailed None" and ?io6.0 = "demo_io DialFailed None", OF demo_reached demo_tables_facts(1) keep(1) cons(1) keep(3,2,4) cons(2) uri demo_consultation_facts(2)
        io io(1-3) x]
    unfolding demo_consultation_facts(1) by metis
qed

theorem attended_half_done_witness:
  "\<exists>th acts0 acts p'. pbx_onRefer ''i1'' (Some (attended_target demo_uri demo_consultation)) demo_tables = (demo_tables, Some th, acts0) \<and>
     run_thread [demo_io DialFailed None, demo_io DialFailed (Some (200, ''w'')), demo_io DialFailed (Some (488, []))] th demo_tables =
       (p', None, acts) \<and> SendReinvite 1 (sdp_of demo_tables 3) \<in> set acts \<and> find_leg ''i1'' p' = (Some 0, Some 0)"
proof -
  have keep: "(1 :: nat) = other (bridges demo_tables ! 0) 0" "(3 :: nat) = other (bridges demo_tables ! 1) 2" "(1 :: nat) \<noteq> 0"
    by (simp_all add: demo_tables_facts(5) other_def)
  have uri: "demo_uri (remoteURI (partyDialog demo_consultation)) \<noteq> []"
    "set (demo_uri (remoteURI (partyDialog demo_consultation))) \<inter> set ''>?'' = {}"
    unfolding demo_consultation_facts(3) by simp_all
  have cons: "find_leg (callID (partyCall demo_consultation)) demo_tables = (Some 1, Some 2)"
    by (simp only: demo_consultation_facts(1) demo_tables_facts(2))
  have io: "ioReply (demo_io DialFailed (Some (200, ''w''))) = Some (200, ''w'')" "success 200"
    "ioAckOk (demo_io DialFailed (Some (200, ''w'')))" "ioReply (demo_io DialFailed (Some (488, []))) = Some (488, [])" "\<not> success 488"
    by (simp_all add: demo_io_def success_def)
  from attended_half_done [where uriString = demo_uri and ?io1.0 = "demo_io DialFailed None",
      OF demo_tables_facts(1) keep(1) cons keep(3,2) uri demo_consultation_facts(2) io(1-3) io(4,5)]
  obtain th acts0 p' where r: "pbx_onRefer ''i1'' (Some (attended_target demo_uri demo_consultation)) demo_tables = (demo_tables, Some th, acts0)"
    "run_thread [demo_io DialFailed None, demo_io DialFailed (Some (200, ''w'')), demo_io DialFailed (Some (488, []))] th demo_tables =
      (p', None, [SendReinvite 1 (sdp_of demo_tables 3), SendAck 1, SendReinvite 3 (sdp_of (setSDP 1 ''w'' demo_tables) 1),
       Notify 0 ''SIP/2.0 500 Transfer Failed'' True])" "\<forall>j. find_leg j p' = find_leg j demo_tables"
    by (elim exE conjE) (rule that)
  have "SendReinvite 1 (sdp_of demo_tables 3) \<in> set [SendReinvite 1 (sdp_of demo_tables 3), SendAck 1,
      SendReinvite 3 (sdp_of (setSDP 1 ''w'' demo_tables) 1), Notify 0 ''SIP/2.0 500 Transfer Failed'' True]" by (simp only: list.set_intros)
  with r show ?thesis using demo_tables_facts(1) by metis
qed

theorem hold_through_pbx_witness:
  "\<exists>a'. reinvite demo_eb SendOnly (\<lambda>body _. snd (relayed demo_tables ''i1''
      (\<lambda>o'. fst (snd (onReInvite demo_eb False (headers_of []) o' (Some demo_callee)))) body)) (\<lambda>_ _. NoReply []) demo_caller = (a', True) \<and>
    localHold a'"
proof -
  have leg: "other (bridges demo_tables ! 0) 0 = 1" "(0 :: nat) \<noteq> 1" by (simp_all add: demo_tables_facts(5) other_def)
  have n: "0 < length (legHeap demo_tables)" "1 < length (legHeap demo_tables)"
    using arg_cong [OF demo_tables_facts(3), of length] by simp_all
  show ?thesis
    using hold_through_pbx [OF demo_tables_facts(1) leg n demo_states demo_hold(5,5) demo_ready(1) demo_hold(6,2-4,1) refl, of SendOnly]
    by blast
qed

end
