(* ===== verification/CallSpec.thy ===== *)
theory CallSpec
  imports CallMachine
begin

text \<open>
  What a call promises to scripts and metrics, and that the call of \<open>engine/call.go\<close> keeps it: an
  abstract call that only knows whether it was answered, when it ended, with what outcome, and what
  duration was reported. Every section and every step of an ending thread, in any interleaving, is
  a step of the abstract call or invisible to it, and whatever a script can ask of a call it could
  have asked of the abstract one.
\<close>

section \<open>Simulation\<close>

locale simulation =
  fixes conc_step :: "'c \<Rightarrow> 'c \<Rightarrow> bool"
    and abs_step :: "'a \<Rightarrow> 'a \<Rightarrow> bool"
    and inv :: "'c \<Rightarrow> bool"
    and view :: "'c \<Rightarrow> 'a"
    and conc_obs :: "'c \<Rightarrow> 'o"
    and abs_obs :: "'a \<Rightarrow> 'o"
  assumes inv_step: "inv c \<Longrightarrow> conc_step c d \<Longrightarrow> inv d"
    and step_sim: "inv c \<Longrightarrow> conc_step c d \<Longrightarrow> view d = view c \<or> abs_step (view c) (view d)"
    and obs_sim: "inv c \<Longrightarrow> conc_obs c = abs_obs (view c)"
begin

lemma run_sim:
  assumes "conc_step\<^sup>*\<^sup>* c d" "inv c"
  shows "inv d \<and> abs_step\<^sup>*\<^sup>* (view c) (view d)"
  using assms
proof (induction rule: rtranclp_induct)
  case (step d e)
  then show ?case using inv_step step_sim [of d e] by (auto intro: rtranclp.rtrancl_into_rtrancl)
qed simp

lemma obs_run: "conc_step\<^sup>*\<^sup>* c d \<Longrightarrow> inv c \<Longrightarrow> \<exists>a. abs_step\<^sup>*\<^sup>* (view c) a \<and> conc_obs d = abs_obs a"
  using run_sim obs_sim by blast

end

section \<open>The abstract call\<close>

text \<open>
  \<open>Ending\<close> and \<open>Over\<close> hold when the call was answered, if it was, when it ended, its final status and
  reason; a call is over once its end has been reported, with the talk times it was reported with.
\<close>

datatype call_spec =
    Dialling
  | Alerting
  | Talking time
  | Ending "time option" time int string
  | Over "time option" time int string "duration list"

definition talk_time :: "time option \<Rightarrow> time \<Rightarrow> duration" where
  "talk_time a e = (case a of None \<Rightarrow> 0 | Some t \<Rightarrow> e - t)"

text \<open>
  What a thread can do to a call: it rings, is answered, or ends with a status, a reason and a time. Only
  the first answer and the first end count, and an answered call ends with 200 whatever it is ended with.
\<close>

datatype call_act = Rings time | Answers time | Ends EndedBy int string time

fun spec_act :: "call_act \<Rightarrow> call_spec \<Rightarrow> call_spec" where
  "spec_act (Rings t) Dialling = Alerting"
| "spec_act (Answers t) Dialling = Talking t"
| "spec_act (Answers t) Alerting = Talking t"
| "spec_act (Ends by' st why' now) Dialling = Ending None now st why'"
| "spec_act (Ends by' st why' now) Alerting = Ending None now st why'"
| "spec_act (Ends by' st why' now) (Talking t) = Ending (Some t) now 200 why'"
| "spec_act _ a = a"

text \<open>The end is reported to the metrics: once with the talk time for an answered call, else not at all.\<close>

fun spec_report :: "call_spec \<Rightarrow> call_spec" where
  "spec_report (Ending a e st why') = Over a e st why' (if a = None then [] else [talk_time a e])"
| "spec_report a = a"

inductive spec_step :: "call_spec \<Rightarrow> call_spec \<Rightarrow> bool" where
  sp_act: "spec_step a (spec_act x a)"
| sp_report: "spec_step a (spec_report a)"

fun do_act :: "call_act \<Rightarrow> sys \<Rightarrow> sys" where
  "do_act (Rings t) s = upd (markRinging t) s"
| "do_act (Answers t) s = upd (markConnected t) s"
| "do_act (Ends by' st why' now) s = begin_finish by' st why' now s"

inductive_cases spec_stepE: "spec_step a b"

text \<open>
  What can be asked: the state, whether it was answered and whether its end is complete, and how it
  completed. By whom it was ended is not a promise: a hangup that wants to cancel may write it after the
  call has ended (\<open>requestCancel\<close>).
\<close>

record call_answers =
  ansState :: State
  ansConnected :: bool
  ansDisconnected :: bool
  ansCompleted :: "(int \<times> string \<times> duration) option"

fun spec_answers :: "call_spec \<Rightarrow> call_answers" where
  "spec_answers Dialling = \<lparr>ansState = StateCalling, ansConnected = False, ansDisconnected = False, ansCompleted = None\<rparr>"
| "spec_answers Alerting = \<lparr>ansState = StateRinging, ansConnected = False, ansDisconnected = False, ansCompleted = None\<rparr>"
| "spec_answers (Talking t) = \<lparr>ansState = StateConnected, ansConnected = True, ansDisconnected = False, ansCompleted = None\<rparr>"
| "spec_answers (Ending a e st why') =
     \<lparr>ansState = StateEnded, ansConnected = (a \<noteq> None), ansDisconnected = False, ansCompleted = Some (st, why', talk_time a e)\<rparr>"
| "spec_answers (Over a e st why' ds) =
     \<lparr>ansState = StateEnded, ansConnected = (a \<noteq> None), ansDisconnected = True, ansCompleted = Some (st, why', talk_time a e)\<rparr>"

definition call_answers_of :: "Call \<Rightarrow> call_answers" where
  "call_answers_of c =
     \<lparr>ansState = state c, ansConnected = ExpectConnected c, ansDisconnected = ExpectDisconnected c,
      ansCompleted = map_option (\<lambda>k. (compStatus k, compReason k, compDuration k)) (completion c)\<rparr>"

section \<open>The call as an abstract call\<close>

definition durations :: "call_event list \<Rightarrow> duration list" where
  "durations es = concat (map (\<lambda>e. case e of CallEnd d t b \<Rightarrow> [t] | _ \<Rightarrow> []) es)"

definition abs_call :: "sys \<Rightarrow> call_spec" where
  "abs_call s =
     (case state (call s) of
        StateCalling \<Rightarrow> Dialling | StateRinging \<Rightarrow> Alerting | StateConnected \<Rightarrow> Talking (the (tAnswer (call s)))
      | StateEnded \<Rightarrow>
          if doneCloses (call s) = 0 then Ending (tAnswer (call s)) (the (tEnd (call s))) (status (call s)) (reason (call s))
          else Over (tAnswer (call s)) (the (tEnd (call s))) (status (call s)) (reason (call s)) (durations (events s)))"

text \<open>What the ending thread reports is the talk time, and only it reports one.\<close>

definition dur_ok :: "sys \<Rightarrow> bool" where
  "dur_ok s \<longleftrightarrow>
     (case fin s of
        None \<Rightarrow> durations (events s) = []
      | Some (f, k) \<Rightarrow>
          (\<forall>a. tAnswer (call s) = Some a \<longrightarrow> finDuration f = talk_time (Some a) (the (tEnd (call s)))) \<and>
          durations (events s) = (if k \<ge> 4 \<and> wasConnected f then [finDuration f] else []))"

lemma durations_simps [simp]:
  "durations [] = []" "durations (xs @ ys) = durations xs @ durations ys"
  "durations (CallEnd d t b # es) = t # durations es" "durations (Saved # es) = durations es"
  "durations (MediaReport d st # es) = durations es"
  by (simp_all add: durations_def)

text \<open>The fields the abstract call is made of.\<close>

definition spoken :: "Call \<Rightarrow> State \<times> time option \<times> time option \<times> int \<times> string \<times> nat" where
  "spoken c = (state c, tAnswer c, tEnd c, status c, reason c, doneCloses c)"

lemma abs_call_cong: "spoken (call t) = spoken (call s) \<Longrightarrow> durations (events t) = durations (events s) \<Longrightarrow> abs_call t = abs_call s"
  by (cases "state (call s)") (simp_all add: abs_call_def spoken_def)

lemma dur_ok_cong:
  "spoken (call t) = spoken (call s) \<Longrightarrow> durations (events t) = durations (events s) \<Longrightarrow> fin t = fin s \<Longrightarrow> dur_ok t = dur_ok s"
  by (auto simp: dur_ok_def spoken_def split: option.split)

lemma closeMedia_spoken:
  "spoken (fst (closeMedia w c)) = spoken c" "durations (snd (closeMedia w c)) = []"
  using autoSave_cases [of "c\<lparr>media := Some (fst (Close (the (media c))))\<rparr>"]
  by (auto simp: closeMedia_def spoken_def split: option.split prod.split)

text \<open>The steps the abstract call does not see.\<close>

lemma silent_step:
  assumes "call_step s s'"
  shows "spoken (call s') = spoken (call s) \<and> durations (events s') = durations (events s) \<and> fin s' = fin s \<or>
    (\<exists>t. s' = upd (markRinging t) s) \<or> (\<exists>t. s' = upd (markConnected t) s) \<or>
    (\<exists>by' st why' now. s' = begin_finish by' st why' now s) \<or> (\<exists>f k. fin s = Some (f, k) \<and> k < 5 \<and> s' = finish_tail f k s)"
  using assms
proof cases
  case (cs_late_save c save)
  then show ?thesis using autoSave_cases [of "call s"] by (auto simp: spoken_def)
next
  case cs_ringing
  then show ?thesis by blast
next
  case cs_connected
  then show ?thesis by blast
next
  case cs_finish
  then show ?thesis by blast
next
  case cs_tail
  then show ?thesis by blast
qed (simp_all add: spoken_def decide_def requestCancel_def set_session_def sessionRefreshed_def mark_failed_def split: option.split)

text \<open>A call has no status before it is answered or ends.\<close>

definition status_ok :: "Call \<Rightarrow> bool" where
  "status_ok c \<longleftrightarrow> (state c \<in> {StateCalling, StateRinging} \<longrightarrow> status c = 0)"

definition call_inv :: "sys \<Rightarrow> bool" where
  "call_inv s \<longleftrightarrow> sys_ok s \<and> dur_ok s \<and> status_ok (call s)"

lemma dur_ok_live: "sys_ok s \<Longrightarrow> state (call s) \<noteq> StateEnded \<Longrightarrow> dur_ok s \<longleftrightarrow> durations (events s) = []"
  using fin_ok_None by (fastforce simp: sys_ok_def dur_ok_def)

lemma ringing_act: "abs_call (upd (markRinging t) s) = spec_act (Rings t) (abs_call s)"
  by (cases "state (call s)") (auto simp: abs_call_def markRinging_def less_eq_State_def)

lemma connected_act: "abs_call (upd (markConnected t) s) = spec_act (Answers t) (abs_call s)"
  by (cases "state (call s)") (auto simp: abs_call_def markConnected_def less_eq_State_def)

lemma finish_act:
  assumes "call_inv s"
  shows "abs_call (begin_finish by' st why' now s) = spec_act (Ends by' st why' now) (abs_call s)"
proof (cases "state (call s) = StateEnded")
  case True
  then show ?thesis by (simp add: begin_finish_cases abs_call_def)
next
  case False
  have "tAnswer (call s) \<noteq> None \<longleftrightarrow> state (call s) = StateConnected" "tAnswer (call s) \<noteq> None \<longrightarrow> status (call s) = 200"
    "doneCloses (call s) = 0" "state (call s) \<in> {StateCalling, StateRinging} \<longrightarrow> status (call s) = 0"
    using assms False fin_ok_None [of s] by (auto simp: call_inv_def sys_ok_def times_ok_def status_ok_def)
  then show ?thesis using False
    by (cases "state (call s)") (auto simp: abs_call_def begin_finish_cases finish_lock_def Let_def)
qed

lemma act_sim: "call_inv s \<Longrightarrow> abs_call (do_act x s) = spec_act x (abs_call s)"
  by (cases x) (simp_all add: ringing_act connected_act finish_act)

lemma tail_facts:
  assumes "call_inv s" "fin s = Some (f, k)" "k < 5"
  shows "state (call s) = StateEnded" "doneCloses (call s) = 0" "wasConnected f \<longleftrightarrow> tAnswer (call s) \<noteq> None"
    "tAnswer (call s) = Some a \<Longrightarrow> finDuration f = talk_time (Some a) (the (tEnd (call s)))"
    "durations (events s) = (if k \<ge> 4 \<and> wasConnected f then [finDuration f] else [])"
  using assms by (auto simp: call_inv_def sys_ok_def fin_ok_def dur_ok_def)

lemma tail_sim:
  assumes "call_inv s" "fin s = Some (f, k)" "k < 5"
  shows "abs_call (finish_tail f k s) = abs_call s \<or> abs_call (finish_tail f k s) = spec_report (abs_call s)"
    and "dur_ok (finish_tail f k s)"
proof -
  note t = tail_facts [OF assms]
  consider "k = 0" | "k = 1" | "k = 2" | "k = 3" | "k = 4" using assms(3) by linarith
  then have "(abs_call (finish_tail f k s) = abs_call s \<or> abs_call (finish_tail f k s) = spec_report (abs_call s)) \<and>
    dur_ok (finish_tail f k s)"
  proof cases
    case 3
    have "spoken (call (finish_tail f k s)) = spoken (call s)" "durations (events (finish_tail f k s)) = durations (events s)"
      using closeMedia_spoken [of "wasConnected f" "call s"] 3 by (simp_all add: finish_tail_def Let_def split_beta)
    moreover have "fin (finish_tail f k s) = Some (f, 3)" using 3 by (simp add: finish_tail_def Let_def split_beta)
    ultimately show ?thesis using t 3 abs_call_cong by (auto simp: dur_ok_def spoken_def)
  next
    case 5
    then show ?thesis using t by (auto simp: dur_ok_def abs_call_def finish_tail_def)
  qed (use t in \<open>auto simp: abs_call_def dur_ok_def finish_tail_def stopSession_def\<close>)
  then show "abs_call (finish_tail f k s) = abs_call s \<or> abs_call (finish_tail f k s) = spec_report (abs_call s)"
    "dur_ok (finish_tail f k s)" by simp_all
qed

lemma tail_status: "state (call s) = StateEnded \<Longrightarrow> status_ok (call (finish_tail f k s))"
  using closeMedia_spoken(1) [of "wasConnected f" "call s"]
  by (auto simp: status_ok_def finish_tail_def stopSession_def spoken_def Let_def split_beta)

lemma act_inv:
  assumes "call_inv s" "sys_ok (do_act x s)"
  shows "call_inv (do_act x s)"
proof (cases "state (call s) = StateEnded")
  case True
  then have "do_act x s = s" by (cases x) (simp_all add: markRinging_def markConnected_def begin_finish_cases less_eq_State_def)
  then show ?thesis using assms by simp
next
  case False
  have ok: "sys_ok s" "status_ok (call s)" using assms(1) by (simp_all add: call_inv_def)
  have "durations (events s) = []" using dur_ok_live [OF ok(1) False] assms(1) by (simp add: call_inv_def)
  moreover have "fin s = None" using ok(1) False fin_ok_None by (auto simp: sys_ok_def)
  ultimately have "dur_ok (do_act x s)"
    using False by (cases x) (simp_all add: dur_ok_def begin_finish_cases finish_lock_def talk_time_def Let_def)
  moreover have "status_ok (call (do_act x s))"
    using ok(2) False by (cases x) (auto simp: status_ok_def markRinging_def markConnected_def begin_finish_cases finish_lock_def Let_def)
  ultimately show ?thesis using assms(2) by (simp add: call_inv_def)
qed

lemma call_sim:
  assumes "call_inv s" "call_step s s'"
  shows "call_inv s' \<and> ((\<exists>x. s' = do_act x s) \<or> abs_call s' = abs_call s \<or> abs_call s' = spec_report (abs_call s))"
proof -
  have ok: "sys_ok s" "sys_ok s'" using assms call_step_ok by (auto simp: call_inv_def)
  consider (silent) "spoken (call s') = spoken (call s)" "durations (events s') = durations (events s)" "fin s' = fin s"
    | (act) x where "s' = do_act x s" | (tail) f k where "fin s = Some (f, k)" "k < 5" "s' = finish_tail f k s"
    using silent_step [OF assms(2)] by (metis do_act.simps)
  then show ?thesis
  proof cases
    case silent
    then have "status_ok (call s') = status_ok (call s)" by (simp add: spoken_def status_ok_def)
    then show ?thesis using silent abs_call_cong [of s' s] dur_ok_cong [of s' s] assms(1) ok by (simp add: call_inv_def)
  next
    case act
    then show ?thesis using act_inv [OF assms(1)] ok(2) by blast
  next
    case tail
    then show ?thesis using tail_sim [OF assms(1) tail(1,2)] tail_facts(1) [OF assms(1) tail(1,2)] tail_status [of s f k] ok
      by (auto simp: call_inv_def)
  qed
qed

lemma step_sim_spec: "call_inv s \<Longrightarrow> call_step s s' \<Longrightarrow> abs_call s' = abs_call s \<or> spec_step (abs_call s) (abs_call s')"
  using call_sim [of s s'] by (auto simp: act_sim intro: spec_step.intros)

lemma call_obs:
  assumes "call_inv s"
  shows "call_answers_of (call s) = spec_answers (abs_call s)"
proof -
  have c: "connectedCloses (call s) = (if tAnswer (call s) = None then 0 else 1)"
    "state (call s) \<noteq> StateEnded \<Longrightarrow> (tAnswer (call s) \<noteq> None \<longleftrightarrow> state (call s) = StateConnected) \<and> doneCloses (call s) = 0"
    "state (call s) = StateEnded \<Longrightarrow> tEnd (call s) \<noteq> None"
    using assms fin_ok_None [of s] by (auto simp: call_inv_def sys_ok_def channels_ok_def times_ok_def)
  show ?thesis
    using c by (cases "state (call s)")
      (auto simp: call_answers_of_def abs_call_def completion_def ExpectConnected_def ExpectDisconnected_def talk_time_def split: option.split)
qed

interpretation call_refinement: simulation call_step spec_step call_inv abs_call "\<lambda>s. call_answers_of (call s)" spec_answers
  by unfold_locales (use call_sim step_sim_spec call_obs in blast)+

lemma reach_steps: "call_reach s0 s \<longleftrightarrow> call_step\<^sup>*\<^sup>* s0 s"
proof
  assume "call_reach s0 s"
  then show "call_step\<^sup>*\<^sup>* s0 s" by induction (auto intro: rtranclp.rtrancl_into_rtrancl)
next
  assume "call_step\<^sup>*\<^sup>* s0 s"
  then show "call_reach s0 s" by induction (auto intro: call_reach.intros)
qed

lemma init_inv: "sys_init s \<Longrightarrow> call_inv s \<and> abs_call s = Dialling"
  using sys_init_ok [of s] by (auto simp: sys_init_def call_inv_def dur_ok_def status_ok_def abs_call_def useMedia_def newCall_def)

text \<open>C15: A call keeps its promise to scripts and metrics: whatever its threads do and however they interleave,
  it behaves like an abstract call. Ringing, answering and ending it are the abstract ones, exactly: only the
  first answer and the first end count, it ends with status 200 and its talk time if it was answered, else with
  the status it was ended with, and with the reason and the time of that end. Every other step is
  invisible or the report of its end, which gives the talk time exactly once if it was answered and never if it
  was not; and state, isConnected, isDisconnected and howCompleted (status, reason, duration) answer what they would for it.\<close>

theorem call_refines_spec:
  assumes "sys_init s0" "call_reach s0 s"
  shows "abs_call s0 = Dialling \<and> spec_step\<^sup>*\<^sup>* Dialling (abs_call s) \<and>
    call_answers_of (call s) = spec_answers (abs_call s) \<and>
    (\<forall>x. abs_call (do_act x s) = spec_act x (abs_call s)) \<and>
    (call_step s s' \<longrightarrow> (\<exists>x. s' = do_act x s) \<or> abs_call s' = abs_call s \<or> abs_call s' = spec_report (abs_call s))"
proof -
  have i: "call_inv s0" "abs_call s0 = Dialling" using init_inv [OF assms(1)] by simp_all
  have "call_inv s \<and> spec_step\<^sup>*\<^sup>* (abs_call s0) (abs_call s)"
    using call_refinement.run_sim [OF assms(2) [unfolded reach_steps] i(1)] .
  then have inv: "call_inv s" and run: "spec_step\<^sup>*\<^sup>* Dialling (abs_call s)" using i(2) by simp_all
  show ?thesis
    using i(2) run call_refinement.obs_sim [OF inv] act_sim [OF inv] call_sim [OF inv, of s'] by simp
qed

text \<open>A call that is answered at 100 and then ended with 486 ends with 200; one that only rings ends with 486.\<close>

theorem call_refines_spec_witness:
  "spec_step\<^sup>*\<^sup>* Dialling (Talking 100) \<and> ansConnected (call_answers_of (call demo_answered)) \<and>
   abs_call (begin_finish EndedByRemote 486 ''Busy'' 300 demo_answered) = Ending (Some 100) 300 200 ''Busy'' \<and>
   abs_call (begin_finish EndedByRemote 486 ''Busy'' 300 demo_call) = Ending None 300 486 ''Busy''"
proof -
  have abs: "abs_call demo_answered = Talking 100" using demo_state by (simp add: abs_call_def)
  have "abs_call (do_act (Ends EndedByRemote 486 ''Busy'' 300) demo_answered) = spec_act (Ends EndedByRemote 486 ''Busy'' 300) (abs_call demo_answered)"
    using call_refines_spec [OF demo_call_init demo_answered_reach] by blast
  moreover have "abs_call (do_act (Ends EndedByRemote 486 ''Busy'' 300) demo_call) = spec_act (Ends EndedByRemote 486 ''Busy'' 300) Dialling"
    using call_refines_spec [OF demo_call_init cr_init] by metis
  ultimately show ?thesis using call_refines_spec [OF demo_call_init demo_answered_reach] abs by simp
qed

text \<open>A call that is over was reported with its talk time exactly once if it was answered, and not at all otherwise.\<close>

lemma spec_act_over: "spec_act x a = Over s e st why' ds \<Longrightarrow> a = Over s e st why' ds"
  by (induction x a rule: spec_act.induct) simp_all

lemma spec_over:
  "spec_step\<^sup>*\<^sup>* Dialling b \<Longrightarrow> b = Over a e st why' ds \<Longrightarrow> ds = (if a = None then [] else [talk_time a e])"
proof (induction arbitrary: a e st why' ds rule: rtranclp_induct)
  case (step b c)
  from step.hyps(2) show ?case
  proof cases
    case (sp_act x)
    then have "b = Over a e st why' ds" using step.prems spec_act_over by metis
    then show ?thesis by (rule step.IH)
  next
    case sp_report
    then show ?thesis using step.IH step.prems by (cases b) auto
  qed
qed simp

end
