(* ===== verification/Fft.thy ===== *)
theory Fft
  imports Complex_Main Prelude
begin

text \<open>
  The radix-2 transform of \<open>media/quality.go\<close>, \<open>fft\<close>, with its loops as they are written: the
  bit reversal by counting in reversed binary, the stages of growing size, the blocks of a stage and
  the butterflies of a block, each in place. A slice updated in place is a list; a complex number
  of the code is an exact one here. The transform is proved equal to the discrete Fourier transform.
\<close>

unbundle bit_operations_syntax

section \<open>The program\<close>

text \<open>The inner loop of the bit reversal: add one to \<open>j\<close> from its highest bit downwards.\<close>

function carry :: "nat \<Rightarrow> nat \<Rightarrow> nat" where
  "carry bt j = (if j AND bt \<noteq> 0 then carry (drop_bit 1 bt) (j XOR bt) else j XOR bt)"
  by pat_completeness auto
termination
  by (relation "measure fst") (auto simp: drop_bit_eq_div intro!: Nat.gr0I div_less_dividend)

declare carry.simps [simp del]

definition swap_step :: "nat \<Rightarrow> nat \<Rightarrow> nat \<times> 'a list \<Rightarrow> nat \<times> 'a list" where
  "swap_step n i s =
     (let (j, x) = s; j' = carry (drop_bit 1 n) j
      in (j', if i < j' then x[i := x ! j', j' := x ! i] else x))"

definition bit_reverse :: "'a list \<Rightarrow> 'a list" where
  "bit_reverse x = snd (fold (swap_step (length x)) [1..<length x] (0, x))"

definition butterfly :: "complex \<Rightarrow> nat \<Rightarrow> nat \<Rightarrow> nat \<Rightarrow> complex \<times> complex list \<Rightarrow> complex \<times> complex list" where
  "butterfly w start half k s =
     (let (wk, x) = s; a = x ! (start + k); b = x ! (start + k + half) * wk
      in (wk * w, x[start + k := a + b, start + k + half := a - b]))"

definition fft_block :: "complex \<Rightarrow> nat \<Rightarrow> nat \<Rightarrow> complex list \<Rightarrow> complex list" where
  "fft_block w size' start x = snd (fold (butterfly w start (size' div 2)) [0..<size' div 2] (1, x))"

function fft_stage :: "complex \<Rightarrow> nat \<Rightarrow> nat \<Rightarrow> complex list \<Rightarrow> complex list" where
  "fft_stage w size' start x =
     (if start < length x \<and> 0 < size' then fft_stage w size' (start + size') (fft_block w size' start x) else x)"
  by pat_completeness auto

definition twiddle :: "nat \<Rightarrow> complex" where
  "twiddle size' = exp (Complex 0 (- 2 * pi / real size'))"

text \<open>The outer loop: \<open>size\<close> doubles while it is at most \<open>n\<close>.\<close>

function fft_from :: "nat \<Rightarrow> complex list \<Rightarrow> complex list" where
  "fft_from size' x =
     (if 0 < size' \<and> size' \<le> length x then fft_from (2 * size') (fft_stage (twiddle size') size' 0 x) else x)"
  by pat_completeness auto

definition fft :: "complex list \<Rightarrow> complex list" where
  "fft x = fft_from 2 (bit_reverse x)"

section \<open>Blocks\<close>

lemma butterfly_length [simp]: "length (snd (butterfly w start half k s)) = length (snd s)"
  by (simp add: butterfly_def Let_def split: prod.split)

lemma fold_butterfly_length [simp]: "length (snd (fold (butterfly w start half) ks s)) = length (snd s)"
  by (induction ks arbitrary: s) simp_all

lemma fft_block_length [simp]: "length (fft_block w size' start x) = length x"
  by (simp add: fft_block_def)

termination fft_stage
  by (relation "measure (\<lambda>(w, size', start, x). length x - start)") auto

declare fft_stage.simps [simp del]

lemma fft_stage_length [simp]: "length (fft_stage w size' start x) = length x"
  by (induction w size' start x rule: fft_stage.induct) (subst fft_stage.simps, simp)

termination fft_from
  by (relation "measure (\<lambda>(size', x). Suc (length x) - size')") auto

declare fft_from.simps [simp del]

text \<open>A block after its first \<open>m\<close> butterflies.\<close>

definition butterflied :: "complex \<Rightarrow> nat \<Rightarrow> nat \<Rightarrow> nat \<Rightarrow> complex list \<Rightarrow> nat \<Rightarrow> complex" where
  "butterflied w start half m x i =
     (if start \<le> i \<and> i < start + m then x ! i + x ! (i + half) * w ^ (i - start)
      else if start + half \<le> i \<and> i < start + half + m then x ! (i - half) - x ! i * w ^ (i - half - start)
      else x ! i)"

lemma fold_butterfly:
  assumes "m \<le> half" "start + 2 * half \<le> length x"
  shows "fst (fold (butterfly w start half) [0..<m] (1, x)) = w ^ m \<and>
    (\<forall>i < length x. snd (fold (butterfly w start half) [0..<m] (1, x)) ! i = butterflied w start half m x i)"
  using assms(1)
proof (induction m)
  case 0
  then show ?case by (auto simp: butterflied_def)
next
  case (Suc m)
  let ?f = "fold (butterfly w start half) [0..<m] (1, x)"
  obtain wk y where f: "?f = (wk, y)" by fastforce
  have IH: "wk = w ^ m" "i < length x \<Longrightarrow> y ! i = butterflied w start half m x i" for i
    using Suc f by auto
  have len: "length y = length x" using fold_butterfly_length [of w start half "[0..<m]" "(1, x)"] f by simp
  have idx: "start + m < length x" "start + m + half < length x" using Suc.prems assms(2) by auto
  have y: "y ! (start + m) = x ! (start + m)" "y ! (start + m + half) = x ! (start + m + half)"
    using IH(2) idx Suc.prems by (auto simp: butterflied_def)
  have "snd (butterfly w start half m (wk, y)) ! i = butterflied w start half (Suc m) x i" if i: "i < length x" for i
  proof -
    consider "i = start + m" | "i = start + m + half" | "i \<noteq> start + m" "i \<noteq> start + m + half" by blast
    then show ?thesis
    proof cases
      case 1
      have "i < start + Suc m" "start \<le> i" "i - start = m" using 1 by simp_all
      then have "butterflied w start half (Suc m) x i = x ! (start + m) + x ! (start + m + half) * w ^ m"
        using 1 by (simp add: butterflied_def)
      then show ?thesis using idx len y IH(1) 1 Suc.prems by (simp add: butterfly_def Let_def)
    next
      case 2
      have "i - half = start + m" "i - half - start = m" "\<not> i < start + Suc m" "start + half \<le> i" "i < start + half + Suc m"
        using 2 Suc.prems by simp_all
      then have "butterflied w start half (Suc m) x i = x ! (start + m) - x ! (start + m + half) * w ^ m"
        using 2 by (simp add: butterflied_def)
      then show ?thesis using idx len y IH(1) 2 by (simp add: butterfly_def Let_def)
    next
      case 3
      then have "snd (butterfly w start half m (wk, y)) ! i = y ! i" by (simp add: butterfly_def Let_def)
      also have "\<dots> = butterflied w start half m x i" by (rule IH(2) [OF i])
      also have "\<dots> = butterflied w start half (Suc m) x i" using 3 by (auto simp: butterflied_def less_Suc_eq)
      finally show ?thesis .
    qed
  qed
  moreover have "fold (butterfly w start half) [0..<Suc m] (1, x) = butterfly w start half m (wk, y)"
    using f by simp
  moreover have "fst (butterfly w start half m (wk, y)) = w ^ Suc m" by (simp add: butterfly_def Let_def IH(1))
  ultimately show ?case by simp
qed

text \<open>What a butterfly of size \<open>s\<close> makes of a list at the indices of a block.\<close>

definition combined :: "complex \<Rightarrow> nat \<Rightarrow> complex list \<Rightarrow> nat \<Rightarrow> complex" where
  "combined w s x i =
     (if i mod s < s div 2 then x ! i + x ! (i + s div 2) * w ^ (i mod s)
      else x ! (i - s div 2) - x ! i * w ^ (i mod s - s div 2))"

lemma fft_block_nth:
  assumes "even s" "0 < s" "s dvd start" "start + s \<le> length x" "i < length x"
  shows "fft_block w s start x ! i = (if start \<le> i \<and> i < start + s then combined w s x i else x ! i)"
proof -
  obtain h where h: "s = 2 * h" "0 < h" using assms(1,2) by (auto elim!: evenE)
  have f: "fft_block w s start x ! i = butterflied w start h h x i"
    using fold_butterfly [of h h start x w] assms(4,5) by (simp add: fft_block_def h)
  show ?thesis
  proof (cases "start \<le> i \<and> i < start + s")
    case True
    then obtain k where k: "i = start + k" "k < s" by (auto simp: le_iff_add)
    then have "i mod s = k" using assms(3) by (auto elim!: dvdE)
    then show ?thesis using True f k h by (auto simp: butterflied_def combined_def)
  next
    case False
    then show ?thesis using f h by (auto simp: butterflied_def)
  qed
qed

text \<open>A stage combines every block.\<close>

lemma fft_stage_nth:
  assumes "even s" "0 < s" "s dvd start" "s dvd length x" "i < length x"
  shows "length (fft_stage w s start x) = length x \<and>
    fft_stage w s start x ! i = (if start \<le> i then combined w s x i else x ! i)"
  using assms
proof (induction w s start x rule: fft_stage.induct)
  case (1 w s start x)
  show ?case
  proof (cases "start < length x")
    case True
    obtain a where a: "start = a * s" using "1.prems"(3) by (metis dvd_div_mult_self)
    obtain n where n: "length x = n * s" using "1.prems"(4) by (metis dvd_div_mult_self)
    have "(a + 1) * s \<le> n * s" using True a n "1.prems"(2) by (intro mult_le_mono1) simp
    then have fits: "start + s \<le> length x" using a n by simp
    note b = fft_block_nth [OF "1.prems"(1-3) fits]
    have st: "fft_stage w s start x = fft_stage w s (start + s) (fft_block w s start x)"
      using True "1.prems"(2) by (simp add: fft_stage.simps)
    have IH: "length (fft_stage w s (start + s) (fft_block w s start x)) = length x \<and>
        fft_stage w s (start + s) (fft_block w s start x) ! i =
          (if start + s \<le> i then combined w s (fft_block w s start x) i else fft_block w s start x ! i)"
      using "1.IH" True "1.prems"(2) "1.prems" by simp
    show ?thesis
    proof (cases "start + s \<le> i")
      case after: True
      obtain q r where q: "i = q * s + r" "r < s" using mod_less_divisor [OF "1.prems"(2)] div_mod_decomp by metis
      have "q \<ge> a + 1"
      proof (rule ccontr)
        assume "\<not> q \<ge> a + 1"
        then have "q * s \<le> a * s" by simp
        then show False using after q a by linarith
      qed
      then have "(a + 1) * s \<le> q * s" by (rule mult_le_mono1)
      then have lo: "start + s \<le> q * s" using a by simp
      have "q < n" using "1.prems"(5) q n by (metis add_lessD1 mult_less_cancel2)
      then have "(q + 1) * s \<le> n * s" by (intro mult_le_mono1) simp
      then have hi: "q * s + s \<le> length x" using n by simp
      have same: "fft_block w s start x ! j = x ! j" if "q * s \<le> j" "j < q * s + s" for j
        using b [of j] that lo hi by auto
      have "combined w s (fft_block w s start x) i = combined w s x i"
        using q same [of i] same [of "i + s div 2"] same [of "i - s div 2"] "1.prems"(1)
        by (auto simp: combined_def elim!: evenE)
      then show ?thesis using IH st after by simp
    next
      case False
      then show ?thesis using IH st b [OF "1.prems"(5)] by simp
    qed
  next
    case False
    then show ?thesis using "1.prems" by (simp add: fft_stage.simps)
  qed
qed

section \<open>Bit reversal\<close>

text \<open>The number whose \<open>k\<close> lowest bits are those of \<open>i\<close> in reverse.\<close>

primrec rev_bits :: "nat \<Rightarrow> nat \<Rightarrow> nat" where
  "rev_bits 0 i = 0"
| "rev_bits (Suc k) i = (i mod 2) * 2 ^ k + rev_bits k (i div 2)"

lemma rev_bits_less: "rev_bits k i < 2 ^ k"
proof (induction k arbitrary: i)
  case (Suc k)
  have "i mod 2 = 0 \<or> i mod 2 = 1" by auto
  then show ?case using Suc [of "i div 2"] by auto
qed simp

lemma rev_bits_zero [simp]: "rev_bits k 0 = 0"
  by (induction k) simp_all

text \<open>The lowest bit goes to the top; peeled from the other end, the top bit goes to the bottom.\<close>

lemma rev_bits_top: "rev_bits (Suc k) i = 2 * rev_bits k i + (i div 2 ^ k) mod 2"
proof (induction k arbitrary: i)
  case (Suc k)
  have "rev_bits (Suc (Suc k)) i = (i mod 2) * 2 ^ Suc k + rev_bits (Suc k) (i div 2)" by simp
  also have "\<dots> = (i mod 2) * 2 ^ Suc k + (2 * rev_bits k (i div 2) + (i div 2 div 2 ^ k) mod 2)" by (simp only: Suc)
  also have "\<dots> = 2 * rev_bits (Suc k) i + (i div 2 ^ Suc k) mod 2"
    by (simp add: div_mult2_eq)
  finally show ?case .
qed simp

lemma rev_bits_invol: "i < 2 ^ k \<Longrightarrow> rev_bits k (rev_bits k i) = i"
proof (induction k arbitrary: i)
  case (Suc k)
  have d: "i div 2 < 2 ^ k" using Suc.prems by auto
  have "rev_bits (Suc k) (rev_bits (Suc k) i) = 2 * rev_bits k (rev_bits (Suc k) i) + (rev_bits (Suc k) i div 2 ^ k) mod 2"
    by (rule rev_bits_top)
  also have "rev_bits (Suc k) i div 2 ^ k = i mod 2"
    using rev_bits_less [of k "i div 2"] by simp
  also have "rev_bits k (rev_bits (Suc k) i) = rev_bits k (rev_bits k (i div 2))"
  proof -
    have "rev_bits k (c * 2 ^ k + j) = rev_bits k j" for c j
    proof (induction k arbitrary: c j)
      case (Suc k)
      have "c * 2 ^ Suc k + j = 2 * (c * 2 ^ k) + j" by simp
      then have "(c * 2 ^ Suc k + j) mod 2 = j mod 2" "(c * 2 ^ Suc k + j) div 2 = c * 2 ^ k + j div 2"
        by (simp_all only: mod_mult_self4 div_mult_self4 zero_neq_numeral not_False_eq_True)
      then show ?case using Suc [of c "j div 2"] by simp
    qed simp
    then show ?thesis by simp
  qed
  finally show ?case using Suc.IH [OF d] by simp
qed simp

lemma and_exp_less: "j < 2 ^ k \<Longrightarrow> j AND 2 ^ k = (0 :: nat)"
  by (simp add: and_exp_eq_0_iff_not_bit bit_iff_odd)

lemma xor_exp_less: "j < 2 ^ k \<Longrightarrow> j XOR 2 ^ k = (j + 2 ^ k :: nat)"
  using disjunctive_add_eq_xor [of j "2 ^ k :: nat"] and_exp_less [of j k] by simp

lemma xor_exp_add: "j < 2 ^ k \<Longrightarrow> (2 ^ k + j) XOR 2 ^ k = (j :: nat)"
  using xor_exp_less [of j k] by (metis add.commute xor.assoc xor.right_neutral xor_self_eq)

lemma and_exp_add: "j < 2 ^ k \<Longrightarrow> (2 ^ k + j) AND 2 ^ k \<noteq> (0 :: nat)"
  by (simp add: and_exp_eq_0_iff_not_bit bit_iff_odd)

lemma carry_rev_bits: "i + 1 < 2 ^ Suc k \<Longrightarrow> carry (2 ^ k) (rev_bits (Suc k) i) = rev_bits (Suc k) (i + 1)"
proof (induction k arbitrary: i)
  case 0
  then show ?case by (simp add: carry.simps)
next
  case (Suc k)
  let ?r = "rev_bits (Suc k) (i div 2)"
  have less: "?r < 2 ^ Suc k" by (rule rev_bits_less)
  show ?case
  proof (cases "even i")
    case True
    then have i: "i mod 2 = 0" "(i + 1) mod 2 = 1" "(i + 1) div 2 = i div 2" by auto
    then have "rev_bits (Suc (Suc k)) i = ?r" "rev_bits (Suc (Suc k)) (i + 1) = ?r + 2 ^ Suc k"
      by (simp_all only: rev_bits.simps(2) [of "Suc k"] mult_zero_left mult_1 add_0 add.commute)
    then show ?thesis
      using and_exp_less [OF less] xor_exp_less [OF less] by (subst carry.simps) simp
  next
    case False
    then have i: "i mod 2 = 1" "(i + 1) mod 2 = 0" "(i + 1) div 2 = i div 2 + 1" by presburger+
    then have eq: "rev_bits (Suc (Suc k)) i = 2 ^ Suc k + ?r" "rev_bits (Suc (Suc k)) (i + 1) = rev_bits (Suc k) (i div 2 + 1)"
      by (simp_all only: rev_bits.simps(2) [of "Suc k"] mult_zero_left mult_1 add_0)
    have "2 * (i div 2) + 1 = i" using False by simp
    then have "i div 2 + 1 < 2 ^ Suc k" using Suc.prems by simp
    then have "carry (2 ^ k) ?r = rev_bits (Suc k) (i div 2 + 1)" by (rule Suc.IH)
    moreover have "drop_bit 1 (2 ^ Suc k) = (2 ^ k :: nat)" by (simp add: drop_bit_eq_div)
    moreover have "(2 ^ Suc k + ?r) AND 2 ^ Suc k \<noteq> 0" "(2 ^ Suc k + ?r) XOR 2 ^ Suc k = ?r"
      by (rule and_exp_add [OF less], rule xor_exp_add [OF less])
    ultimately show ?thesis unfolding eq by (subst carry.simps) simp
  qed
qed

text \<open>The list after the swaps up to index \<open>m\<close>.\<close>

lemma fold_swap:
  assumes n: "length x = 2 ^ Suc k" and m: "m < length x"
  shows "fst (fold (swap_step (length x)) [1..<Suc m] (0, x)) = rev_bits (Suc k) m \<and>
    length (snd (fold (swap_step (length x)) [1..<Suc m] (0, x))) = length x \<and>
    (\<forall>i < length x. snd (fold (swap_step (length x)) [1..<Suc m] (0, x)) ! i =
       (if min i (rev_bits (Suc k) i) \<le> m then x ! rev_bits (Suc k) i else x ! i))"
  using m
proof (induction m)
  case 0
  have "min i (rev_bits (Suc k) i) \<le> 0 \<Longrightarrow> i < length x \<Longrightarrow> rev_bits (Suc k) i = i" for i
    using rev_bits_invol [of i "Suc k"] n by (auto simp: min_def simp del: rev_bits.simps split: if_splits)
  then show ?case by (simp del: rev_bits.simps) (metis min_0L min_0R)
next
  case (Suc m)
  let ?r = "rev_bits (Suc k)"
  let ?f = "fold (swap_step (length x)) [1..<Suc m] (0, x)"
  obtain j y where f: "?f = (j, y)" by fastforce
  have IH: "j = ?r m" "length y = length x" "i < length x \<Longrightarrow> y ! i = (if min i (?r i) \<le> m then x ! ?r i else x ! i)" for i
    using Suc f by auto
  have inv: "i < length x \<Longrightarrow> ?r (?r i) = i" "?r i < length x" for i
    using rev_bits_invol [of i "Suc k"] rev_bits_less [of "Suc k" i] n by simp_all
  have next': "carry (drop_bit 1 (length x)) j = ?r (Suc m)"
    using carry_rev_bits [of m k] Suc.prems IH(1) n by (simp add: drop_bit_eq_div del: rev_bits.simps)
  have step: "fold (swap_step (length x)) [1..<Suc (Suc m)] (0, x) =
      (?r (Suc m), if Suc m < ?r (Suc m) then y[Suc m := y ! ?r (Suc m), ?r (Suc m) := y ! Suc m] else y)"
    using f next' by (simp add: swap_step_def Let_def del: rev_bits.simps)
  have "(if Suc m < ?r (Suc m) then y[Suc m := y ! ?r (Suc m), ?r (Suc m) := y ! Suc m] else y) ! i =
      (if min i (?r i) \<le> Suc m then x ! ?r i else x ! i)" if i: "i < length x" for i
  proof (cases "Suc m < ?r (Suc m)")
    case True
    have y: "y ! Suc m = x ! Suc m" "y ! ?r (Suc m) = x ! ?r (Suc m)"
      using IH(3) [of "Suc m"] IH(3) [of "?r (Suc m)"] True Suc.prems inv by (simp_all del: rev_bits.simps)
    consider "i = Suc m" | "i = ?r (Suc m)" | "i \<noteq> Suc m" "i \<noteq> ?r (Suc m)" by blast
    then show ?thesis
    proof cases
      case 3
      then have "min i (?r i) \<noteq> Suc m" using inv(1) [OF i] by (auto simp: min_def simp del: rev_bits.simps split: if_splits)
      then show ?thesis using 3 True IH(3) [OF i] by (auto simp del: rev_bits.simps)
    qed (use True y IH(2) Suc.prems inv in \<open>auto simp del: rev_bits.simps\<close>)
  next
    case False
    have "min i (?r i) = Suc m \<Longrightarrow> ?r i = i"
      using False inv(1) [OF i] by (auto simp: min_def simp del: rev_bits.simps split: if_splits)
    then show ?thesis using False IH(3) [OF i] by (auto simp: le_Suc_eq simp del: rev_bits.simps)
  qed
  then show ?case using IH(2) by (simp only: step) (simp del: rev_bits.simps)
qed

lemma bit_reverse_nth:
  assumes "length x = 2 ^ k" "i < length x"
  shows "length (bit_reverse x) = length x" "bit_reverse x ! i = x ! rev_bits k i"
proof -
  have "length (bit_reverse x) = length x \<and> bit_reverse x ! i = x ! rev_bits k i"
  proof (cases k)
    case 0
    then show ?thesis using assms by (simp add: bit_reverse_def)
  next
    case (Suc l)
    have "length x - 1 < length x" "Suc (length x - 1) = length x" using assms(2) by simp_all
    then show ?thesis
      using fold_swap [of x l "length x - 1"] assms Suc by (auto simp: bit_reverse_def simp del: rev_bits.simps)
  qed
  then show "length (bit_reverse x) = length x" "bit_reverse x ! i = x ! rev_bits k i" by simp_all
qed

section \<open>The transform\<close>

text \<open>The discrete Fourier transform, as the sum that defines it.\<close>

definition dft :: "complex list \<Rightarrow> nat \<Rightarrow> complex" where
  "dft x m = (\<Sum>j < length x. x ! j * cis (- 2 * pi * real j * real m / real (length x)))"

lemma twiddle_power: "twiddle n ^ m = cis (- 2 * pi * real m / real n)"
proof -
  have "real m * (- 2 * pi / real n) = - 2 * pi * real m / real n" by simp
  moreover have "twiddle n ^ m = cis (real m * (- 2 * pi / real n))"
    unfolding twiddle_def DeMoivre [symmetric] by (simp add: exp_eq_polar)
  ultimately show ?thesis by (simp only:)
qed

lemma twiddle_double: "twiddle (2 * n) ^ (2 * m) = twiddle n ^ m"
proof -
  have "- 2 * pi * real (2 * m) / real (2 * n) = - 2 * pi * real m / real n" by (simp add: mult.assoc)
  then show ?thesis by (simp only: twiddle_power)
qed

lemma twiddle_period: "0 < n \<Longrightarrow> twiddle n ^ n = 1"
  by (simp add: twiddle_power cis.ctr complex_eq_iff)

lemma twiddle_half: "0 < n \<Longrightarrow> twiddle (2 * n) ^ n = - 1"
  by (simp add: twiddle_power cis.ctr complex_eq_iff)

lemma sum_even_odd: "(\<Sum>j < 2 * n. f j) = (\<Sum>j < n. f (2 * j)) + (\<Sum>j < n. f (2 * j + 1))"
  for f :: "nat \<Rightarrow> 'a :: comm_monoid_add"
  by (induction n) (simp_all add: add_ac)

text \<open>The sum over twice as many points, from the sums over the even and the odd points.\<close>

lemma sum_halves:
  "(\<Sum>j < 2 * h. g j * twiddle (2 * h) ^ (j * m)) =
   (\<Sum>j < h. g (2 * j) * twiddle h ^ (j * m)) + (\<Sum>j < h. g (2 * j + 1) * twiddle h ^ (j * m)) * twiddle (2 * h) ^ m"
proof -
  have "twiddle (2 * h) ^ (2 * j * m) = twiddle h ^ (j * m)" for j
    using twiddle_double [of h "j * m"] by (simp add: mult.assoc)
  moreover have "twiddle (2 * h) ^ ((2 * j + 1) * m) = twiddle h ^ (j * m) * twiddle (2 * h) ^ m" for j
    using twiddle_double [of h "j * m"] by (simp add: power_add add_mult_distrib mult.assoc)
  ultimately show ?thesis
    by (simp only: sum_even_odd sum_distrib_right mult.assoc)
qed

text \<open>
  After the stage of size \<open>2 ^ s\<close> the block at \<open>b\<close> holds the transform of every \<open>2 ^ (k - s)\<close>-th sample,
  from the one whose index is the reverse of \<open>b\<close>.
\<close>

definition staged :: "nat \<Rightarrow> complex list \<Rightarrow> nat \<Rightarrow> nat \<Rightarrow> complex" where
  "staged k x s i =
     (\<Sum>j < 2 ^ s. x ! (j * 2 ^ (k - s) + rev_bits (k - s) (i div 2 ^ s)) * twiddle (2 ^ s) ^ (j * (i mod 2 ^ s)))"

lemma staged_Suc:
  assumes s: "s < k" and m: "m < 2 * 2 ^ s"
  shows "staged k x (Suc s) (2 * 2 ^ s * b + m) =
    staged k x s (2 * 2 ^ s * b + m mod 2 ^ s) +
    (if m < 2 ^ s then 1 else - 1) * (staged k x s (2 * 2 ^ s * b + m mod 2 ^ s + 2 ^ s) * twiddle (2 * 2 ^ s) ^ (m mod 2 ^ s))"
proof -
  let ?h = "2 ^ s :: nat" let ?P = "2 ^ (k - Suc s) :: nat" let ?r = "rev_bits (k - Suc s) b" let ?q = "m mod ?h"
  have k: "k - s = Suc (k - Suc s)" using s by simp
  have q: "?q < ?h" by simp
  have d: "(2 * ?h * b + ?q) div ?h = 2 * b" "(2 * ?h * b + ?q) mod ?h = ?q"
    "(2 * ?h * b + ?q + ?h) div ?h = 2 * b + 1" "(2 * ?h * b + ?q + ?h) mod ?h = ?q"
    using q mod_mult_self4 [of ?h "2 * b" ?q] by (simp_all add: div_nat_eqI mult_ac)
  have e: "staged k x s (2 * ?h * b + ?q) = (\<Sum>j < ?h. x ! (2 * j * ?P + ?r) * twiddle ?h ^ (j * ?q))"
    unfolding staged_def d k by (simp add: mult_ac)
  have odd: "rev_bits (Suc (k - Suc s)) (2 * b + 1) = ?P + ?r"
    by (simp only: rev_bits.simps(2) mod_mult_self4 div_mult_self4) simp
  have o: "staged k x s (2 * ?h * b + ?q + ?h) = (\<Sum>j < ?h. x ! ((2 * j + 1) * ?P + ?r) * twiddle ?h ^ (j * ?q))"
    unfolding staged_def d k odd by (intro sum.cong refl arg_cong2 [where f = "(*)"] arg_cong [where f = "nth x"]) (simp add: algebra_simps)
  have p: "twiddle ?h ^ (j * m) = twiddle ?h ^ (j * ?q)" for j
  proof -
    have "twiddle ?h ^ (j * m) = (twiddle ?h ^ m) ^ j" by (simp add: power_mult [symmetric] mult.commute)
    also have "twiddle ?h ^ m = twiddle ?h ^ (?h * (m div ?h) + ?q)" by simp
    also have "\<dots> = twiddle ?h ^ ?q" by (simp only: power_add power_mult twiddle_period zero_less_power zero_less_numeral power_one mult_1)
    finally show ?thesis by (simp add: power_mult [symmetric] mult.commute)
  qed
  have w: "twiddle (2 * ?h) ^ m = (if m < ?h then 1 else - 1) * twiddle (2 * ?h) ^ ?q"
  proof (cases "m < ?h")
    case False
    then have "?q = m - ?h" using m by (simp add: mod_if)
    then have "m = ?h + ?q" using False by simp
    then have "twiddle (2 * ?h) ^ m = twiddle (2 * ?h) ^ ?h * twiddle (2 * ?h) ^ ?q" by (metis power_add)
    then show ?thesis using False twiddle_half [of ?h] by simp
  qed simp
  have "staged k x (Suc s) (2 * ?h * b + m) = (\<Sum>j < 2 * ?h. x ! (j * ?P + ?r) * twiddle (2 * ?h) ^ (j * m))"
    using m unfolding staged_def by simp
  also have "\<dots> = (\<Sum>j < ?h. x ! (2 * j * ?P + ?r) * twiddle ?h ^ (j * ?q)) +
      (\<Sum>j < ?h. x ! ((2 * j + 1) * ?P + ?r) * twiddle ?h ^ (j * ?q)) * twiddle (2 * ?h) ^ m"
    unfolding sum_halves [where g = "\<lambda>j. x ! (j * ?P + ?r)"] p ..
  finally show ?thesis unfolding e o w by simp
qed

lemma stage_staged:
  assumes n: "length y = 2 ^ k" and s: "s < k" and y: "\<And>i. i < length y \<Longrightarrow> y ! i = staged k x s i" and i: "i < length y"
  shows "fft_stage (twiddle (2 ^ Suc s)) (2 ^ Suc s) 0 y ! i = staged k x (Suc s) i"
proof -
  let ?h = "2 ^ s :: nat"
  define b m where "b = i div (2 * ?h)" and "m = i mod (2 * ?h)"
  have m: "m < 2 * ?h" and bm: "i = 2 * ?h * b + m" by (simp_all add: b_def m_def)
  have dv: "2 * ?h dvd length y" using n s by (metis Suc_leI le_imp_power_dvd power_Suc)
  have "fft_stage (twiddle (2 * ?h)) (2 * ?h) 0 y ! i = combined (twiddle (2 * ?h)) (2 * ?h) y i"
    using fft_stage_nth [of "2 * ?h" 0 y i "twiddle (2 * ?h)"] dv i by simp
  note c = this
  have fits: "2 * ?h * b + 2 * ?h \<le> length y"
  proof -
    obtain c where c: "length y = 2 * ?h * c" using dv by blast
    have "b < c" using i c by (simp add: b_def div_less_iff_less_mult mult.commute less_mult_imp_div_less)
    then have "2 * ?h * (b + 1) \<le> 2 * ?h * c" by (intro mult_le_mono2) simp
    then show ?thesis using c by simp
  qed
  show ?thesis
  proof (cases "m < ?h")
    case True
    have "combined (twiddle (2 * ?h)) (2 * ?h) y i = y ! i + y ! (i + ?h) * twiddle (2 * ?h) ^ m"
      using True m_def by (simp add: combined_def)
    also have "\<dots> = staged k x s (2 * ?h * b + m) + staged k x s (2 * ?h * b + m + ?h) * twiddle (2 * ?h) ^ m"
      using y [of i] y [of "i + ?h"] True fits i bm by simp
    also have "\<dots> = staged k x (Suc s) i" using staged_Suc [OF s m, of x b] True bm by simp
    finally show ?thesis using c by simp
  next
    case False
    then have mq: "m mod ?h = m - ?h" using m by (simp add: mod_if)
    have "combined (twiddle (2 * ?h)) (2 * ?h) y i = y ! (i - ?h) - y ! i * twiddle (2 * ?h) ^ (m - ?h)"
      using False m_def by (simp add: combined_def)
    also have "\<dots> = staged k x s (2 * ?h * b + (m - ?h)) - staged k x s (2 * ?h * b + (m - ?h) + ?h) * twiddle (2 * ?h) ^ (m - ?h)"
      using y [of i] y [of "i - ?h"] False i bm by (simp add: less_imp_diff_less)
    also have "\<dots> = staged k x (Suc s) i" using staged_Suc [OF s m, of x b] False bm mq by simp
    finally show ?thesis using c by simp
  qed
qed

lemma fft_from_staged:
  assumes "length y = 2 ^ k" "s \<le> k" "\<And>i. i < length y \<Longrightarrow> y ! i = staged k x s i" "i < length y"
  shows "fft_from (2 ^ Suc s) y ! i = staged k x k i"
  using assms
proof (induction "k - s" arbitrary: s y i)
  case 0
  then show ?case by (simp add: fft_from.simps)
next
  case (Suc d)
  have s: "s < k" using Suc.hyps(2) by simp
  then have "(2 :: nat) ^ Suc s \<le> length y" using Suc.prems(1) by (metis Suc_leI one_le_numeral power_increasing)
  then have "fft_from (2 ^ Suc s) y = fft_from (2 ^ Suc (Suc s)) (fft_stage (twiddle (2 ^ Suc s)) (2 ^ Suc s) 0 y)"
    by (subst fft_from.simps) simp
  moreover have "fft_stage (twiddle (2 ^ Suc s)) (2 ^ Suc s) 0 y ! j = staged k x (Suc s) j" if "j < length y" for j
    by (rule stage_staged [OF Suc.prems(1) s Suc.prems(3) that])
  ultimately show ?case using Suc.hyps(1) [of "Suc s"] Suc.hyps(2) Suc.prems(1,4) s by simp
qed

lemma fft_nth:
  assumes n: "length x = 2 ^ k" and m: "m < length x"
  shows "fft x ! m = dft x m"
proof -
  have "bit_reverse x ! i = staged k x 0 i" if "i < length x" for i
    using bit_reverse_nth [OF n that] by (simp add: staged_def)
  then have "fft_from (2 ^ Suc 0) (bit_reverse x) ! m = staged k x k m"
    using bit_reverse_nth [OF n m] n m by (intro fft_from_staged) simp_all
  then show ?thesis using n m by (simp add: fft_def staged_def dft_def twiddle_power mult_ac)
qed

lemma bit_reverse_length [simp]: "length (bit_reverse x) = length x"
proof -
  have "length (snd (fold (swap_step n) is (j, x))) = length x" for n "is" j
  proof (induction "is" arbitrary: j x)
    case (Cons i "is")
    obtain j' y where "swap_step n i (j, x) = (j', y)" "length y = length x"
      by (auto simp: swap_step_def Let_def split: if_splits intro: that)
    then show ?case using Cons [of j' y] by simp
  qed simp
  then show ?thesis by (simp add: bit_reverse_def)
qed

lemma fft_from_length [simp]: "length (fft_from size' x) = length x"
  by (induction size' x rule: fft_from.induct) (subst fft_from.simps, simp)

text \<open>C12: The in-place transform is the discrete Fourier transform: for any sequence whose length is a power of two the swaps and the butterflies leave, in order, the sums that define it.\<close>
theorem fft_is_dft:
  assumes "length x = 2 ^ k"
  shows "fft x = map (dft x) [0..<length x]"
  by (rule nth_equalityI) (simp_all add: fft_def fft_nth [OF assms, unfolded fft_def])

theorem fft_is_dft_witness: "fft [1, 2, 3, 4] ! 0 = 10 \<and> fft [1, 2, 3, 4] ! 2 = - 2"
proof -
  let ?x = "[1, 2, 3, 4] :: complex list"
  have "fft ?x = map (dft ?x) [0..<length ?x]" by (rule fft_is_dft [where k = 2]) simp
  then have "fft ?x ! m = dft ?x m" if "m < length ?x" for m using that by (simp only: nth_map length_upt nth_upt) simp
  then have "fft ?x ! 0 = dft ?x 0" "fft ?x ! 2 = dft ?x 2" by simp_all
  moreover have "cis (- (pi * 3)) = - 1" "cis (- (pi * 2)) = 1" "cis (- pi) = - 1"
    using cis_mult [of "- (2 * pi)" "- pi"] by (simp_all add: complex_eq_iff mult.commute)
  ultimately show ?thesis by (simp add: dft_def lessThan_Suc eval_nat_numeral)
qed

end
