(* ===== verification/Quality.thy ===== *)
theory Quality
  imports Fft Codec
begin

text \<open>
  The comparison of what a leg heard with the reference that should have arrived, \<open>media/quality.go\<close>:
  level envelopes, alignment, spectrograms and the score. The code computes in 64-bit floating
  point; here every \<open>float64\<close> is an exact real, so rounding errors are the one thing left out. The
  infinities the code starts its searches from are \<open>None\<close>.
\<close>

section \<open>The program\<close>

record Quality =
  Score :: real
  Offset :: duration
  Compared :: duration
  Gaps :: duration
  ClippedStart :: duration
  Gain :: real

abbreviation envBlock :: nat where "envBlock \<equiv> 80"
abbreviation specFrame :: nat where "specFrame \<equiv> 256"
abbreviation specHop :: nat where "specHop \<equiv> 128"
abbreviation bandLo :: nat where "bandLo \<equiv> 10"
abbreviation bandHi :: nat where "bandHi \<equiv> 108"
abbreviation floorDB :: real where "floorDB \<equiv> - 100"
abbreviation activeRange :: real where "activeRange \<equiv> 40"
abbreviation activeMin :: real where "activeMin \<equiv> - 55"
abbreviation gapDrop :: real where "gapDrop \<equiv> 20"

definition toDB :: "real \<Rightarrow> real" where
  "toDB p = (if p \<le> 0 then floorDB else max (10 * log 10 p) floorDB)"

text \<open>\<open>float64(v) / math.MaxInt16\<close>.\<close>

definition sample_val :: "i16 \<Rightarrow> real" where
  "sample_val v = real_of_int (sint v) / 32767"

definition envelope :: "i16 list \<Rightarrow> real list" where
  "envelope x =
     map (\<lambda>i. toDB ((\<Sum>v \<leftarrow> take envBlock (drop (i * envBlock) x). sample_val v * sample_val v) / real envBlock))
       [0..<length x div envBlock]"

definition speech :: "real list \<Rightarrow> nat list" where
  "speech levels =
     (if levels = [] then []
      else (let peak = Max (set levels)
            in filter (\<lambda>i. levels ! i \<ge> activeMin \<and> levels ! i \<ge> peak - activeRange) [0..<length levels]))"

definition samplesDur :: "nat \<Rightarrow> duration" where
  "samplesDur n = int n * 1000000000 div sampleRate"

text \<open>The loop that three routines share: the product and the energies of two sequences.\<close>

definition products :: "real list \<Rightarrow> real list \<Rightarrow> real \<times> real \<times> real" where
  "products xs ys = fold (\<lambda>(a, b) (d, e1, e2). (d + a * b, e1 + a * a, e2 + b * b)) (zip xs ys) (0, 0, 0)"

definition cosine :: "real list \<Rightarrow> real list \<Rightarrow> real option" where
  "cosine xs ys =
     (let (d, e1, e2) = products xs ys in if e1 = 0 \<or> e2 = 0 then None else Some (d / sqrt (e1 * e2)))"

definition mean :: "real list \<Rightarrow> real" where
  "mean a = sum_list a / real (length a)"

definition pearson :: "real list \<Rightarrow> real list \<Rightarrow> real" where
  "pearson a b =
     (let n = min (length a) (length b); a' = take n a; b' = take n b
      in if n < 2 then 0
         else case cosine (map (\<lambda>x. x - mean a') a') (map (\<lambda>x. x - mean b') b') of
           None \<Rightarrow> 0 | Some c \<Rightarrow> c)"

definition variance :: "real list \<Rightarrow> real" where
  "variance a = (if a = [] then 0 else (\<Sum>x \<leftarrow> a. (x - mean a) * (x - mean a)) / real (length a))"

text \<open>\<open>None\<close> is plus infinity.\<close>

definition meanAbsDiff :: "real list \<Rightarrow> real list \<Rightarrow> real option" where
  "meanAbsDiff a b =
     (let n = min (length a) (length b)
      in if n = 0 then None else Some ((\<Sum>i \<leftarrow> [0..<n]. \<bar>a ! i - b ! i\<bar>) / real n))"

text \<open>\<open>s > bestScore\<close>, where \<open>None\<close> is minus infinity.\<close>

definition better :: "real option \<Rightarrow> real option \<Rightarrow> bool" where
  "better s t = (case s of None \<Rightarrow> False | Some a \<Rightarrow> (case t of None \<Rightarrow> True | Some b \<Rightarrow> a > b))"

definition pick :: "real option \<Rightarrow> nat \<Rightarrow> nat \<times> real option \<Rightarrow> nat \<times> real option" where
  "pick s l st = (if better s (snd st) then (l, s) else st)"

text \<open>The first search of \<open>align\<close>, over the envelopes.\<close>

definition align_envelope :: "i16 list \<Rightarrow> i16 list \<Rightarrow> nat" where
  "align_envelope ref heard =
     (let re = envelope ref; he = envelope heard;
          last = length he - length re;
          stationary = variance re < 1
      in fst (fold (\<lambda>l. pick (if stationary then map_option uminus (meanAbsDiff re (drop l he))
                               else Some (pearson re (drop l he))) l)
                [0..<Suc last] (0, None)))"

definition align_step :: "i16 list \<Rightarrow> i16 list \<Rightarrow> nat \<Rightarrow> int \<Rightarrow> nat \<times> real option \<Rightarrow> nat \<times> real option" where
  "align_step ref heard best d st =
     (let n = min (length ref) (nat sampleRate); l = int (best * envBlock) + d
      in if l < 0 \<or> l + int n > int (length heard) then st
         else case cosine (map (\<lambda>v. real_of_int (sint v)) (take n ref))
                     (map (\<lambda>v. real_of_int (sint v)) (take n (drop (nat l) heard))) of
           None \<Rightarrow> st
         | Some c \<Rightarrow> pick (Some c) (nat l) st)"

definition around :: "int list" where
  "around = [- int envBlock..int envBlock]"

definition align :: "i16 list \<Rightarrow> i16 list \<Rightarrow> nat" where
  "align ref heard =
     (let best = align_envelope ref heard
      in fst (fold (align_step ref heard best) around (best * envBlock, None)))"

definition hann :: "nat \<Rightarrow> real" where
  "hann i = 1 / 2 - 1 / 2 * cos (2 * pi * real i / real (specFrame - 1))"

text \<open>The frame at index \<open>f\<close>: the windowed samples, the level, and the row of band powers.\<close>

definition frame_samples :: "i16 list \<Rightarrow> nat \<Rightarrow> real list" where
  "frame_samples x f = map (\<lambda>i. sample_val (x ! (f * specHop + i))) [0..<specFrame]"

definition frame_buf :: "i16 list \<Rightarrow> nat \<Rightarrow> complex list" where
  "frame_buf x f = fft (map (\<lambda>i. complex_of_real (frame_samples x f ! i * hann i)) [0..<specFrame])"

definition band_bins :: "nat list" where
  "band_bins = [bandLo..<Suc bandHi]"

definition frame_row :: "i16 list \<Rightarrow> nat \<Rightarrow> real list" where
  "frame_row x f =
     map (\<lambda>k. toDB (cmod (frame_buf x f ! k) * cmod (frame_buf x f ! k) / real specFrame)) band_bins"

definition frame_level :: "i16 list \<Rightarrow> nat \<Rightarrow> real" where
  "frame_level x f = toDB ((\<Sum>v \<leftarrow> frame_samples x f. v * v) / real specFrame)"

definition spectrogram :: "i16 list \<Rightarrow> real list list \<times> real list" where
  "spectrogram x =
     (let frames = (length x - specFrame) div specHop + 1
      in (map (frame_row x) [0..<frames], map (frame_level x) [0..<frames]))"

text \<open>\<open>math.Round\<close>: half away from zero.\<close>

definition go_round :: "real \<Rightarrow> int" where
  "go_round x = (if 0 \<le> x then \<lfloor>x + 1 / 2\<rfloor> else \<lceil>x - 1 / 2\<rceil>)"

text \<open>The closure \<open>centre\<close> of \<open>spectralScore\<close>: every band without its mean over the active frames.\<close>

definition centre :: "nat \<Rightarrow> real list list \<Rightarrow> nat list \<Rightarrow> real list list" where
  "centre bins s active =
     (let m = map (\<lambda>k. \<Sum>i \<leftarrow> active. s ! i ! k / real (length active)) [0..<bins]
      in map (\<lambda>i. map (\<lambda>k. s ! i ! k - m ! k) [0..<bins]) active)"

text \<open>Under 2 dB of change over the active frames.\<close>

definition stationary :: "real list list \<Rightarrow> nat list \<Rightarrow> bool" where
  "stationary ref active =
     (let bins = length (ref ! 0)
      in (\<Sum>v \<leftarrow> concat (centre bins ref active). v * v) / real (length active * bins) < 4)"

definition spectralScore :: "real list list \<Rightarrow> real list list \<Rightarrow> nat list \<Rightarrow> real" where
  "spectralScore ref heard active =
     (let bins = length (ref ! 0);
          rc = concat (centre bins ref active); hc = concat (centre bins heard active)
      in if stationary ref active
         then go_round ((\<Sum>i \<leftarrow> active. max (pearson (ref ! i) (heard ! i)) 0) / real (length active) * 1000) / 1000
         else case cosine rc hc of None \<Rightarrow> 0 | Some c \<Rightarrow> go_round (max c 0 * 1000) / 1000)"

definition gap_step :: "real list \<Rightarrow> real list \<Rightarrow> real \<Rightarrow> nat \<Rightarrow> nat \<times> nat \<times> bool \<Rightarrow> nat \<times> nat \<times> bool" where
  "gap_step re he gain i st =
     (let (gaps, clipped, leading) = st
      in if he ! i < re ! i + gain - gapDrop
         then (gaps + 1, if leading then clipped + 1 else clipped, leading)
         else (gaps, clipped, False))"

definition heard_under :: "i16 list \<Rightarrow> i16 list \<Rightarrow> nat \<Rightarrow> i16 list" where
  "heard_under ref heard lag =
     (let s = (if lag < length heard then take (length ref) (drop lag heard) else [])
      in s @ replicate (length ref - length s) 0)"

definition Compare :: "i16 list \<Rightarrow> i16 list \<Rightarrow> Quality option" where
  "Compare ref heard =
     (if length ref < specFrame \<or> length heard < specFrame then None
      else
        (let lag = align ref heard;
             seg = heard_under ref heard lag;
             compared = min (length ref) (length heard - lag);
             (rs, rl) = spectrogram ref;
             (hs, hl) = spectrogram seg;
             active = speech rl
         in if active = [] then None
            else
              (let re = envelope ref; he = envelope seg; blocks = speech re;
                   diffs = sort (map (\<lambda>i. he ! i - re ! i) (filter (\<lambda>i. he ! i > floorDB + 10) blocks));
                   gain = (if diffs = [] then 0 else diffs ! (length diffs div 2));
                   (gaps, clipped, leading) = fold (gap_step re he gain) blocks (0, 0, True);
                   gain' = (if diffs = [] then floorDB else gain);
                   block = samplesDur envBlock
               in Some \<lparr>Score = spectralScore rs hs active, Offset = samplesDur lag,
                    Compared = samplesDur compared, Gaps = int gaps * block,
                    ClippedStart = int clipped * block, Gain = go_round (gain' * 10) / 10\<rparr>)))"

section \<open>Correlation\<close>

lemma fold_products:
  "fold (\<lambda>(a, b) (d, e1, e2). (d + a * b, e1 + a * a, e2 + b * b)) ps (d, e1, e2) =
     (d + (\<Sum>(a, b) \<leftarrow> ps. a * b), e1 + (\<Sum>(a, b) \<leftarrow> ps. a * a), e2 + (\<Sum>(a, b) \<leftarrow> ps. b * b))"
  for d :: real
  by (induction ps arbitrary: d e1 e2) auto

lemma products_sums:
  "products xs ys =
     ((\<Sum>(a, b) \<leftarrow> zip xs ys. a * b), (\<Sum>(a, b) \<leftarrow> zip xs ys. a * a), (\<Sum>(a, b) \<leftarrow> zip xs ys. b * b))"
  by (simp only: products_def fold_products add_0)

lemma sum_squares_nonneg: "0 \<le> (\<Sum>(a, b) \<leftarrow> ps. b * b)" "0 \<le> (\<Sum>(a, b) \<leftarrow> ps. a * a)" for ps :: "(real \<times> real) list"
  by (induction ps) auto

lemma sum_squares_zero: "(\<Sum>(a, b) \<leftarrow> ps. b * b) = 0 \<Longrightarrow> (\<Sum>(a, b) \<leftarrow> ps. a * b) = 0" for ps :: "(real \<times> real) list"
proof (induction ps)
  case (Cons p ps)
  obtain a b where p: "p = (a, b)" by fastforce
  have "0 \<le> (\<Sum>(a, b) \<leftarrow> ps. b * b)" "0 \<le> b * b" by (simp_all only: sum_squares_nonneg zero_le_square)
  moreover have "b * b + (\<Sum>(a, b) \<leftarrow> ps. b * b) = 0" using Cons.prems by (simp add: p)
  ultimately have "b = 0" "(\<Sum>(a, b) \<leftarrow> ps. b * b) = 0" by (auto simp only: add_nonneg_eq_0_iff mult_eq_0_iff)
  then show ?case using Cons.IH by (simp add: p)
qed simp

lemma Cauchy_Schwarz:
  "(\<Sum>(a, b) \<leftarrow> ps. a * b)\<^sup>2 \<le> (\<Sum>(a, b) \<leftarrow> ps. a * a) * (\<Sum>(a, b) \<leftarrow> ps. b * b)" for ps :: "(real \<times> real) list"
proof -
  define D A B where "D = (\<Sum>(a, b) \<leftarrow> ps. a * b)" and "A = (\<Sum>(a, b) \<leftarrow> ps. a * a)" and "B = (\<Sum>(a, b) \<leftarrow> ps. b * b)"
  have "0 \<le> (\<Sum>(a, b) \<leftarrow> ps. (B * a - D * b)\<^sup>2)" by (rule sum_list_nonneg) auto
  also have "(\<Sum>(a, b) \<leftarrow> ps. (u * a - v * b)\<^sup>2) =
      u\<^sup>2 * (\<Sum>(a, b) \<leftarrow> ps. a * a) - 2 * u * v * (\<Sum>(a, b) \<leftarrow> ps. a * b) + v\<^sup>2 * (\<Sum>(a, b) \<leftarrow> ps. b * b)" for u v
    by (induction ps) (auto simp: power2_eq_square algebra_simps)
  finally have "0 \<le> B * (A * B - D\<^sup>2)"
    unfolding D_def [symmetric] A_def [symmetric] B_def [symmetric] by (simp add: power2_eq_square algebra_simps)
  moreover have "0 \<le> B" "B = 0 \<Longrightarrow> D = 0"
    unfolding B_def D_def by (rule sum_squares_nonneg, rule sum_squares_zero)
  ultimately show ?thesis
    unfolding D_def [symmetric] A_def [symmetric] B_def [symmetric] by (cases "B = 0") (auto simp: zero_le_mult_iff)
qed

lemma cosine_bounds: "cosine xs ys = Some c \<Longrightarrow> - 1 \<le> c \<and> c \<le> 1"
proof -
  assume c: "cosine xs ys = Some c"
  define D A B where "D = (\<Sum>(a, b) \<leftarrow> zip xs ys. a * b)" and "A = (\<Sum>(a, b) \<leftarrow> zip xs ys. a * a)"
    and "B = (\<Sum>(a, b) \<leftarrow> zip xs ys. b * b)"
  have p: "products xs ys = (D, A, B)" by (simp only: products_sums D_def A_def B_def)
  have "A \<noteq> 0" "B \<noteq> 0" "c = D / sqrt (A * B)" using c by (auto simp: cosine_def p split: if_splits)
  moreover have "0 \<le> A" "0 \<le> B" unfolding A_def B_def by (simp_all only: sum_squares_nonneg)
  moreover have "\<bar>D\<bar> \<le> sqrt (A * B)"
    using Cauchy_Schwarz [of "zip xs ys"] unfolding D_def [symmetric] A_def [symmetric] B_def [symmetric]
    by (rule real_le_rsqrt [of "\<bar>D\<bar>", simplified])
  ultimately show ?thesis by (auto simp: abs_le_iff divide_le_eq le_divide_eq)
qed

lemma products_same: "length xs = length ys \<Longrightarrow> fst (snd (products xs ys)) = (\<Sum>x \<leftarrow> xs. x * x)"
proof -
  have "length xs = length ys \<Longrightarrow> (\<Sum>(a, b) \<leftarrow> zip xs ys. a * a) = (\<Sum>x \<leftarrow> xs. x * x)"
    by (induction xs ys rule: list_induct2) simp_all
  then show "length xs = length ys \<Longrightarrow> ?thesis" by (simp add: products_sums)
qed

lemma products_snd: "length xs = length ys \<Longrightarrow> snd (snd (products xs ys)) = (\<Sum>y \<leftarrow> ys. y * y)"
proof -
  have "length xs = length ys \<Longrightarrow> (\<Sum>(a, b) \<leftarrow> zip xs ys. b * b) = (\<Sum>y \<leftarrow> ys. y * y)"
    by (induction xs ys rule: list_induct2) simp_all
  then show "length xs = length ys \<Longrightarrow> ?thesis" by (simp add: products_sums)
qed

lemma cosine_zero:
  "length xs = length ys \<Longrightarrow> (\<Sum>x \<leftarrow> xs. x * x) = 0 \<or> (\<Sum>y \<leftarrow> ys. y * y) = 0 \<Longrightarrow> cosine xs ys = None"
  using products_same [of xs ys] products_snd [of xs ys] by (cases "products xs ys") (auto simp: cosine_def)

lemma cosine_self: "cosine xs xs = (if (\<Sum>x \<leftarrow> xs. x * x) = 0 then None else Some 1)"
proof -
  have "(\<Sum>(a, b) \<leftarrow> zip xs xs. a * b) = (\<Sum>x \<leftarrow> xs. x * x)" by (induction xs) simp_all
  then have "products xs xs = ((\<Sum>x \<leftarrow> xs. x * x), (\<Sum>x \<leftarrow> xs. x * x), (\<Sum>x \<leftarrow> xs. x * x))"
    using products_same [of xs xs] products_snd [of xs xs] by (simp add: products_sums)
  moreover have "0 \<le> (\<Sum>x \<leftarrow> xs. x * x)" by (induction xs) simp_all
  ultimately show ?thesis by (simp add: cosine_def)
qed

lemma pearson_bounds: "- 1 \<le> pearson a b \<and> pearson a b \<le> 1"
  by (auto simp: pearson_def Let_def split: option.splits dest: cosine_bounds)

lemma sum_squares_zero_iff: "(\<Sum>x \<leftarrow> xs. x * x) = 0 \<longleftrightarrow> (\<forall>x \<in> set xs. x = 0)" for xs :: "real list"
proof (induction xs)
  case (Cons x xs)
  have "0 \<le> (\<Sum>x \<leftarrow> xs. x * x)" by (induction xs) simp_all
  then show ?case using Cons by (auto simp: add_nonneg_eq_0_iff)
qed simp

text \<open>A row is flat when all its values are equal; there is nothing to correlate then.\<close>

definition flat :: "real list \<Rightarrow> bool" where
  "flat a \<longleftrightarrow> (\<forall>x \<in> set a. x = a ! 0)"

lemma mean_const: "a \<noteq> [] \<Longrightarrow> \<forall>x \<in> set a. x = c \<Longrightarrow> mean a = c"
proof -
  assume a: "a \<noteq> []" "\<forall>x \<in> set a. x = c"
  then have "a = replicate (length a) c" by (simp add: replicate_eqI)
  then have "sum_list a = real (length a) * c" by (metis sum_list_replicate of_nat_mult)
  then show ?thesis using a(1) by (simp add: mean_def)
qed

lemma centred_zero: "a \<noteq> [] \<Longrightarrow> (\<Sum>x \<leftarrow> map (\<lambda>x. x - mean a) a. x * x) = 0 \<longleftrightarrow> flat a"
proof -
  assume a: "a \<noteq> []"
  have "(\<Sum>x \<leftarrow> map (\<lambda>x. x - mean a) a. x * x) = 0 \<longleftrightarrow> (\<forall>x \<in> set a. x = mean a)"
    unfolding sum_squares_zero_iff by simp
  also have "\<dots> \<longleftrightarrow> flat a"
  proof
    assume "\<forall>x \<in> set a. x = mean a"
    moreover from this have "a ! 0 = mean a" using a by simp
    ultimately show "flat a" by (simp add: flat_def)
  next
    assume f: "flat a"
    then have "mean a = a ! 0" using mean_const [OF a, of "a ! 0"] by (simp add: flat_def)
    then show "\<forall>x \<in> set a. x = mean a" using f by (simp add: flat_def)
  qed
  finally show ?thesis .
qed

lemma pearson_self: "2 \<le> length a \<Longrightarrow> pearson a a = (if flat a then 0 else 1)"
proof -
  assume "2 \<le> length a"
  then have "a \<noteq> []" and p: "pearson a a = (case cosine (map (\<lambda>x. x - mean a) a) (map (\<lambda>x. x - mean a) a) of None \<Rightarrow> 0 | Some c \<Rightarrow> c)"
    by (auto simp: pearson_def Let_def)
  then show ?thesis unfolding p cosine_self centred_zero [OF \<open>a \<noteq> []\<close>] by simp
qed

lemma pearson_flat: "length a = length b \<Longrightarrow> flat b \<Longrightarrow> pearson a b = 0"
proof -
  assume a: "length a = length b" "flat b"
  show ?thesis
  proof (cases "b = []")
    case False
    have "cosine (map (\<lambda>x. x - mean a) a) (map (\<lambda>x. x - mean b) b) = None"
      by (rule cosine_zero) (simp_all only: centred_zero [OF False] a length_map simp_thms)
    then show ?thesis using a by (simp add: pearson_def Let_def)
  qed (use a in \<open>simp add: pearson_def\<close>)
qed

section \<open>Rounding and gaps\<close>

lemma go_round_unit: "0 \<le> x \<Longrightarrow> x \<le> 1 \<Longrightarrow> 0 \<le> real_of_int (go_round (x * 1000)) / 1000 \<and> real_of_int (go_round (x * 1000)) / 1000 \<le> 1"
proof -
  assume x: "0 \<le> x" "x \<le> 1"
  have "0 \<le> \<lfloor>x * 1000 + 1 / 2\<rfloor>" using x by (simp add: le_floor_iff)
  moreover have "\<lfloor>x * 1000 + 1 / 2\<rfloor> < 1001" using x by (simp add: floor_less_iff)
  ultimately show ?thesis using x by (simp add: go_round_def)
qed

lemma go_round_int [simp]: "go_round (real_of_int n) = n"
  by (simp add: go_round_def floor_eq_iff ceiling_eq_iff)

lemma sum_list_le_length: "(\<And>x. x \<in> set xs \<Longrightarrow> f x \<le> 1) \<Longrightarrow> (\<Sum>x \<leftarrow> xs. f x) \<le> real (length xs)" for f :: "'a \<Rightarrow> real"
  by (induction xs) force+

lemma spectralScore_bounds: "active \<noteq> [] \<Longrightarrow> 0 \<le> spectralScore rs hs active \<and> spectralScore rs hs active \<le> 1"
proof -
  assume a: "active \<noteq> []"
  have "0 \<le> (\<Sum>i \<leftarrow> active. max (pearson (rs ! i) (hs ! i)) 0)" by (rule sum_list_nonneg) auto
  moreover have "(\<Sum>i \<leftarrow> active. max (pearson (rs ! i) (hs ! i)) 0) \<le> real (length active)"
    by (rule sum_list_le_length) (simp add: pearson_bounds)
  ultimately have "0 \<le> (\<Sum>i \<leftarrow> active. max (pearson (rs ! i) (hs ! i)) 0) / real (length active)"
    "(\<Sum>i \<leftarrow> active. max (pearson (rs ! i) (hs ! i)) 0) / real (length active) \<le> 1"
    using a by (simp_all add: divide_le_eq)
  note stationary = go_round_unit [OF this]
  have "0 \<le> real_of_int (go_round (max c 0 * 1000)) / 1000 \<and> real_of_int (go_round (max c 0 * 1000)) / 1000 \<le> 1"
    if "cosine r h = Some c" for r h c
    using cosine_bounds [OF that] by (intro go_round_unit) auto
  then show ?thesis using stationary by (auto simp: spectralScore_def Let_def split: option.split)
qed

lemma fold_gaps:
  assumes "fold (gap_step re he gain) blocks (g, c, l) = (g', c', l')" "c \<le> g"
  shows "c' \<le> g' \<and> g' \<le> g + length blocks"
  using assms
proof (induction blocks arbitrary: g c l)
  case (Cons b blocks)
  obtain g1 c1 l1 where s: "gap_step re he gain b (g, c, l) = (g1, c1, l1)" by (cases "gap_step re he gain b (g, c, l)")
  then have "c1 \<le> g1" "g1 \<le> Suc g" using Cons.prems(2) by (auto simp: gap_step_def split: if_splits)
  then show ?case using Cons.IH [of g1 c1 l1] Cons.prems(1) s by auto
qed simp

lemma speech_subset: "i \<in> set (speech levels) \<Longrightarrow> i < length levels \<and> activeMin \<le> levels ! i"
  by (auto simp: speech_def Let_def split: if_splits)

lemma speech_length: "length (speech levels) \<le> length levels"
  using length_filter_le [of "\<lambda>i. levels ! i \<ge> activeMin \<and> levels ! i \<ge> Max (set levels) - activeRange" "[0..<length levels]"]
  by (simp add: speech_def Let_def)

lemma envelope_length [simp]: "length (envelope x) = length x div envBlock"
  by (simp add: envelope_def)

lemma samplesDur_eq: "samplesDur n = int n * 125000"
  by (simp add: samplesDur_def)

section \<open>The verdict is in range\<close>

text \<open>What a verdict is made of.\<close>

lemma Compare_Some:
  assumes "Compare ref heard = Some q"
  defines "seg \<equiv> heard_under ref heard (align ref heard)"
  obtains gaps clipped leading diffs where
    "specFrame \<le> length ref" "specFrame \<le> length heard"
    "speech (snd (spectrogram ref)) \<noteq> []"
    "diffs = sort (map (\<lambda>i. envelope seg ! i - envelope ref ! i)
       (filter (\<lambda>i. envelope seg ! i > floorDB + 10) (speech (envelope ref))))"
    "fold (gap_step (envelope ref) (envelope seg) (if diffs = [] then 0 else diffs ! (length diffs div 2)))
       (speech (envelope ref)) (0, 0, True) = (gaps, clipped, leading)"
    "q = \<lparr>Score = spectralScore (fst (spectrogram ref)) (fst (spectrogram seg)) (speech (snd (spectrogram ref))),
        Offset = samplesDur (align ref heard),
        Compared = samplesDur (min (length ref) (length heard - align ref heard)),
        Gaps = int gaps * samplesDur envBlock, ClippedStart = int clipped * samplesDur envBlock,
        Gain = go_round ((if diffs = [] then floorDB else diffs ! (length diffs div 2)) * 10) / 10\<rparr>"
proof -
  have seg: "heard_under ref heard (align ref heard) = seg" by (simp add: seg_def)
  have "specFrame \<le> length ref" "specFrame \<le> length heard" "speech (snd (spectrogram ref)) \<noteq> []"
    using assms(1) by (auto simp: Compare_def Let_def split_beta split: if_splits)
  then show ?thesis
    using assms(1) by (intro that [OF _ _ _ refl prod.collapse [symmetric, THEN trans, OF arg_cong2 [OF refl prod.collapse, of Pair, symmetric]]])
      (simp_all add: Compare_def Let_def split_beta seg cong: if_cong)
qed

text \<open>A verdict is in range whatever was heard: the score lies between 0 and 1, the recording starts at or after its beginning, no more than the reference is compared, and the clipped start is part of the gaps, which are at most as long as the reference.\<close>
theorem quality_bounds:
  assumes "Compare ref heard = Some q"
  shows "0 \<le> Score q \<and> Score q \<le> 1 \<and> 0 \<le> Offset q \<and> 0 \<le> Compared q \<and> Compared q \<le> samplesDur (length ref) \<and>
    0 \<le> ClippedStart q \<and> ClippedStart q \<le> Gaps q \<and> Gaps q \<le> samplesDur (length ref)"
  using assms
proof (rule Compare_Some)
  fix gaps clipped leading and diffs :: "real list"
  assume active: "speech (snd (spectrogram ref)) \<noteq> []"
    and gaps: "fold (gap_step (envelope ref) (envelope (heard_under ref heard (align ref heard)))
          (if diffs = [] then 0 else diffs ! (length diffs div 2))) (speech (envelope ref)) (0, 0, True) = (gaps, clipped, leading)"
    and q: "q = \<lparr>Score = spectralScore (fst (spectrogram ref)) (fst (spectrogram (heard_under ref heard (align ref heard)))) (speech (snd (spectrogram ref))),
        Offset = samplesDur (align ref heard), Compared = samplesDur (min (length ref) (length heard - align ref heard)),
        Gaps = int gaps * samplesDur envBlock, ClippedStart = int clipped * samplesDur envBlock,
        Gain = go_round ((if diffs = [] then floorDB else diffs ! (length diffs div 2)) * 10) / 10\<rparr>"
  have "clipped \<le> gaps" "gaps \<le> length (speech (envelope ref))" using fold_gaps [OF gaps] by simp_all
  moreover have "length (speech (envelope ref)) \<le> length ref div 80" using speech_length [of "envelope ref"] by simp
  ultimately have "clipped \<le> gaps" "gaps * 80 \<le> length ref" by auto
  then show ?thesis using spectralScore_bounds [OF active] by (simp add: q samplesDur_eq)
qed

section \<open>The reference against itself\<close>

lemma align_envelope_self: "align_envelope x x = 0"
  by (simp add: align_envelope_def pick_def Let_def)

lemma align_step_before: "d < 0 \<Longrightarrow> align_step x y 0 d st = st"
  by (simp add: align_step_def)

lemma fold_align_before: "\<forall>d \<in> set ds. d < 0 \<Longrightarrow> fold (align_step x y 0) ds st = st"
  by (induction ds) (simp_all add: align_step_before)

text \<open>At offset 0 the reference matches itself, and nothing later matches better.\<close>

lemma fold_align_after: "\<forall>d \<in> set ds. 0 \<le> d \<Longrightarrow> st = (0, Some 1) \<Longrightarrow> fold (align_step x y 0) ds st = (0, Some 1)"
proof (induction ds)
  case (Cons d ds)
  have "align_step x y 0 d (0, Some 1) = (0, Some 1)"
    by (auto simp: align_step_def pick_def better_def Let_def split: option.split dest: cosine_bounds)
  then show ?case using Cons by simp
qed simp

lemma align_self: "align x x = 0"
proof -
  have split: "around = [- 80..- 1] @ 0 # [1..80]"
    using upto_split1 [of "- 80" 0 80] upto_rec1 [of 0 80] by (simp add: around_def)
  let ?n = "min (length x) (nat sampleRate)"
  let ?v = "map (\<lambda>v. real_of_int (sint v)) (take ?n x)"
  have before: "fold (align_step x x 0) [- 80..- 1] st = st" for st by (rule fold_align_before) auto
  show ?thesis
  proof (cases "(\<Sum>v \<leftarrow> ?v. v * v) = 0")
    case True
    have "align_step x x 0 d st = st" for d st
    proof (cases "d < 0 \<or> d + int ?n > int (length x)")
      case False
      then have "cosine ?v (map (\<lambda>v. real_of_int (sint v)) (take ?n (drop (nat d) x))) = None"
        using True by (intro cosine_zero) auto
      then show ?thesis by (simp add: align_step_def Let_def)
    qed (auto simp: align_step_def)
    then have "fold (align_step x x 0) ds st = st" for ds st by (induction ds) simp_all
    then show ?thesis by (simp add: align_def align_envelope_self)
  next
    case False
    then have "align_step x x 0 0 (0, None) = (0, Some 1)"
      by (simp add: align_step_def cosine_self pick_def better_def Let_def)
    then have "fold (align_step x x 0) around (0, None) = (0, Some 1)"
      unfolding split by (simp add: before fold_align_after del: upto_rec_numeral)
    then show ?thesis by (simp add: align_def align_envelope_self)
  qed
qed

lemma heard_under_self: "x \<noteq> [] \<Longrightarrow> heard_under x x 0 = x"
  by (simp add: heard_under_def)

lemma fold_no_gap: "fold (gap_step re re 0) blocks (0, 0, l) = (0, 0, if blocks = [] then l else False)"
  by (induction blocks arbitrary: l) (auto simp: gap_step_def)

lemma band_bins [simp]: "length band_bins = 99" "k \<in> set band_bins \<Longrightarrow> k < specFrame"
  by (auto simp: band_bins_def simp del: upt_Suc)

lemma frame_row_length [simp]: "length (frame_row x f) = 99"
  by (simp add: frame_row_def)

lemma spectrogram_rows:
  "length (fst (spectrogram x)) = (length x - specFrame) div specHop + 1"
  "length (snd (spectrogram x)) = (length x - specFrame) div specHop + 1"
  "i < (length x - specFrame) div specHop + 1 \<Longrightarrow> fst (spectrogram x) ! i = frame_row x i"
  "i < (length x - specFrame) div specHop + 1 \<Longrightarrow> snd (spectrogram x) ! i = frame_level x i"
  by (simp_all add: spectrogram_def Let_def del: upt_Suc)

lemma sum_list_const: "(\<And>i. i \<in> set xs \<Longrightarrow> f i = c) \<Longrightarrow> (\<Sum>i \<leftarrow> xs. f i) = real (length xs) * c" for f :: "'a \<Rightarrow> real"
  by (induction xs) (auto simp: algebra_simps)

lemma spectralScore_self:
  assumes "active \<noteq> []" "\<And>i. i \<in> set active \<Longrightarrow> 2 \<le> length (rs ! i)"
  shows "spectralScore rs rs active = 1 \<or> stationary rs active \<and> (\<exists>i \<in> set active. flat (rs ! i))"
proof (cases "stationary rs active")
  case True
  have "spectralScore rs rs active = 1" if "\<And>i. i \<in> set active \<Longrightarrow> \<not> flat (rs ! i)"
  proof -
    have "(\<Sum>i \<leftarrow> active. max (pearson (rs ! i) (rs ! i)) 0) = real (length active) * 1"
      by (rule sum_list_const) (simp add: assms(2) that pearson_self)
    then have "(\<Sum>i \<leftarrow> active. max (pearson (rs ! i) (rs ! i)) 0) / real (length active) * 1000 = real_of_int 1000"
      using assms(1) by simp
    then show ?thesis using True go_round_int [of 1000] by (simp add: spectralScore_def Let_def)
  qed
  then show ?thesis using True by blast
next
  case False
  let ?rc = "concat (centre (length (rs ! 0)) rs active)"
  have "(\<Sum>v \<leftarrow> ?rc. v * v) \<noteq> 0" using False by (auto simp: stationary_def Let_def)
  then have "cosine ?rc ?rc = Some 1" by (simp add: cosine_self)
  then show ?thesis using False go_round_int [of 1000] by (simp add: spectralScore_def Let_def)
qed

lemma middle_zero: "\<forall>x \<in> set xs. x = 0 \<Longrightarrow> xs \<noteq> [] \<Longrightarrow> xs ! (length xs div 2) = 0" for xs :: "real list"
  using nth_mem [of "length xs div 2" xs] by (simp add: div_less_dividend)

text \<open>C11: The verdict on a perfect recording: heard against itself, a reference is found at offset 0 and compared in full, without gaps or a clipped start and at its own level, and it scores 1; only a reference whose spectrum hardly changes and is level in one of its frames can score less.\<close>
theorem compare_self:
  assumes "Compare ref ref = Some q"
  shows "Offset q = 0 \<and> Compared q = samplesDur (length ref) \<and> Gaps q = 0 \<and> ClippedStart q = 0 \<and>
    Gain q = (if speech (envelope ref) = [] then floorDB else 0) \<and>
    (Score q = 1 \<or> stationary (fst (spectrogram ref)) (speech (snd (spectrogram ref))) \<and>
       (\<exists>i \<in> set (speech (snd (spectrogram ref))). flat (fst (spectrogram ref) ! i)))"
  using assms
proof (rule Compare_Some, goal_cases)
  case (1 gaps clipped leading diffs)
  let ?active = "speech (snd (spectrogram ref))"
  have seg: "heard_under ref ref 0 = ref" using 1(1) by (intro heard_under_self) auto
  have all: "filter (\<lambda>i. envelope ref ! i > floorDB + 10) (speech (envelope ref)) = speech (envelope ref)"
    using speech_subset [of _ "envelope ref"] by (intro filter_True ballI) force
  have diffs: "diffs = sort (map (\<lambda>i. 0) (speech (envelope ref)))"
    using 1(4) by (simp only: align_self seg all) simp
  then have gain: "(if diffs = [] then 0 else diffs ! (length diffs div 2)) = 0"
    using middle_zero [of diffs] by auto
  then have gaps: "gaps = 0" "clipped = 0"
    using 1(5) by (simp_all add: align_self seg fold_no_gap)
  have "2 \<le> length (fst (spectrogram ref) ! i)" if "i \<in> set ?active" for i
    using speech_subset [OF that] by (simp add: spectrogram_rows)
  note score = spectralScore_self [OF 1(3) this]
  have "diffs = [] \<longleftrightarrow> speech (envelope ref) = []" using diffs by (metis length_0_conv length_map length_sort)
  then show ?case
    using 1(6) score gain gaps go_round_int [of "- 1000"] go_round_int [of 0] by (auto simp: align_self seg samplesDur_eq split: if_splits)
qed

section \<open>Silence\<close>

lemma toDB_0 [simp]: "toDB 0 = floorDB"
  by (simp add: toDB_def)

lemma heard_under_silence: "set heard \<subseteq> {0} \<Longrightarrow> heard_under ref heard lag = replicate (length ref) 0"
proof -
  assume "set heard \<subseteq> {0}"
  then have "set (heard_under ref heard lag) \<subseteq> {0}" "length (heard_under ref heard lag) = length ref"
    by (auto simp: heard_under_def Let_def dest!: in_set_takeD in_set_dropD)
  then show ?thesis by (intro replicate_eqI) auto
qed

lemma sample_val_0 [simp]: "sample_val 0 = 0"
  by (simp add: sample_val_def)

lemma envelope_silence: "i < n div envBlock \<Longrightarrow> envelope (replicate n 0) ! i = floorDB"
  by (simp add: envelope_def sum_list_replicate)

lemma frame_samples_nth:
  "f * specHop + specFrame \<le> length x \<Longrightarrow> i < specFrame \<Longrightarrow> frame_samples x f ! i = sample_val (x ! (f * specHop + i))"
  by (simp add: frame_samples_def)

lemma frame_buf_nth:
  assumes "f * specHop + specFrame \<le> length x" "k < specFrame"
  shows "frame_buf x f ! k =
    (\<Sum>j < specFrame. complex_of_real (sample_val (x ! (f * specHop + j)) * hann j) * cis (- 2 * pi * real j * real k / real specFrame))"
proof -
  let ?l = "map (\<lambda>i. complex_of_real (frame_samples x f ! i * hann i)) [0..<specFrame]"
  have "frame_buf x f ! k = dft ?l k"
    unfolding frame_buf_def using fft_nth [of ?l 8 k] assms(2) by simp
  also have "\<dots> = (\<Sum>j < specFrame. ?l ! j * cis (- 2 * pi * real j * real k / real specFrame))"
    by (simp add: dft_def)
  also have "\<dots> = (\<Sum>j < specFrame. complex_of_real (sample_val (x ! (f * specHop + j)) * hann j) * cis (- 2 * pi * real j * real k / real specFrame))"
    using assms(1) by (intro sum.cong refl) (simp add: frame_samples_nth)
  finally show ?thesis .
qed

text \<open>The frames of a signal lie within it.\<close>

lemma frame_fits: "specFrame \<le> n \<Longrightarrow> f < (n - specFrame) div specHop + 1 \<Longrightarrow> f * specHop + specFrame \<le> n"
proof -
  assume n: "specFrame \<le> n" "f < (n - specFrame) div specHop + 1"
  then have "f * specHop \<le> (n - specFrame) div specHop * specHop" by (intro mult_le_mono1) simp
  also have "\<dots> \<le> n - specFrame" by simp
  finally show ?thesis using n(1) by simp
qed

lemma frame_row_silence: "f * specHop + specFrame \<le> n \<Longrightarrow> frame_row (replicate n 0) f = replicate 99 floorDB"
  by (intro replicate_eqI) (auto simp: frame_row_def frame_buf_nth)

lemma flat_replicate [simp]: "flat (replicate n c)"
  by (cases n) (auto simp: flat_def)

lemma spectralScore_silence:
  assumes "active \<noteq> []" "\<And>i. i \<in> set active \<Longrightarrow> length (rs ! i) = 99 \<and> hs ! i = replicate 99 floorDB"
    "length (rs ! 0) = 99"
  shows "spectralScore rs hs active = 0"
proof -
  have "(\<Sum>i \<leftarrow> active. max (pearson (rs ! i) (hs ! i)) 0) = real (length active) * 0"
    by (rule sum_list_const) (simp add: assms(2) pearson_flat)
  moreover have "cosine (concat (centre 99 rs active)) (concat (centre 99 hs active)) = None"
  proof (rule cosine_zero)
    have "(\<Sum>i \<leftarrow> active. hs ! i ! k / real (length active)) = floorDB" if "k < 99" for k
      using sum_list_const [of active "\<lambda>i. hs ! i ! k / real (length active)" "floorDB / real (length active)"] assms(1,2) that
      by simp
    then have "v = 0" if "v \<in> set (concat (centre 99 hs active))" for v
      using that assms(2) by (auto simp: centre_def Let_def split: if_splits)
    then show "(\<Sum>x \<leftarrow> concat (centre 99 rs active). x * x) = 0 \<or> (\<Sum>y \<leftarrow> concat (centre 99 hs active). y * y) = 0"
      by (simp add: sum_squares_zero_iff)
    have "length (centre 99 s active) = length active \<and> (\<forall>r \<in> set (centre 99 s active). length r = 99)" for s
      by (auto simp: centre_def Let_def)
    moreover have "\<forall>r \<in> set rows. length r = 99 \<Longrightarrow> length (concat rows) = length rows * 99" for rows :: "real list list"
      by (induction rows) auto
    ultimately show "length (concat (centre 99 rs active)) = length (concat (centre 99 hs active))" by metis
  qed
  ultimately show ?thesis
    using go_round_int [of 0] assms(3) by (simp add: spectralScore_def Let_def)
qed

lemma fold_all_gaps:
  "\<forall>i \<in> set blocks. he ! i < re ! i + gain - gapDrop \<Longrightarrow>
   fold (gap_step re he gain) blocks (n, n, True) = (n + length blocks, n + length blocks, True)"
  by (induction blocks arbitrary: n) (simp_all add: gap_step_def)

text \<open>A dead line is reported as one: when nothing but digital silence was heard, every block of the reference's speech is a gap and clipped from its start, the level is the floor and the score is 0.\<close>
theorem compare_silence:
  assumes "Compare ref heard = Some q" "set heard \<subseteq> {0}"
  shows "Score q = 0 \<and> Gain q = floorDB \<and> ClippedStart q = Gaps q \<and>
    Gaps q = int (length (speech (envelope ref))) * 10000000"
  using assms(1)
proof (rule Compare_Some, goal_cases)
  case (1 gaps clipped leading diffs)
  let ?seg = "heard_under ref heard (align ref heard)"
  have seg: "?seg = replicate (length ref) 0" by (rule heard_under_silence [OF assms(2)])
  have he: "envelope ?seg ! i = floorDB \<and> activeMin \<le> envelope ref ! i" if "i \<in> set (speech (envelope ref))" for i
    using speech_subset [OF that] by (simp add: seg envelope_silence)
  have none: "filter (\<lambda>i. envelope ?seg ! i > floorDB + 10) (speech (envelope ref)) = []"
    using he by (simp add: filter_empty_conv)
  have diffs: "diffs = []" using 1(4) by (simp only: none) simp
  have "gaps = length (speech (envelope ref))" "clipped = length (speech (envelope ref))"
    using 1(5) fold_all_gaps [of "speech (envelope ref)" "envelope ?seg" "envelope ref" 0 0] he diffs by fastforce+
  moreover have "spectralScore (fst (spectrogram ref)) (fst (spectrogram ?seg)) (speech (snd (spectrogram ref))) = 0"
    using 1(1,3) frame_fits [OF 1(1)]
    by (intro spectralScore_silence) (auto dest!: speech_subset simp: spectrogram_rows seg frame_row_silence)
  ultimately show ?case
    using 1(6) diffs go_round_int [of "- 1000"] by (simp add: samplesDur_eq)
qed

section \<open>An example\<close>

text \<open>48 ms with one loud sample: two frames, the second with the sample where the window is closed.\<close>

definition click :: "i16 list" where
  "click = replicate 128 0 @ 32767 # replicate 255 0"

lemma click_length [simp]: "length click = 384"
  by (simp add: click_def)

lemma sint_max: "sint (32767 :: i16) = 32767"
  by simp

lemma click_nth: "i < 384 \<Longrightarrow> sample_val (click ! i) = (if i = 128 then 1 else 0)"
  by (auto simp: click_def nth_append nth_Cons' sample_val_def sint_max)

lemma sum_list_single: "c < n \<Longrightarrow> (\<Sum>i \<leftarrow> [0..<n]. if i = c then g else 0) = (g :: real)"
  by (simp add: interv_sum_list_conv_sum_set_nat)

lemma log_bounds: "- 4 \<le> log 10 (1 / 1024)" "- 3 \<le> log 10 (1 / 256)" "log 10 (1 / 256) \<le> 0"
proof -
  have "log 10 (1024 :: real) \<le> 4" "log 10 (256 :: real) \<le> 3"
    by (subst log_le_iff; simp)+
  then show "- 4 \<le> log 10 (1 / 1024)" "- 3 \<le> log 10 (1 / 256)" "log 10 (1 / 256) \<le> 0"
    by (simp_all add: log_divide)
qed

lemma click_frame: "f < 2 \<Longrightarrow> i < specFrame \<Longrightarrow> sample_val (click ! (f * specHop + i)) = (if i = 128 - f * 128 then 1 else 0)"
  by (auto simp: click_nth less_2_cases_iff)

lemma click_level: "f < 2 \<Longrightarrow> frame_level click f = 10 * log 10 (1 / 256)"
proof -
  assume f: "f < 2"
  have "(\<Sum>v \<leftarrow> frame_samples click f. v * v) = (\<Sum>i \<leftarrow> [0..<specFrame]. if i = 128 - f * 128 then 1 else 0)"
    unfolding frame_samples_def map_map
    by (rule arg_cong [where f = sum_list], rule map_cong [OF refl]) (simp add: click_frame f)
  also have "\<dots> = 1" by (rule sum_list_single) simp
  finally show ?thesis using log_bounds by (simp add: frame_level_def toDB_def)
qed

lemma click_row: "f < 2 \<Longrightarrow> frame_row click f = replicate 99 (toDB (hann (128 - f * 128) * hann (128 - f * 128) / real specFrame))"
proof -
  assume f: "f < 2"
  have "cmod (frame_buf click f ! k) = \<bar>hann (128 - f * 128)\<bar>" if k: "k < specFrame" for k
  proof -
    have "frame_buf click f ! k =
        (\<Sum>j < specFrame. complex_of_real (sample_val (click ! (f * specHop + j)) * hann j) * cis (- 2 * pi * real j * real k / real specFrame))"
      using f by (intro frame_buf_nth k) auto
    also have "\<dots> = (\<Sum>j < specFrame. if j = 128 - f * 128
        then complex_of_real (hann j) * cis (- 2 * pi * real j * real k / real specFrame) else 0)"
      by (intro sum.cong refl) (simp only: lessThan_iff click_frame [OF f] split: if_split, simp only: mult_1 mult_zero_left of_real_0 simp_thms, blast)
    also have "\<dots> = complex_of_real (hann (128 - f * 128)) * cis (- 2 * pi * real (128 - f * 128) * real k / real specFrame)"
      by (subst sum.delta) auto
    finally show ?thesis by (simp add: norm_mult)
  qed
  then show ?thesis by (intro replicate_eqI) (auto simp: frame_row_def)
qed

lemma hann_0: "hann 0 = 0"
  by (simp add: hann_def)

lemma hann_128: "1 / 2 \<le> hann 128"
proof -
  have "cos (2 * pi * 128 / 255 - pi) = - cos (2 * pi * 128 / 255)" by (simp only: cos_diff cos_pi sin_pi mult_zero_right mult_minus1_right add_0_right)
  moreover have "0 \<le> cos (2 * pi * 128 / 255 - pi)" by (rule cos_ge_zero) (auto simp: field_simps)
  ultimately show ?thesis by (simp add: hann_def)
qed

definition click_dB :: real where
  "click_dB = toDB (hann 128 * hann 128 / real specFrame)"

lemma click_dB: "- 40 \<le> click_dB"
proof -
  have "1 / 2 * (1 / 2) \<le> hann 128 * hann 128" using hann_128 by (intro mult_mono) simp_all
  then have le: "1 / 1024 \<le> hann 128 * hann 128 / 256" by simp
  then have "log 10 (1 / 1024) \<le> log 10 (hann 128 * hann 128 / 256)" by (subst log_le_cancel_iff) auto
  then have "- 4 \<le> log 10 (hann 128 * hann 128 / 256)" using log_bounds(1) by linarith
  moreover have "\<not> hann 128 * hann 128 / 256 \<le> 0" using le by linarith
  ultimately show ?thesis unfolding click_dB_def toDB_def by simp
qed

lemma click_spectrogram:
  "spectrogram click = ([replicate 99 click_dB, replicate 99 floorDB], [10 * log 10 (1 / 256), 10 * log 10 (1 / 256)])"
proof -
  have "[0..<(length click - specFrame) div specHop + 1] = [0, 1]" by (simp add: upt_conv_Cons)
  then show ?thesis by (simp add: spectrogram_def click_row click_level click_dB_def hann_0)
qed

lemma click_active: "speech (snd (spectrogram click)) = [0, 1]"
  using log_bounds by (simp add: click_spectrogram speech_def)

lemma click_varies: "\<not> stationary (fst (spectrogram click)) [0, 1]"
proof -
  let ?m = "(click_dB - 100) / 2"
  let ?d = "(click_dB + 100) / 2"
  have "centre 99 [replicate 99 click_dB, replicate 99 floorDB] [0, 1] = [replicate 99 ?d, replicate 99 (- ?d)]"
    by (auto simp: centre_def Let_def field_simps intro!: nth_equalityI simp del: replicate_Suc map_replicate)
  then have "(\<Sum>v \<leftarrow> concat (centre 99 (fst (spectrogram click)) [0, 1]). v * v) / real (2 * 99) = ?d * ?d"
    by (simp add: click_spectrogram sum_list_replicate)
  moreover have "30 * 30 \<le> ?d * ?d" using click_dB by (intro mult_mono) simp_all
  ultimately show ?thesis by (simp add: stationary_def click_spectrogram Let_def)
qed

lemma click_block:
  "i < 4 \<Longrightarrow> (\<Sum>v \<leftarrow> take envBlock (drop (i * envBlock) click). sample_val v * sample_val v) = (if i = 1 then 1 else 0)"
proof -
  assume i: "i < 4"
  have "take envBlock (drop (i * envBlock) click) = map (\<lambda>j. click ! (i * envBlock + j)) [0..<envBlock]"
    using i by (intro nth_equalityI) auto
  then have "(\<Sum>v \<leftarrow> take envBlock (drop (i * envBlock) click). sample_val v * sample_val v) =
      (\<Sum>j \<leftarrow> [0..<envBlock]. sample_val (click ! (i * envBlock + j)) * sample_val (click ! (i * envBlock + j)))"
    by (simp add: o_def del: upt_conv_Cons)
  also have "\<dots> = (\<Sum>j \<leftarrow> [0..<envBlock]. if j = 48 \<and> i = 1 then 1 else 0)"
  proof (intro arg_cong [where f = sum_list] map_cong refl)
    fix j assume "j \<in> set [0..<envBlock]"
    moreover have "i = 0 \<or> i = 1 \<or> i = 2 \<or> i = 3" using i by auto
    ultimately have "i * envBlock + j < 384" "i * envBlock + j = 128 \<longleftrightarrow> j = 48 \<and> i = 1" by auto
    then have "sample_val (click ! (i * envBlock + j)) = (if j = 48 \<and> i = 1 then 1 else 0)"
      using click_nth [of "i * envBlock + j"] by simp
    then show "sample_val (click ! (i * envBlock + j)) * sample_val (click ! (i * envBlock + j)) = (if j = 48 \<and> i = 1 then 1 else 0)"
      by simp
  qed
  also have "\<dots> = (if i = 1 then 1 else 0)"
  proof (cases "i = 1")
    case True
    then show ?thesis using sum_list_single [of 48 envBlock 1] by simp
  qed simp
  finally show ?thesis .
qed

lemma click_envelope: "speech (envelope click) = [1]"
proof -
  have "envelope click = map (\<lambda>i. toDB ((if i = 1 then 1 else 0) / 80)) [0..<4]"
    unfolding envelope_def by (intro map_cong) (simp_all add: click_block)
  then have e: "envelope click = [floorDB, toDB (1 / 80), floorDB, floorDB]" by (simp add: upt_conv_Cons)
  have "log 10 (1 / 1024) \<le> log 10 (1 / 80)" by (subst log_le_cancel_iff) auto
  then have "- 4 \<le> log 10 (1 / 80)" using log_bounds(1) by linarith
  then have "- 40 \<le> toDB (1 / 80)" by (simp add: toDB_def)
  then show ?thesis unfolding e by (simp add: speech_def)
qed

lemma click_compared: "specFrame \<le> length heard \<Longrightarrow> \<exists>q. Compare click heard = Some q"
  by (auto simp: Compare_def Let_def split_beta click_active)

theorem compare_self_witness:
  "\<exists>q. Compare click click = Some q \<and> Offset q = 0 \<and> Compared q = 48000000 \<and> Gaps q = 0 \<and> Gain q = 0 \<and> Score q = 1"
proof -
  obtain q where q: "Compare click click = Some q" using click_compared [of click] by auto
  then show ?thesis
    using compare_self [OF q] click_varies by (simp add: click_active click_envelope samplesDur_eq)
qed

theorem compare_silence_witness:
  "\<exists>q. Compare click (replicate 400 0) = Some q \<and> Score q = 0 \<and> Gain q = - 100 \<and> ClippedStart q = 10000000 \<and> Gaps q = 10000000"
proof -
  obtain q where q: "Compare click (replicate 400 0) = Some q" using click_compared [of "replicate 400 0"] by auto
  have "set (replicate 400 (0 :: i16)) \<subseteq> {0}" by (simp add: set_replicate_conv_if)
  from compare_silence [OF q this] show ?thesis using q by (simp add: click_envelope)
qed

theorem quality_bounds_witness:
  "\<exists>q. Compare click (replicate 400 0) = Some q \<and> 0 \<le> Score q \<and> Compared q \<le> 48000000 \<and> Gaps q \<le> 48000000"
proof -
  obtain q where q: "Compare click (replicate 400 0) = Some q" using click_compared [of "replicate 400 0"] by auto
  then show ?thesis using quality_bounds [OF q] by (simp add: samplesDur_eq)
qed

end
