(* ===== verification/CallMedia.thy ===== *)
theory CallMedia
  imports Invites Quality
begin

text \<open>
  The media side of a call as scripts see it, \<open>engine/callmedia.go\<close>: which options a call uses, the
  stream it opens, digits, statistics, and what becomes of its recording. The random identifiers
  and the port of a stream, the threshold computed from \<open>HeardLevel\<close> and the file system are
  parameters. A call's audio source is a handle, as the code compares and shares pointers.
\<close>

section \<open>Options\<close>

record 'a MediaOptions =
  Disabled :: bool
  Codecs_opt :: "Codec list"
  Audio_opt :: "'a option"
  HeardLevel :: real
  Record :: RecordMode
  RecordDir :: string

text \<open>The call's own options, or the device's, or the engine's.\<close>

definition mediaOptions :: "'a MediaOptions \<Rightarrow> 'a MediaOptions option \<Rightarrow> 'a MediaOptions option \<Rightarrow> 'a MediaOptions" where
  "mediaOptions eng dev override =
     (case override of Some mo \<Rightarrow> mo | None \<Rightarrow> (case dev of Some mo \<Rightarrow> mo | None \<Rightarrow> eng))"

text \<open>The mean square from which a frame counts as heard; the level 0 stands for -45 dBFS.\<close>

definition heard_threshold :: "real \<Rightarrow> int" where
  "heard_threshold level =
     (let l = (if level = 0 then - 45 else level); amp = 10 powr (l / 20) * 32767 in \<lfloor>amp * amp\<rfloor>)"

text \<open>\<open>load\<close> is the audio behind a handle.\<close>

definition newStream :: "new_env \<Rightarrow> ('a \<Rightarrow> Audio) \<Rightarrow> string \<Rightarrow> 'a MediaOptions \<Rightarrow> Stream" where
  "newStream env load ip mo =
     New (env\<lparr>envThr := heard_threshold (HeardLevel mo)\<rparr>)
       \<lparr>cfgIP = ip, cfgCodecs = Codecs_opt mo, cfgAudio = map_option load (Audio_opt mo), NoLatch = False,
        cfgRecord = (Record mo \<noteq> RecordOff)\<rparr>"

definition with_media :: "new_env \<Rightarrow> ('a \<Rightarrow> Audio) \<Rightarrow> string \<Rightarrow> 'a MediaOptions \<Rightarrow> Call \<Rightarrow> Call" where
  "with_media env load ip mo c =
     (if Disabled mo then c else useMedia (newStream env load ip mo) (Record mo) (RecordDir mo) c)"

section \<open>What scripts ask of a call\<close>

datatype media_call_error = NoMedia | NotRecorded | NotConnected | Dtmf dtmf_error | FileError string

definition call_codec :: "Call \<Rightarrow> string" where
  "call_codec c = (case media c of None \<Rightarrow> [] | Some s \<Rightarrow> codec_name s)"

text \<open>What a wait finds when it looks: it returns at once then, and otherwise goes on to wait.\<close>

definition heard_now :: "Call \<Rightarrow> bool" where
  "heard_now c = (case media c of None \<Rightarrow> False | Some s \<Rightarrow> heardCloses s > 0)"

definition digits_now :: "string \<Rightarrow> Call \<Rightarrow> bool" where
  "digits_now want c = (case media c of None \<Rightarrow> False | Some s \<Rightarrow> Contains (digits s) want)"

definition call_digits :: "Call \<Rightarrow> string" where
  "call_digits c = (case media c of None \<Rightarrow> [] | Some s \<Rightarrow> digits s)"

definition call_send_dtmf :: "string \<Rightarrow> duration \<Rightarrow> Call \<Rightarrow> media_call_error + Call" where
  "call_send_dtmf ds dur c =
     (case media c of None \<Rightarrow> Inl NoMedia
      | Some s \<Rightarrow>
          if state c \<noteq> StateConnected then Inl NotConnected
          else (case SendDTMF s ds dur of Inl e \<Rightarrow> Inl (Dtmf e) | Inr s' \<Rightarrow> Inr (c\<lparr>media := Some s'\<rparr>)))"

definition call_stats :: "Call \<Rightarrow> Stats option" where
  "call_stats c = map_option statsLocked (media c)"

section \<open>Recordings\<close>

definition call_recording :: "Call \<Rightarrow> media_call_error + Recording" where
  "call_recording c =
     (case media c of None \<Rightarrow> Inl NoMedia
      | Some s \<Rightarrow> (case recording_of (rec s) of None \<Rightarrow> Inl NotRecorded | Some r \<Rightarrow> Inr r))"

text \<open>What the file system says to the steps of \<open>SaveRecording\<close>.\<close>

record file_env =
  mkdirErr :: "string option"
  createErr :: "string option"
  writeErr :: "string option"
  closeErr :: "string option"

definition file_step :: "string option \<Rightarrow> media_call_error + 'x \<Rightarrow> media_call_error + 'x" where
  "file_step err r = (case err of Some e \<Rightarrow> Inl (FileError e) | None \<Rightarrow> r)"

text \<open>The bytes that end up in the file; \<open>has_dir\<close> says that the path names a directory.\<close>

definition SaveRecording :: "file_env \<Rightarrow> bool \<Rightarrow> Call \<Rightarrow> media_call_error + byte list" where
  "SaveRecording env has_dir c =
     (case call_recording c of Inl e \<Rightarrow> Inl e
      | Inr r \<Rightarrow>
          file_step (if has_dir then mkdirErr env else None)
            (file_step (createErr env)
              (file_step (writeErr env)
                (file_step (closeErr env) (Inr (WriteWAV r))))))"

definition CompareAudio :: "Audio \<Rightarrow> Call \<Rightarrow> media_call_error + Quality option" where
  "CompareAudio ref c = (case call_recording c of Inl e \<Rightarrow> Inl e | Inr r \<Rightarrow> Inr (Compare (pcm ref) (Heard r)))"

definition call_dir_str :: "CallDirection \<Rightarrow> string" where
  "call_dir_str d = (case d of Incoming \<Rightarrow> ''in'' | Outgoing \<Rightarrow> ''out'')"

text \<open>The name \<open>autoSave\<close> gives the file in the recording directory.\<close>

definition recording_name :: "string \<Rightarrow> Call \<Rightarrow> string" where
  "recording_name device c = fileSafe device @ ''_'' @ call_dir_str (cdir c) @ ''_'' @ fileSafe (callID c) @ ''.wav''"

text \<open>\<open>MarkFailed\<close>: a check failed. A call that has ended already is saved now.\<close>

definition MarkFailed :: "sys \<Rightarrow> sys" where
  "MarkFailed s =
     (let c1 = mark_failed (call s)
      in if state c1 = StateEnded
         then (let (c2, save) = autoSave c1 in s\<lparr>call := c2, events := events s @ (if save then [Saved] else [])\<rparr>)
         else s\<lparr>call := c1\<rparr>)"

section \<open>Where recordings go\<close>

lemma file_char_safe: "file_char r \<noteq> CHR ''/'' \<and> file_char r \<noteq> CHR 0x5C \<and> file_char r \<noteq> CHR 0x00"
  by (cases "r = CHR ''/'' \<or> r = CHR 0x5C \<or> r = CHR 0x00") (auto simp: file_char_def Let_def)

text \<open>A recording stays in its directory: whatever characters the device's name and the Call-ID a peer chose contain, the name the program gives the file has no path separator and is neither the directory itself nor its parent.\<close>
theorem recording_stays_inside:
  "CHR ''/'' \<notin> set (recording_name device c) \<and> CHR 0x5C \<notin> set (recording_name device c) \<and>
   CHR 0x00 \<notin> set (recording_name device c) \<and>
   recording_name device c \<noteq> ''.'' \<and> recording_name device c \<noteq> ''..''"
proof -
  have f: "CHR ''/'' \<notin> set (fileSafe x) \<and> CHR 0x5C \<notin> set (fileSafe x) \<and> CHR 0x00 \<notin> set (fileSafe x)" for x
    by (auto simp: fileSafe_def dest: file_char_safe [THEN conjunct1, THEN notE] file_char_safe [THEN conjunct2, THEN conjunct1, THEN notE]
        file_char_safe [THEN conjunct2, THEN conjunct2, THEN notE] sym)
  have "CHR ''_'' \<in> set (recording_name device c)" by (simp add: recording_name_def)
  then have "recording_name device c \<noteq> ''.''" "recording_name device c \<noteq> ''..''" by auto
  then show ?thesis using f by (auto simp: recording_name_def call_dir_str_def split: CallDirection.splits)
qed

section \<open>A failed call is recorded\<close>

lemma closeMedia_record:
  "media (fst (closeMedia b c)) = None \<longleftrightarrow> media c = None" "recMode (fst (closeMedia b c)) = recMode c"
  "recDir (fst (closeMedia b c)) = recDir c" "failed (fst (closeMedia b c)) = failed c"
  "saved c \<Longrightarrow> saved (fst (closeMedia b c))"
  using closeMedia_cases [of b c] by auto

lemma finish_tail_record:
  "media (call (finish_tail f k s)) = None \<longleftrightarrow> media (call s) = None" "recMode (call (finish_tail f k s)) = recMode (call s)"
  "recDir (call (finish_tail f k s)) = recDir (call s)" "failed (call (finish_tail f k s)) = failed (call s)"
  "saved (call s) \<Longrightarrow> saved (call (finish_tail f k s))"
  using closeMedia_record [where c = "call s" and b = "wasConnected f"]
  by (auto simp: finish_tail_def stopSession_def Let_def split_beta)

lemma begin_finish_record:
  "media (call (begin_finish by' st why' now s)) = media (call s)" "recMode (call (begin_finish by' st why' now s)) = recMode (call s)"
  "recDir (call (begin_finish by' st why' now s)) = recDir (call s)" "failed (call (begin_finish by' st why' now s)) = failed (call s)"
  by (auto simp: begin_finish_cases finish_lock_def Let_def)

lemma finish_record:
  "media (call (finish by' st why' now s)) = None \<longleftrightarrow> media (call s) = None" "recMode (call (finish by' st why' now s)) = recMode (call s)"
  "recDir (call (finish by' st why' now s)) = recDir (call s)" "failed (call (finish by' st why' now s)) = failed (call s)"
  by (auto simp: finish_def Let_def finish_tail_record begin_finish_record)

lemma autoSave_wanted:
  "media c \<noteq> None \<Longrightarrow> recDir c \<noteq> [] \<Longrightarrow> recMode c = RecordOnFailure \<Longrightarrow> failed c \<Longrightarrow> state c = StateEnded \<Longrightarrow>
   saved (fst (autoSave c))"
  by (auto simp: autoSave_def Let_def)

lemma closeMedia_saves:
  assumes "media c \<noteq> None" "recDir c \<noteq> []" "recMode c = RecordOnFailure" "failed c" "state c = StateEnded"
  shows "saved (fst (closeMedia b c))"
proof -
  obtain m where m: "media c = Some m" using assms(1) by blast
  have "saved (fst (autoSave (c\<lparr>media := Some (fst (Close m))\<rparr>)))"
    using assms by (intro autoSave_wanted) simp_all
  then show ?thesis by (simp add: closeMedia_def m split_beta)
qed

lemma finish_saves:
  assumes "state (call s) \<noteq> StateEnded" "media (call s) \<noteq> None" "recDir (call s) \<noteq> []" "recMode (call s) = RecordOnFailure"
    "failed (call s)"
  shows "saved (call (finish by' st why' now s))"
proof -
  let ?b = "begin_finish by' st why' now s"
  let ?f = "fst (the (fin ?b))"
  let ?s1 = "finish_tail ?f 1 (finish_tail ?f 0 ?b)"
  have ended: "state (call ?s1) = StateEnded"
    using assms(1) by (simp add: finish_tail_call begin_finish_cases finish_lock_def Let_def)
  have "saved (fst (closeMedia (wasConnected ?f) (call ?s1)))"
    using assms by (intro closeMedia_saves ended) (simp_all add: finish_tail_record begin_finish_record)
  then have "saved (call (finish_tail ?f 2 ?s1))" by (simp add: finish_tail_def [of _ 2] Let_def split_beta)
  then show ?thesis using assms(1) by (simp add: finish_def Let_def finish_tail_record)
qed

lemma MarkFailed_reach: "call_reach s0 s \<Longrightarrow> call_reach s0 (MarkFailed s)"
proof -
  assume s: "call_reach s0 s"
  then have m: "call_reach s0 (upd mark_failed s)" using cs_mark_failed by (rule cr_step)
  show ?thesis
  proof (cases "state (mark_failed (call s)) = StateEnded")
    case True
    obtain c save where a: "autoSave (mark_failed (call s)) = (c, save)" by fastforce
    then have "call_step (upd mark_failed s) ((upd mark_failed s)\<lparr>call := c, events := events (upd mark_failed s) @ (if save then [Saved] else [])\<rparr>)"
      using True by (intro cs_late_save) simp_all
    from cr_step [OF m this] show ?thesis using True a by (simp add: MarkFailed_def)
  qed (use m in \<open>simp add: MarkFailed_def\<close>)
qed

text \<open>C36: A call with \<open>record: 'onFailure'\<close> on which a check failed is saved exactly once, whether the check fails before the call ends or after it, and however the call ends.\<close>
theorem failed_call_saved:
  assumes "call_reach s0 s" "sys_init s0" "state (call s) \<noteq> StateEnded" "media (call s) \<noteq> None"
    "recMode (call s) = RecordOnFailure" "recDir (call s) \<noteq> []"
  shows "count_list (events (finish by' st why' now (MarkFailed s))) Saved = 1 \<and>
    count_list (events (MarkFailed (finish by' st why' now s))) Saved = 1"
proof
  have once: "count_list (events t) Saved = 1" if "call_reach s0 t" "saved (call t)" for t
    using call_reach_ok [OF that(1) assms(2)] that(2) by (simp add: sys_ok_def saved_ok_def)
  have before: "MarkFailed s = upd mark_failed s" using assms(3) by (simp add: MarkFailed_def mark_failed_def)
  have "saved (call (finish by' st why' now (upd mark_failed s)))"
    using assms(3-6) by (intro finish_saves) (simp_all add: mark_failed_def)
  then show "count_list (events (finish by' st why' now (MarkFailed s))) Saved = 1"
    using once [OF finish_reach [OF MarkFailed_reach [OF assms(1)]]] before by simp
  let ?t = "finish by' st why' now s"
  have "saved (fst (autoSave (mark_failed (call ?t))))"
    using assms(3-6) by (intro autoSave_wanted) (simp_all add: mark_failed_def finish_record finish_call)
  then have "saved (call (MarkFailed ?t))"
    by (simp add: MarkFailed_def mark_failed_def finish_call split_beta Let_def)
  then show "count_list (events (MarkFailed ?t)) Saved = 1"
    using once [OF MarkFailed_reach [OF finish_reach [OF assms(1)]]] by simp
qed

text \<open>A call with media that records on failure and is answered.\<close>

definition demo_new_env :: new_env where
  "demo_new_env = \<lparr>envPort = 40000, envSess = 2, envSsrc = 7, envSeq = 1, envTs = 0, envThr = 0, envNow = 0, envDefaultAudio = Silence\<rparr>"

definition demo_media :: "unit MediaOptions" where
  "demo_media = \<lparr>Disabled = False, Codecs_opt = [], Audio_opt = None, HeardLevel = 0, Record = RecordOnFailure, RecordDir = []\<rparr>"

definition demo_recorded :: sys where
  "demo_recorded = \<lparr>call = (with_media demo_new_env (\<lambda>_. Silence) ''10.0.0.1'' demo_media (newCall Outgoing 0))\<lparr>callID := ''a1''\<rparr>,
     fin = None, listed = True, events = []\<rparr>"

lemma demo_recorded_init: "sys_init demo_recorded"
  unfolding sys_init_def demo_recorded_def with_media_def
  by (auto simp: demo_media_def newStream_def New_def Let_def intro!: exI)

theorem failed_call_saved_witness:
  "count_list (events (MarkFailed (finish EndedByRemote 0 ''BYE'' 9 (upd (markConnected 5) demo_recorded)))) Saved = 1"
proof -
  let ?s = "upd (markConnected 5) demo_recorded"
  have "call_reach demo_recorded ?s" by (rule cr_step [OF cr_init cs_connected])
  moreover have "state (call ?s) \<noteq> StateEnded" "media (call ?s) \<noteq> None" "recMode (call ?s) = RecordOnFailure" "recDir (call ?s) \<noteq> []"
    by (simp_all add: demo_recorded_def with_media_def demo_media_def useMedia_def newCall_def markConnected_def)
  ultimately show ?thesis using failed_call_saved [OF _ demo_recorded_init] by blast
qed

end
