(* ===== verification/Wire.thy ===== *)
theory Wire
  imports GoLib
begin

text \<open>
  A device's SIP socket, \<open>engine/netio.go\<close>: \<open>countingConn\<close> counts the traffic of the process and
  reports the messages that the transaction layer writes again. A datagram is the string of its
  bytes. The socket itself is a parameter: a write takes the result the socket gave it, a read the
  datagram that arrived. The mutex is held for a whole \<open>checkRetransmission\<close>, so writes are a
  sequence of steps; the wall clock is an argument of each.
\<close>

section \<open>Which message it is\<close>

text \<open>\<open>bytes.Split(b, sep)\<close> for a separator that is not empty.\<close>

lemma Cut_length: "Cut s sep = (b, a, True) \<Longrightarrow> sep \<noteq> [] \<Longrightarrow> length a < length s"
  by (induction s sep arbitrary: b a rule: Cut.induct) (auto split: if_splits prod.splits)

function SplitOn :: "string \<Rightarrow> string \<Rightarrow> string list" where
  "SplitOn s sep =
     (if sep = [] then [s]
      else case Cut s sep of (b, a, found) \<Rightarrow> if found then b # SplitOn a sep else [s])"
  by pat_completeness auto
termination
  by (relation "measure (\<lambda>(s, sep). length s)") (auto dest: Cut_length [OF sym])

declare SplitOn.simps [simp del]

definition CRLF :: string where
  "CRLF = [CHR 0x0D, CHR 0x0A]"

text \<open>The branch of a Via value: what follows \<open>branch=\<close>, up to a semicolon, a comma or a space.\<close>

definition via_branch :: "string \<Rightarrow> string option" where
  "via_branch v =
     (case Index v ''branch='' of None \<Rightarrow> None
      | Some i \<Rightarrow> Some (takeWhile (\<lambda>c. c \<notin> set '';, '') (drop (i + 7) v)))"

text \<open>
  One line of the header loop: the first Via with a branch and the first CSeq count.
  \<open>bytes.TrimSpace\<close> returns nil for a blank value, so a blank CSeq does not.
\<close>

definition header_line :: "string \<Rightarrow> string option \<times> string option \<Rightarrow> string option \<times> string option" where
  "header_line l st =
     (let (branch, cseq) = st; (name, val, found) = Cut l '':'';
          name = ToLower (TrimSpace name)
      in if \<not> found then st
         else if branch = None \<and> (name = ''via'' \<or> name = ''v'') then (via_branch val, cseq)
         else if cseq = None \<and> name = ''cseq'' then
           (branch, let v = TrimSpace val in if v = [] then None else Some v)
         else st)"

text \<open>\<open>status*10 + int(ch-'0')\<close> over three bytes; the subtraction is on bytes.\<close>

definition status_digits :: "string \<Rightarrow> int" where
  "status_digits s = fold (\<lambda>ch n. n * 10 + (int (of_char ch) - 48) mod 256) s 0"

definition status_prefix :: string where
  "status_prefix = ''SIP/2.0 ''"

text \<open>The start line, the branch and the CSeq of a datagram that has them.\<close>

definition key_parts :: "string \<Rightarrow> (string \<times> string \<times> string) option" where
  "key_parts b =
     (let stop = (case Index b (CRLF @ CRLF) of None \<Rightarrow> length b | Some i \<Rightarrow> i);
          lines = SplitOn (take stop b) CRLF
      in if length lines < 2 then None
         else
           (case fold header_line (tl lines) (None, None) of
             (Some br, Some cs) \<Rightarrow> Some (hd lines, br, cs)
           | _ \<Rightarrow> None))"

definition key_of :: "string \<Rightarrow> string \<Rightarrow> string \<Rightarrow> string" where
  "key_of start br cs = take 16 start @ ''|'' @ br @ ''|'' @ cs"

definition cseq_method :: "string \<Rightarrow> string" where
  "cseq_method cs = TrimSpace (fst (snd (Cut cs '' '')))"

definition messageKey :: "string \<Rightarrow> (string \<times> string \<times> int) option" where
  "messageKey b =
     (case key_parts b of None \<Rightarrow> None
      | Some (start, br, cs) \<Rightarrow>
        (let method = cseq_method cs; key = key_of start br cs
         in if HasPrefix start status_prefix then
              (if length start < 11 then None
               else let status = status_digits (take 3 (drop 8 start))
                    in if status < 200 then None else Some (key, method, status))
            else Some (key, method, 0)))"

section \<open>The socket\<close>

record NetStats =
  PacketsIn :: u64
  PacketsOut :: u64
  BytesIn :: u64
  BytesOut :: u64

record retransmission =
  retransmitted :: string   \<comment> \<open>the method\<close>
  retransStatus :: int

definition retransmitMemory :: duration where
  "retransmitMemory = 40 * 1000000000"

text \<open>\<open>swept\<close> is the zero time, further back than any memory, until the first write.\<close>

record countingConn =
  seen :: "string \<rightharpoonup> time"
  swept :: "time option"

definition newCountingConn :: countingConn where
  "newCountingConn = \<lparr>seen = Map.empty, swept = None\<rparr>"

definition sweep_due :: "time \<Rightarrow> countingConn \<Rightarrow> bool" where
  "sweep_due now c = (case swept c of None \<Rightarrow> True | Some t \<Rightarrow> now - t > retransmitMemory)"

definition checkRetransmission :: "time \<Rightarrow> string \<Rightarrow> countingConn \<Rightarrow> countingConn \<times> retransmission option" where
  "checkRetransmission now b c =
     (case messageKey b of None \<Rightarrow> (c, None)
      | Some (key, method, status) \<Rightarrow>
        (let again = (seen c key \<noteq> None);
             m = (seen c)(key \<mapsto> now);
             c1 = (if sweep_due now c
                   then \<lparr>seen = (\<lambda>k. case m k of None \<Rightarrow> None | Some t \<Rightarrow> if now - t > retransmitMemory then None else Some t),
                         swept = Some now\<rparr>
                   else c\<lparr>seen := m\<rparr>)
         in (c1, if again then Some \<lparr>retransmitted = method, retransStatus = status\<rparr> else None)))"

text \<open>\<open>WriteTo\<close> with what the socket returned, \<open>ReadFrom\<close> with what it delivered.\<close>

definition WriteTo :: "int \<times> string option \<Rightarrow> time \<Rightarrow> string \<Rightarrow> NetStats \<times> countingConn \<Rightarrow>
    (NetStats \<times> countingConn) \<times> retransmission option" where
  "WriteTo res now b s =
     (let (n, err) = res; (st, c) = s
      in if err = None then
           (let (c1, ev) = checkRetransmission now b c
            in ((st\<lparr>PacketsOut := PacketsOut st + 1, BytesOut := BytesOut st + word_of_int n\<rparr>, c1), ev))
         else (s, None))"

definition ReadFrom :: "int \<Rightarrow> NetStats \<Rightarrow> NetStats" where
  "ReadFrom n st =
     (if n > 0 then st\<lparr>PacketsIn := PacketsIn st + 1, BytesIn := BytesIn st + word_of_int n\<rparr> else st)"

section \<open>What a key says\<close>

lemma separated_inj:
  "a @ d # b = a' @ d # b' \<Longrightarrow> d \<notin> set a \<Longrightarrow> d \<notin> set a' \<Longrightarrow> a = a' \<and> b = b'"
  by (induction a arbitrary: a') (case_tac [!] a', auto)

lemma messageKey_parts:
  assumes "messageKey b = Some (key, method, status)"
  obtains start br cs where "key_parts b = Some (start, br, cs)" "key = key_of start br cs" "method = cseq_method cs"
    "status = (if HasPrefix start status_prefix then status_digits (take 3 (drop 8 start)) else 0)"
    "HasPrefix start status_prefix \<longrightarrow> 11 \<le> length start"
proof -
  obtain start br cs where parts: "key_parts b = Some (start, br, cs)"
    using assms by (cases "key_parts b") (auto simp: messageKey_def)
  have "(if HasPrefix start status_prefix then
          (if length start < 11 then None
           else if status_digits (take 3 (drop 8 start)) < 200 then None
           else Some (key_of start br cs, cseq_method cs, status_digits (take 3 (drop 8 start))))
         else Some (key_of start br cs, cseq_method cs, 0)) = Some (key, method, status)"
    using assms unfolding messageKey_def parts option.case prod.case Let_def .
  then have "key = key_of start br cs \<and> method = cseq_method cs \<and>
      status = (if HasPrefix start status_prefix then status_digits (take 3 (drop 8 start)) else 0) \<and>
      (HasPrefix start status_prefix \<longrightarrow> 11 \<le> length start)"
    by (auto split: if_splits)
  then show ?thesis using parts by (intro that) blast+
qed

lemma status_of_take: "11 \<le> length start \<Longrightarrow> take 3 (drop 8 (take 16 start)) = take 3 (drop 8 start)"
  by (simp add: drop_take min_def)

lemma prefix_of_take: "HasPrefix (take 16 start) status_prefix \<longleftrightarrow> HasPrefix start status_prefix"
  by (simp add: HasPrefix_def status_prefix_def min_def)

text \<open>A retransmission is reported as the message it repeats: when the keys of two datagrams agree, so do their branch, CSeq, method and status, whatever their other headers and bodies, as long as no vertical bar stands in the start lines and branches; so a final response is never taken for another one, nor a request for a response.\<close>
theorem messageKey_identifies:
  assumes "messageKey a = Some (key, m1, s1)" "messageKey b = Some (key, m2, s2)"
    and parts: "key_parts a = Some (start1, br1, cs1)" "key_parts b = Some (start2, br2, cs2)"
    and plain: "CHR ''|'' \<notin> set start1 \<union> set start2 \<union> set br1 \<union> set br2"
  shows "br1 = br2 \<and> cs1 = cs2 \<and> m1 = m2 \<and> s1 = s2"
proof -
  have k1: "key = key_of start1 br1 cs1" and m1: "m1 = cseq_method cs1"
    and s1: "s1 = (if HasPrefix start1 status_prefix then status_digits (take 3 (drop 8 start1)) else 0)"
    and l1: "HasPrefix start1 status_prefix \<longrightarrow> 11 \<le> length start1"
    using messageKey_parts [OF assms(1)] parts(1) by (metis Pair_inject option.inject)+
  have k2: "key = key_of start2 br2 cs2" and m2: "m2 = cseq_method cs2"
    and s2: "s2 = (if HasPrefix start2 status_prefix then status_digits (take 3 (drop 8 start2)) else 0)"
    and l2: "HasPrefix start2 status_prefix \<longrightarrow> 11 \<le> length start2"
    using messageKey_parts [OF assms(2)] parts(2) by (metis Pair_inject option.inject)+
  have "CHR ''|'' \<notin> set (take 16 start1)" "CHR ''|'' \<notin> set (take 16 start2)"
    using plain by (auto dest: in_set_takeD)
  note bar = this
  have "take 16 start1 @ CHR ''|'' # (br1 @ CHR ''|'' # cs1) = take 16 start2 @ CHR ''|'' # (br2 @ CHR ''|'' # cs2)"
    using k1 k2 by (simp only: key_of_def append_Cons append_Nil)
  from separated_inj [OF this bar] have start: "take 16 start1 = take 16 start2"
    and "br1 @ CHR ''|'' # cs1 = br2 @ CHR ''|'' # cs2" by blast+
  from separated_inj [OF this(2)] have rest: "br1 = br2" "cs1 = cs2" using plain by blast+
  have "HasPrefix start1 status_prefix = HasPrefix start2 status_prefix"
    using prefix_of_take [of start1] prefix_of_take [of start2] start by simp
  moreover have "take 3 (drop 8 start1) = take 3 (drop 8 start2)" if "HasPrefix start1 status_prefix"
    using status_of_take [of start1] status_of_take [of start2] start l1 l2 that calculation by simp
  ultimately have "s1 = s2" using s1 s2 by auto
  then show ?thesis using rest m1 m2 by simp
qed

section \<open>What is reported\<close>

text \<open>A run of writes, latest last, and the times at which a key was written.\<close>

definition written :: "string \<Rightarrow> (time \<times> string) list \<Rightarrow> time set" where
  "written key ws = {t. \<exists>b m st. (t, b) \<in> set ws \<and> messageKey b = Some (key, m, st)}"

definition conn_after :: "(time \<times> string) list \<Rightarrow> countingConn" where
  "conn_after ws = fold (\<lambda>(now, b) c. fst (checkRetransmission now b c)) ws newCountingConn"

definition report_of :: "(time \<times> string) list \<Rightarrow> time \<Rightarrow> string \<Rightarrow> retransmission option" where
  "report_of ws now b = snd (checkRetransmission now b (conn_after ws))"

lemma conn_after_snoc: "conn_after (ws @ [(now, b)]) = fst (checkRetransmission now b (conn_after ws))"
  by (simp add: conn_after_def)

lemma written_snoc:
  "written key (ws @ [(now, b)]) = written key ws \<union> (case messageKey b of Some (k, _, _) \<Rightarrow> if k = key then {now} else {} | None \<Rightarrow> {})"
  by (auto simp: written_def split: option.splits)

text \<open>
  What the memory holds after the writes: only times at which the key was written, and for each
  of them that time or a later one, unless a sweep found it older than the memory. The last sweep is
  no longer ago than the memory, so nothing older than twice the memory is left.
\<close>

definition memory_ok :: "(time \<times> string) list \<Rightarrow> countingConn \<Rightarrow> bool" where
  "memory_ok ws c \<longleftrightarrow>
     (\<forall>key t. seen c key = Some t \<longrightarrow> t \<in> written key ws) \<and>
     (\<forall>key. \<forall>t \<in> written key ws. (\<exists>t' \<ge> t. seen c key = Some t') \<or> (\<exists>s. swept c = Some s \<and> s - t > retransmitMemory)) \<and>
     (\<forall>s. swept c = Some s \<longrightarrow> s \<in> fst ` set ws \<and> (\<forall>key t. seen c key = Some t \<longrightarrow> s - t \<le> retransmitMemory)) \<and>
     (swept c = None \<longrightarrow> seen c = Map.empty)"

text \<open>What a check leaves in memory, with and without a sweep.\<close>

lemma check_due:
  assumes "messageKey b = Some (key, m, st)" "sweep_due now c"
  shows "seen (fst (checkRetransmission now b c)) k' = (case ((seen c)(key \<mapsto> now)) k' of None \<Rightarrow> None
      | Some t \<Rightarrow> if now - t > retransmitMemory then None else Some t)"
    "swept (fst (checkRetransmission now b c)) = Some now"
  using assms by (simp_all add: checkRetransmission_def Let_def)

lemma check_not_due:
  assumes "messageKey b = Some (key, m, st)" "\<not> sweep_due now c"
  shows "seen (fst (checkRetransmission now b c)) = (seen c)(key \<mapsto> now)" "swept (fst (checkRetransmission now b c)) = swept c"
  using assms by (simp_all add: checkRetransmission_def Let_def)

text \<open>Before a sweep every write is in memory with its own time or a later one, unless an earlier sweep dropped it.\<close>

lemma entry_before_sweep:
  assumes "memory_ok ws c" "messageKey b = Some (key, m, st)" "t \<in> written k' (ws @ [(now, b)])" "\<forall>u \<in> written k' ws. u \<le> now"
  shows "(\<exists>t' \<ge> t. ((seen c)(key \<mapsto> now)) k' = Some t') \<or> (\<exists>s. swept c = Some s \<and> s - t > retransmitMemory)"
proof (cases "k' = key")
  case True
  then have "t \<le> now" using assms(2-4) by (auto simp: written_snoc split: if_splits)
  then show ?thesis using True by simp
next
  case False
  then have "t \<in> written k' ws" using assms(2,3) by (simp add: written_snoc)
  then show ?thesis using assms(1) False unfolding memory_ok_def by simp
qed

lemma memory_kept:
  assumes ok: "memory_ok ws c" and key: "messageKey b = Some (key, m, st)"
    and times: "\<forall>t \<in> fst ` set ws. t \<le> now" and t: "t \<in> written k' (ws @ [(now, b)])"
  defines "c' \<equiv> fst (checkRetransmission now b c)"
  shows "(\<exists>t' \<ge> t. seen c' k' = Some t') \<or> (\<exists>s. swept c' = Some s \<and> s - t > retransmitMemory)"
proof -
  have "\<forall>u \<in> written k' ws. u \<le> now" using times by (force simp: written_def)
  note entry = entry_before_sweep [OF ok key t this]
  show ?thesis
  proof (cases "sweep_due now c")
    case True
    show ?thesis
    proof (cases "now - t > retransmitMemory")
      case False
      have "s \<le> now" if "swept c = Some s" for s using ok times that by (auto simp: memory_ok_def)
      then obtain t' where "t \<le> t'" "((seen c)(key \<mapsto> now)) k' = Some t'" using entry False by force
      then show ?thesis using check_due(1) [OF key True, of k'] False by (auto simp: c'_def)
    qed (use check_due(2) [OF key True] in \<open>simp add: c'_def\<close>)
  next
    case False
    then show ?thesis using entry check_not_due [OF key False] by (simp add: c'_def)
  qed
qed

lemma memory_recent:
  assumes ok: "memory_ok ws c" and key: "messageKey b = Some (key, m, st)" and times: "\<forall>t \<in> fst ` set ws. t \<le> now"
  defines "c' \<equiv> fst (checkRetransmission now b c)"
  assumes s: "swept c' = Some s"
  shows "s \<in> fst ` set (ws @ [(now, b)]) \<and> (\<forall>k' t. seen c' k' = Some t \<longrightarrow> s - t \<le> retransmitMemory)"
proof -
  have pos: "0 < retransmitMemory" by (simp add: retransmitMemory_def)
  show ?thesis
  proof (cases "sweep_due now c")
    case True
    then have "s = now" using s check_due(2) [OF key True] by (simp add: c'_def)
    then show ?thesis using check_due(1) [OF key True] pos by (auto simp: c'_def split: option.splits if_splits)
  next
    case False
    then have "swept c = Some s" using s check_not_due(2) [OF key False] by (simp add: c'_def)
    moreover have "s - now \<le> retransmitMemory" using ok times pos calculation by (fastforce simp: memory_ok_def)
    ultimately show ?thesis using ok check_not_due(1) [OF key False] by (auto simp: c'_def memory_ok_def)
  qed
qed

lemma memory_step:
  assumes ok: "memory_ok ws c" and times: "\<forall>t \<in> fst ` set ws. t \<le> now"
  shows "memory_ok (ws @ [(now, b)]) (fst (checkRetransmission now b c))"
proof (cases "messageKey b")
  case None
  then show ?thesis using ok by (auto simp: memory_ok_def checkRetransmission_def written_snoc)
next
  case (Some p)
  obtain key m st where key: "messageKey b = Some (key, m, st)" using Some by (cases p) auto
  let ?c = "fst (checkRetransmission now b c)"
  have wr: "written k' (ws @ [(now, b)]) = written k' ws \<union> (if k' = key then {now} else {})" for k'
    using key by (simp add: written_snoc)
  have old: "(k' = key \<and> t = now) \<or> seen c k' = Some t" if "seen ?c k' = Some t" for k' t
    using that check_due(1) [OF key, of now c k'] check_not_due(1) [OF key, of now c]
    by (cases "sweep_due now c") (auto split: option.splits if_splits)
  have from_writes: "t \<in> written k' (ws @ [(now, b)])" if "seen ?c k' = Some t" for k' t
    using old [OF that] ok wr by (auto simp: memory_ok_def)
  have swept: "swept ?c \<noteq> None"
  proof (cases "sweep_due now c")
    case True
    then show ?thesis by (simp only: check_due(2) [OF key True]) simp
  next
    case False
    then have "swept c \<noteq> None" by (cases "swept c") (simp_all add: sweep_due_def)
    then show ?thesis using check_not_due(2) [OF key False] by simp
  qed
  show ?thesis
    unfolding memory_ok_def
  proof (intro conjI allI ballI impI)
    fix k' t assume "seen ?c k' = Some t"
    then show "t \<in> written k' (ws @ [(now, b)])" by (rule from_writes)
  next
    fix k' t assume "t \<in> written k' (ws @ [(now, b)])"
    then show "(\<exists>t' \<ge> t. seen ?c k' = Some t') \<or> (\<exists>s. swept ?c = Some s \<and> s - t > retransmitMemory)"
      by (rule memory_kept [OF ok key times])
  next
    fix s assume "swept ?c = Some s"
    from memory_recent [OF ok key times this] show "s \<in> fst ` set (ws @ [(now, b)])" by (rule conjunct1)
  next
    fix s k' t assume "swept ?c = Some s" "seen ?c k' = Some t"
    then show "s - t \<le> retransmitMemory" using memory_recent [OF ok key times] by blast
  qed (use swept in simp)
qed

lemma memory_always:
  "sorted (map fst ws) \<Longrightarrow> memory_ok ws (conn_after ws)"
proof (induction ws rule: rev_induct)
  case Nil
  then show ?case by (simp add: memory_ok_def conn_after_def newCountingConn_def written_def)
next
  case (snoc p ws)
  obtain now b where p: "p = (now, b)" by fastforce
  have "sorted (map fst ws)" "\<forall>t \<in> fst ` set ws. t \<le> now" using snoc.prems p by (auto simp: sorted_append)
  then show ?case unfolding p conn_after_snoc using snoc.IH by (intro memory_step) auto
qed

text \<open>Writing datagrams without a key (provisional responses, keep-alives) leaves the memory as it is.\<close>

lemma keyless_writes:
  "list_all (\<lambda>w. messageKey (snd w) = None) us \<Longrightarrow> conn_after (ws @ us) = conn_after ws"
proof (induction us rule: rev_induct)
  case (snoc u us)
  obtain now b where u: "u = (now, b)" by fastforce
  have "messageKey b = None" "conn_after (ws @ us) = conn_after ws" using snoc by (simp_all add: u)
  then show ?case using conn_after_snoc [of "ws @ us" now b] by (simp add: u checkRetransmission_def)
qed simp

text \<open>C35: Retransmissions are reported exactly: over any sequence of writes a datagram is reported when one with
  its key was written within the last 40 seconds and never when its key is new, and the memory this takes is
  bounded: whatever datagrams without a key are written later (they do not touch the memory), everything
  remembered was last written at most 80 seconds before the last write of a datagram with a key.\<close>

theorem retransmissions_reported:
  assumes "sorted (map fst (ws @ [(now, b)]))" "messageKey b = Some (key, m, st)"
    and "list_all (\<lambda>w. messageKey (snd w) = None) us"
  shows "((\<exists>t \<in> written key ws. now - t \<le> retransmitMemory) \<longrightarrow>
      report_of ws now b = Some \<lparr>retransmitted = m, retransStatus = st\<rparr>) \<and>
    (written key ws = {} \<longrightarrow> report_of ws now b = None) \<and>
    (seen (conn_after (ws @ [(now, b)] @ us)) k = Some t \<longrightarrow> now - t \<le> 2 * retransmitMemory)"
proof (intro conjI)
  have times: "sorted (map fst ws)" "\<forall>t \<in> fst ` set ws. t \<le> now" using assms(1) by (auto simp: sorted_append)
  have ok: "memory_ok ws (conn_after ws)" by (rule memory_always [OF times(1)])
  have report: "report_of ws now b = (if seen (conn_after ws) key = None then None else Some \<lparr>retransmitted = m, retransStatus = st\<rparr>)"
    using assms(2) by (simp add: report_of_def checkRetransmission_def Let_def)
  show "(\<exists>t \<in> written key ws. now - t \<le> retransmitMemory) \<longrightarrow> report_of ws now b = Some \<lparr>retransmitted = m, retransStatus = st\<rparr>"
  proof
    assume "\<exists>t \<in> written key ws. now - t \<le> retransmitMemory"
    then obtain t where t: "t \<in> written key ws" "now - t \<le> retransmitMemory" by blast
    have "(\<exists>t' \<ge> t. seen (conn_after ws) key = Some t') \<or> (\<exists>s. swept (conn_after ws) = Some s \<and> s - t > retransmitMemory)"
      using ok t(1) unfolding memory_ok_def by blast
    moreover have "s \<le> now" if "swept (conn_after ws) = Some s" for s using ok that times(2) by (auto simp: memory_ok_def)
    ultimately show "report_of ws now b = Some \<lparr>retransmitted = m, retransStatus = st\<rparr>" using report t(2) by force
  qed
  have "t \<in> written key ws" if "seen (conn_after ws) key = Some t" for t
    using ok that by (simp add: memory_ok_def)
  then show "written key ws = {} \<longrightarrow> report_of ws now b = None"
    using report by (cases "seen (conn_after ws) key") auto
  have same: "conn_after (ws @ [(now, b)] @ us) = conn_after (ws @ [(now, b)])"
    using keyless_writes [OF assms(3), of "ws @ [(now, b)]"] by simp
  show "seen (conn_after (ws @ [(now, b)] @ us)) k = Some t \<longrightarrow> now - t \<le> 2 * retransmitMemory"
    unfolding same
  proof
    assume t: "seen (conn_after (ws @ [(now, b)])) k = Some t"
    let ?c = "conn_after (ws @ [(now, b)])"
    have ok': "memory_ok (ws @ [(now, b)]) ?c" by (rule memory_always [OF assms(1)])
    then obtain s where s: "swept ?c = Some s" "s - t \<le> retransmitMemory" using t by (cases "swept ?c") (auto simp: memory_ok_def)
    have "now - s \<le> retransmitMemory"
      using s(1) assms(2) by (auto simp: conn_after_snoc checkRetransmission_def Let_def sweep_due_def retransmitMemory_def split: option.splits if_splits)
    then show "now - t \<le> 2 * retransmitMemory" using s(2) by simp
  qed
qed

section \<open>An example\<close>

definition demo_invite :: string where
  "demo_invite = ''INVITE sip:7 SIP/2.0'' @ CRLF @ ''Via: SIP/2.0/UDP h;branch=z1;rport'' @ CRLF @ ''CSeq: 1 INVITE'' @ CRLF @ CRLF"

definition demo_ok :: string where
  "demo_ok = ''SIP/2.0 200 OK'' @ CRLF @ ''v: SIP/2.0/UDP h;branch=z1'' @ CRLF @ ''To: a'' @ CRLF @ ''cseq:  1 INVITE'' @ CRLF @ CRLF @ ''v=0''"

lemma demo_keys:
  "key_parts demo_invite = Some (''INVITE sip:7 SIP/2.0'', ''z1'', ''1 INVITE'')"
  "messageKey demo_invite = Some (''INVITE sip:7 SIP|z1|1 INVITE'', ''INVITE'', 0)"
  "key_parts demo_ok = Some (''SIP/2.0 200 OK'', ''z1'', ''1 INVITE'')"
  "messageKey demo_ok = Some (''SIP/2.0 200 OK|z1|1 INVITE'', ''INVITE'', 200)"
  by code_simp+

text \<open>The same request with another header and a body.\<close>

definition demo_again :: string where
  "demo_again = ''INVITE sip:7 SIP/2.0'' @ CRLF @ ''To: a'' @ CRLF @ ''CSEQ :1 INVITE'' @ CRLF @ ''VIA: SIP/2.0/UDP h;branch=z1'' @ CRLF @ CRLF @ ''v=0''"

lemma demo_again_keys:
  "key_parts demo_again = Some (''INVITE sip:7 SIP/2.0'', ''z1'', ''1 INVITE'')"
  "messageKey demo_again = Some (''INVITE sip:7 SIP|z1|1 INVITE'', ''INVITE'', 0)"
  by code_simp+

theorem messageKey_identifies_witness:
  "\<exists>br cs m st. map_option snd (key_parts demo_invite) = Some (br, cs) \<and> map_option snd (key_parts demo_again) = Some (br, cs) \<and>
     map_option snd (messageKey demo_invite) = Some (m, st) \<and> map_option snd (messageKey demo_again) = Some (m, st)"
  using messageKey_identifies [OF demo_keys(2) demo_again_keys(2) demo_keys(1) demo_again_keys(1)]
  by (simp add: demo_keys demo_again_keys)

theorem retransmissions_reported_witness:
  "report_of [(0, demo_invite)] 500000000 demo_again = Some \<lparr>retransmitted = ''INVITE'', retransStatus = 0\<rparr> \<and>
   report_of [] 0 demo_invite = None"
proof
  have times: "sorted (map fst ([(0 :: time, demo_invite)] @ [(500000000, demo_again)]))" "sorted (map fst ([] @ [(0 :: time, demo_invite)]))"
    by simp_all
  have keyless: "list_all (\<lambda>w. messageKey (snd w) = None) [(1000000000000 :: time, ''x'')]" by code_simp
  have "0 \<in> written ''INVITE sip:7 SIP|z1|1 INVITE'' [(0, demo_invite)]" by (auto simp: written_def demo_keys)
  moreover have "(500000000 :: int) - 0 \<le> retransmitMemory" by (simp add: retransmitMemory_def)
  ultimately have "\<exists>t \<in> written ''INVITE sip:7 SIP|z1|1 INVITE'' [(0, demo_invite)]. 500000000 - t \<le> retransmitMemory" by blast
  with retransmissions_reported [OF times(1) demo_again_keys(2) keyless, THEN conjunct1]
  show "report_of [(0, demo_invite)] 500000000 demo_again = Some \<lparr>retransmitted = ''INVITE'', retransStatus = 0\<rparr>" by (rule mp)
  have "written ''INVITE sip:7 SIP|z1|1 INVITE'' [] = {}" by (simp add: written_def)
  with retransmissions_reported [OF times(2) demo_keys(2) keyless, THEN conjunct2, THEN conjunct1]
  show "report_of [] 0 demo_invite = None" by (rule mp)
qed

end
