(* ===== verification/Metrics.thy ===== *)
theory Metrics
  imports Invites Quality Wire
begin

text \<open>
  From the engine's events to the samples of the load test: \<open>vuObserver\<close> of \<open>metrics.go\<close> and the
  events of \<open>engine/observer.go\<close>. The state of the virtual user (whether it is in an iteration, its
  tags, whether it is done) belongs to k6 and is an argument of every push. A value that the code
  converts to \<open>float64\<close> is an exact real.
\<close>

section \<open>Events\<close>

record RequestEvent =
  evMethod :: string
  evStatus :: int
  evDuration :: duration
  evErr :: "string option"

definition Failed :: "RequestEvent \<Rightarrow> bool" where
  "Failed e \<longleftrightarrow>
     (if evErr e \<noteq> None \<or> evStatus e = 0 then True
      else evStatus e \<ge> 300 \<and> evStatus e \<noteq> 401 \<and> evStatus e \<noteq> 407)"

record IncomingCallEvent =
  evCaller :: string
  evDelivery :: "duration option"

record FirstResponseEvent =
  frMethod :: string
  frDelay :: duration

section \<open>Samples\<close>

record sample =
  metric :: string
  tagged :: "string \<rightharpoonup> string"
  amount :: real

text \<open>The virtual user at a push: its tags, or \<open>None\<close> in the init context, and whether it is done.\<close>

record vu =
  vuTags :: "(string \<rightharpoonup> string) option"
  vuDone :: bool

record vuObserver =
  obsDevice :: string
  deviceTag :: bool

definition ms :: "duration \<Rightarrow> real" where
  "ms d = real_of_int d / 1000000"

definition push :: "vuObserver \<Rightarrow> vu \<Rightarrow> string \<Rightarrow> real \<Rightarrow> (string \<times> string) list \<Rightarrow> sample list" where
  "push ob v m x tg =
     (case vuTags v of None \<Rightarrow> []
      | Some base \<Rightarrow>
          (let t1 = (if deviceTag ob then base(''device'' \<mapsto> obsDevice ob) else base);
               t2 = fold (\<lambda>(k, w) t. t(k \<mapsto> w)) tg t1
           in if vuDone v then [] else [\<lparr>metric = m, tagged = t2, amount = x\<rparr>]))"

definition on_Request :: "vuObserver \<Rightarrow> vu \<Rightarrow> RequestEvent \<Rightarrow> sample list" where
  "on_Request ob v e =
     (let status = (if evStatus e = 0 then ''timeout'' else Itoa (evStatus e));
          tg = [(''method'', evMethod e), (''status'', status)]
      in push ob v ''sip_requests'' 1 tg @
         (if evStatus e \<noteq> 0 then push ob v ''sip_request_duration'' (ms (evDuration e)) tg else []) @
         push ob v ''sip_failed_requests'' (if Failed e then 1 else 0) [(''method'', evMethod e)] @
         (if evMethod e = ''REGISTER'' \<and> evStatus e = 200 then push ob v ''sip_registrations'' 1 [] else []))"

definition on_CallSetup :: "vuObserver \<Rightarrow> vu \<Rightarrow> setupEvent \<Rightarrow> sample list" where
  "on_CallSetup ob v e =
     (let status = Itoa (suStatus e)
      in if suCancelled e \<and> \<not> suSuccess e
         then push ob v ''sip_call_results'' 1 [(''result'', ''cancelled''), (''status'', status)]
         else
           (if suSuccess e then push ob v ''sip_calls'' 1 [(''phase'', ''answered'')] else []) @
           push ob v ''sip_call_results'' 1 [(''result'', if suSuccess e then ''success'' else ''failure''), (''status'', status)] @
           (if suSuccess e then push ob v ''sip_call_setup_time'' (ms (suTime e)) [] else []) @
           (case suPDD e of None \<Rightarrow> [] | Some d \<Rightarrow> push ob v ''sip_post_dial_delay'' (ms d) []) @
           push ob v ''sip_call_success'' (if suSuccess e then 1 else 0) [(''status'', status)])"

definition endedBy_str :: "EndedBy \<Rightarrow> string" where
  "endedBy_str b =
     (case b of NoEnd \<Rightarrow> '''' | EndedByLocal \<Rightarrow> ''local'' | EndedByRemote \<Rightarrow> ''remote''
      | EndedByTimeout \<Rightarrow> ''timeout'' | EndedByError \<Rightarrow> ''error'')"

definition direction_str :: "CallDirection \<Rightarrow> string" where
  "direction_str d = (case d of Outgoing \<Rightarrow> ''out'' | Incoming \<Rightarrow> ''in'')"

definition on_CallEnd :: "vuObserver \<Rightarrow> vu \<Rightarrow> CallDirection \<Rightarrow> duration \<Rightarrow> EndedBy \<Rightarrow> sample list" where
  "on_CallEnd ob v d t b =
     (if d = Outgoing
      then push ob v ''sip_call_duration'' (ms t) [(''ended_by'', endedBy_str b)] @
           push ob v ''sip_calls'' 1 [(''phase'', ''ended'')]
      else [])"

definition on_IncomingCall :: "vuObserver \<Rightarrow> vu \<Rightarrow> IncomingCallEvent \<Rightarrow> sample list" where
  "on_IncomingCall ob v e =
     (case evDelivery e of None \<Rightarrow> [] | Some d \<Rightarrow> push ob v ''sip_invite_delivery_time'' (ms d) [])"

definition expectFailed :: "vuObserver \<Rightarrow> vu \<Rightarrow> string \<Rightarrow> sample list" where
  "expectFailed ob v what = push ob v ''sip_expect_failed'' 1 [(''expect'', what)]"

definition on_audioScore :: "vuObserver \<Rightarrow> vu \<Rightarrow> real \<Rightarrow> sample list" where
  "on_audioScore ob v s =
     push ob v ''rtp_audio_score'' s [] @
     push ob v ''rtp_audio_mismatch'' (real_of_int (go_round ((1 - s) * 1000)) / 1000) []"

definition on_Media :: "vuObserver \<Rightarrow> vu \<Rightarrow> CallDirection \<Rightarrow> Stats \<Rightarrow> sample list" where
  "on_Media ob v d st =
     (let tg = [(''codec'', stCodec st), (''direction'', direction_str d)]; heard = Heard_time st > 0
      in push ob v ''rtp_packets_sent'' (real (unat (PacketsSent st))) tg @
         push ob v ''rtp_packets_received'' (real (unat (PacketsReceived st))) tg @
         push ob v ''rtp_packets_lost'' (real (unat (PacketsLost st))) tg @
         (if PacketsReceived st > 1 then push ob v ''rtp_jitter'' (ms (Jitter st)) tg else []) @
         push ob v ''rtp_audio_heard'' (if heard then 1 else 0) tg @
         push ob v ''rtp_legs'' 1 (tg @ [(''heard'', if heard then ''true'' else ''false'')]))"

definition on_FirstResponse :: "vuObserver \<Rightarrow> vu \<Rightarrow> FirstResponseEvent \<Rightarrow> sample list" where
  "on_FirstResponse ob v e = push ob v ''sip_invite_first_response_time'' (ms (frDelay e)) [(''method'', frMethod e)]"

definition on_Retransmission :: "vuObserver \<Rightarrow> vu \<Rightarrow> retransmission \<Rightarrow> sample list" where
  "on_Retransmission ob v e =
     (let (kind, status) = (if retransStatus e \<noteq> 0 then (''response'', Itoa (retransStatus e)) else (''request'', ''''))
      in push ob v ''sip_retransmissions'' 1 [(''method'', retransmitted e), (''kind'', kind), (''status'', status)])"

text \<open>What the events of a call become.\<close>

definition on_call_event :: "vuObserver \<Rightarrow> vu \<Rightarrow> call_event \<Rightarrow> sample list" where
  "on_call_event ob v e =
     (case e of CallEnd d t b \<Rightarrow> on_CallEnd ob v d t b | MediaReport d st \<Rightarrow> on_Media ob v d st | Saved \<Rightarrow> [])"

section \<open>Calls in progress\<close>

definition live :: "vu \<Rightarrow> bool" where
  "live v \<longleftrightarrow> vuTags v \<noteq> None \<and> \<not> vuDone v"

definition phase :: "string \<Rightarrow> sample list \<Rightarrow> nat" where
  "phase ph xs = length (filter (\<lambda>s. metric s = ''sip_calls'' \<and> tagged s ''phase'' = Some ph) xs)"

definition results :: "sample list \<Rightarrow> nat" where
  "results xs = length (filter (\<lambda>s. metric s = ''sip_call_results'') xs)"

text \<open>
  The samples of an outgoing call, and what a dashboard computes from them: answered minus ended. The virtual
  user is in state \<open>v1\<close> when the INVITE is over and in state \<open>v2\<close> when the call's events are reported.
\<close>

definition leg_samples :: "vuObserver \<Rightarrow> vu \<Rightarrow> vu \<Rightarrow> setupEvent list \<Rightarrow> call_event list \<Rightarrow> sample list" where
  "leg_samples ob v1 v2 su es = concat (map (on_CallSetup ob v1) su) @ concat (map (on_call_event ob v2) es)"

definition in_progress :: "sample list \<Rightarrow> int" where
  "in_progress xs = int (phase ''answered'' xs) - int (phase ''ended'' xs)"

lemma phase_append [simp]: "phase ph (xs @ ys) = phase ph xs + phase ph ys" "phase ph [] = 0"
  by (simp_all add: phase_def)

lemma results_append [simp]: "results (xs @ ys) = results xs + results ys" "results [] = 0"
  by (simp_all add: results_def)

lemma push_live:
  "live v \<Longrightarrow> \<exists>t. push ob v m x tg = [\<lparr>metric = m, tagged = t, amount = x\<rparr>] \<and>
     (\<forall>k w. tg = [(k, w)] \<longrightarrow> t k = Some w)"
  by (auto simp: push_def live_def Let_def)

lemma phase_push:
  assumes "live v"
  shows "m \<noteq> ''sip_calls'' \<Longrightarrow> phase ph (push ob v m x tg) = 0"
    "phase ph (push ob v ''sip_calls'' x [(''phase'', ph')]) = (if ph' = ph then 1 else 0)"
    "m \<noteq> ''sip_call_results'' \<Longrightarrow> results (push ob v m x tg) = 0"
    "results (push ob v ''sip_call_results'' x tg) = 1"
proof -
  obtain t where t: "push ob v m x tg = [\<lparr>metric = m, tagged = t, amount = x\<rparr>]" using push_live [OF assms] by metis
  show "m \<noteq> ''sip_calls'' \<Longrightarrow> phase ph (push ob v m x tg) = 0"
    "m \<noteq> ''sip_call_results'' \<Longrightarrow> results (push ob v m x tg) = 0"
    by (simp_all add: phase_def results_def t)
  obtain t' where "push ob v ''sip_calls'' x [(''phase'', ph')] = [\<lparr>metric = ''sip_calls'', tagged = t', amount = x\<rparr>]"
      "t' ''phase'' = Some ph'"
    using push_live [OF assms, of ob "''sip_calls''" x "[(''phase'', ph')]"] by blast
  then show "phase ph (push ob v ''sip_calls'' x [(''phase'', ph')]) = (if ph' = ph then 1 else 0)"
    by (simp add: phase_def)
  obtain t'' where "push ob v ''sip_call_results'' x tg = [\<lparr>metric = ''sip_call_results'', tagged = t'', amount = x\<rparr>]"
    using push_live [OF assms] by metis
  then show "results (push ob v ''sip_call_results'' x tg) = 1" by (simp add: results_def)
qed

lemma setup_samples:
  assumes "live v"
  shows "phase ''answered'' (on_CallSetup ob v e) = (if suSuccess e then 1 else 0)"
    "phase ''ended'' (on_CallSetup ob v e) = 0" "results (on_CallSetup ob v e) = 1"
  by (simp_all add: on_CallSetup_def Let_def phase_push [OF assms] split: option.split)

lemma event_samples:
  assumes "live v"
  shows "phase ''answered'' (on_call_event ob v e) = 0" "results (on_call_event ob v e) = 0"
    "phase ''ended'' (on_call_event ob v e) = (if \<exists>t b. e = CallEnd Outgoing t b then 1 else 0)"
  by (simp_all add: on_call_event_def on_CallEnd_def on_Media_def Let_def phase_push [OF assms] split: call_event.split)

lemma events_samples:
  assumes "live v"
  shows "phase ''answered'' (concat (map (on_call_event ob v) es)) = 0" "results (concat (map (on_call_event ob v) es)) = 0"
    "\<forall>t b. CallEnd Incoming t b \<notin> set es \<Longrightarrow>
     phase ''ended'' (concat (map (on_call_event ob v) es)) = length (filter (\<lambda>e. \<exists>d t b. e = CallEnd d t b) es)"
proof -
  show "phase ''answered'' (concat (map (on_call_event ob v) es)) = 0" "results (concat (map (on_call_event ob v) es)) = 0"
    by (induction es) (simp_all add: event_samples [OF assms])
  have dir: "(\<exists>d t b. e = CallEnd d t b) = (\<exists>t b. e = CallEnd Outgoing t b)" if "\<forall>t b. CallEnd Incoming t b \<noteq> e" for e
    using that by (metis CallDirection.exhaust)
  show "\<forall>t b. CallEnd Incoming t b \<notin> set es \<Longrightarrow>
     phase ''ended'' (concat (map (on_call_event ob v) es)) = length (filter (\<lambda>e. \<exists>d t b. e = CallEnd d t b) es)"
    by (induction es) (simp_all add: event_samples [OF assms] dir)
qed

text \<open>The call behind the samples: its direction, and the answer time of an answered call, never change.\<close>

definition outgoing_only :: "sys \<Rightarrow> bool" where
  "outgoing_only s \<longleftrightarrow> cdir (call s) = Outgoing \<and> (\<forall>t b. CallEnd Incoming t b \<notin> set (events s))"

lemma outgoing_step: "call_step s s' \<Longrightarrow> outgoing_only s \<Longrightarrow> outgoing_only s'"
proof (induction rule: call_step.induct)
  case (cs_tail s f k)
  then show ?case
    using closeMedia_cases [of "wasConnected f" "call s"]
    by (auto simp: finish_tail_def stopSession_def Let_def outgoing_only_def)
next
  case (cs_late_save s c save)
  then show ?case using autoSave_cases [of "call s"] by (auto simp: outgoing_only_def)
next
  case (cs_finish s by' st why' now)
  then show ?case by (auto simp: outgoing_only_def begin_finish_cases finish_lock_def Let_def)
qed (simp_all add: outgoing_only_def markRinging_def markConnected_def decide_def requestCancel_def
    set_session_def sessionRefreshed_def mark_failed_def split: option.split)

lemma answer_step: "call_step s s' \<Longrightarrow> StateConnected \<le> state (call s) \<Longrightarrow> tAnswer (call s') = tAnswer (call s)"
proof (induction rule: call_step.induct)
  case (cs_tail s f k)
  then show ?case
    using closeMedia_cases [of "wasConnected f" "call s"]
    by (auto simp: finish_tail_def stopSession_def Let_def)
next
  case (cs_late_save s c save)
  then show ?case using autoSave_cases [of "call s"] by auto
next
  case (cs_finish s by' st why' now)
  then show ?case by (auto simp: begin_finish_cases finish_lock_def Let_def)
qed (simp_all add: markRinging_def markConnected_def decide_def requestCancel_def
    set_session_def sessionRefreshed_def mark_failed_def split: option.split)

lemma reach_facts:
  assumes "call_reach s0 s"
  shows "sys_ok s0 \<Longrightarrow> sys_ok s" "outgoing_only s0 \<Longrightarrow> outgoing_only s"
    "StateConnected \<le> state (call s0) \<Longrightarrow> tAnswer (call s) = tAnswer (call s0)"
  using assms
proof induction
  case (cr_step s s')
  { case 1 then show ?case using cr_step call_step_ok by blast }
  { case 2 then show ?case using cr_step outgoing_step by blast }
  { case 3
    then have "StateConnected \<le> state (call s)" using call_reach_forward [OF cr_step.hyps(1)] by auto
    then show ?case using cr_step answer_step 3 by metis }
qed simp_all

text \<open>\<open>runOutgoing\<close> is one of the threads that act on the call.\<close>

lemma runOutgoing_reach: "call_reach (osys l) (osys (runOutgoing ackErr errText sh now later r l))"
proof -
  let ?s = "osys l"
  let ?m = "upd (markConnected now) ?s"
  have fin: "call_reach ?s (finish by' st why' t ?s)" for by' st why' t by (rule finish_reach [OF cr_init])
  have conn: "call_reach ?s ?m" by (rule cr_step [OF cr_init cs_connected])
  have bye: "call_reach ?s (call_bye later ?m)"
    unfolding call_bye_def by (auto intro: finish_reach [OF conn] split: prod.split)
  have "call_reach ?s (upd (startMedia sh) ?m)"
  proof (cases "media (call ?m)")
    case None
    then have "upd (startMedia sh) ?m = ?m" by (simp add: startMedia_def)
    then show ?thesis using conn by simp
  next
    case (Some m)
    then have "upd (startMedia sh) ?m = upd (\<lambda>c. c\<lparr>media := Some (Start (sh, ()) m)\<rparr>) ?m" by (simp add: startMedia_def)
    moreover have "RtpStream.closed (Start (sh, ()) m) = RtpStream.closed m" by (simp add: Start_def)
    ultimately show ?thesis using cr_step [OF conn cs_media [OF Some]] by simp
  qed
  note started = this
  have "call_reach ?s (upd (\<lambda>c. sessionFromAnswer h (startMedia sh c)) ?m)" for h
  proof (cases "parseSessionExpires h")
    case (Some p)
    obtain e w where p: "p = (e, w)" by fastforce
    have "call_reach ?s (upd (set_session e (w \<noteq> ''uas'')) (upd (startMedia sh) ?m))"
      by (rule cr_step [OF started cs_set_session])
    from cr_step [OF this cs_refreshed] show ?thesis
      using started by (cases "e \<le> 0") (simp_all add: sessionFromAnswer_def Some p startSession_def)
  qed (use started in \<open>simp add: sessionFromAnswer_def\<close>)
  then show ?thesis
    using fin bye by (auto simp: runOutgoing_def Let_def split: option.split)
qed

lemma finish_closes: "sys_ok s \<Longrightarrow> state (call s) \<noteq> StateEnded \<Longrightarrow> doneCloses (call (finish by' st why' now s)) = 1"
proof -
  assume s: "sys_ok s" "state (call s) \<noteq> StateEnded"
  obtain f where "fin (finish by' st why' now s) = Some (f, 5)" using finish_done [OF s(2)] by blast
  moreover have "fin_ok (finish by' st why' now s)" using sys_ok_finish_all [OF s(1)] by (simp only: sys_ok_def)
  ultimately show ?thesis by (simp add: fin_ok_def)
qed

lemma runOutgoing_closes:
  assumes "unanswered (osys l)" "state (call (osys (runOutgoing ackErr errText sh now later r l))) = StateEnded"
  shows "doneCloses (call (osys (runOutgoing ackErr errText sh now later r l))) = 1"
proof -
  note u = unanswered_facts [OF assms(1)] and m = connected_facts [OF assms(1), of now]
  have "state (call (upd (\<lambda>c. sessionFromAnswer h (startMedia sh c)) (upd (markConnected now) (osys l)))) = StateConnected" for h
    using m(1) sessionFromAnswer_call by simp
  moreover have "doneCloses (call (call_bye later (upd (markConnected now) (osys l)))) = 1"
    unfolding call_bye_def using finish_closes [OF m(3)] m(1) by (simp split: prod.split)
  moreover have "doneCloses (call (finish by' st why' t (osys l))) = 1" for by' st why' t
    using finish_closes [OF u(1,2)] .
  ultimately show ?thesis
    using assms(2) by (auto simp: runOutgoing_def Let_def split: option.splits if_splits)
qed

text \<open>The end of a call is reported once it is complete, if it had been answered, and not before.\<close>

lemma live_not_reported:
  assumes "sys_ok s" "state (call s) \<noteq> StateEnded"
  shows "end_events s = 0"
  using assms fin_ok_None [of s] no_end_events [of "events s"] by (auto simp: sys_ok_def end_events_def)

lemma done_reported:
  assumes "sys_ok s" "doneCloses (call s) = 1"
  shows "end_events s = (if tAnswer (call s) \<noteq> None then 1 else 0)"
  using assms by (auto simp: sys_ok_def fin_ok_def end_events_def split: option.splits if_splits)

lemma won_race_setup:
  assumes "won_race ackErr r" "setups l = []"
  shows "setups (runOutgoing ackErr errText sh now later r l) = [(setup_of r now (call (osys l)))\<lparr>suSuccess := False\<rparr>]"
proof -
  obtain res where "finalRes r = Some res" "IsSuccess res" "cancelled r" "ackErr = None"
    using assms(1) unfolding won_race_def by blast
  then show ?thesis by (simp add: runOutgoing_def Let_def assms(2))
qed

text \<open>A virtual user that is done, or not yet in an iteration, drops its samples.\<close>

lemma push_dropped: "\<not> live v \<Longrightarrow> push ob v m x tg = []"
  by (auto simp: push_def live_def Let_def split: option.split)

lemma setup_dropped: "\<not> live v \<Longrightarrow> on_CallSetup ob v e = []"
  by (simp add: on_CallSetup_def push_dropped Let_def split: option.split)

lemma event_dropped: "\<not> live v \<Longrightarrow> on_call_event ob v e = []"
  by (simp add: on_call_event_def on_CallEnd_def on_Media_def push_dropped Let_def split: call_event.split)

lemma leg_counts:
  assumes "outgoing_only s"
  shows "phase ''answered'' (leg_samples ob v1 v2 [su] (events s)) = (if live v1 \<and> suSuccess su then 1 else 0)"
    "phase ''ended'' (leg_samples ob v1 v2 [su] (events s)) = (if live v2 then end_events s else 0)"
    "results (leg_samples ob v1 v2 [su] (events s)) = (if live v1 then 1 else 0)"
proof -
  have first: "phase ''answered'' (on_CallSetup ob v1 su) = (if live v1 \<and> suSuccess su then 1 else 0)"
    "phase ''ended'' (on_CallSetup ob v1 su) = 0" "results (on_CallSetup ob v1 su) = (if live v1 then 1 else 0)"
    by (cases "live v1"; simp add: setup_samples setup_dropped)+
  let ?es = "concat (map (on_call_event ob v2) (events s))"
  have "phase ''answered'' ?es = 0 \<and> phase ''ended'' ?es = (if live v2 then end_events s else 0) \<and> results ?es = 0"
  proof (cases "live v2")
    case True
    have "\<forall>t b. CallEnd Incoming t b \<notin> set (events s)" using assms by (simp add: outgoing_only_def)
    from events_samples(3) [OF True this] show ?thesis
      using True by (simp add: events_samples(1,2) end_events_def)
  next
    case False
    then have "?es = []" by (simp add: event_dropped)
    with False show ?thesis by (simp only: results_append phase_append if_False simp_thms)
  qed
  then have ends: "phase ''answered'' ?es = 0" "phase ''ended'' ?es = (if live v2 then end_events s else 0)" "results ?es = 0"
    by simp_all
  show "phase ''answered'' (leg_samples ob v1 v2 [su] (events s)) = (if live v1 \<and> suSuccess su then 1 else 0)"
    "phase ''ended'' (leg_samples ob v1 v2 [su] (events s)) = (if live v2 then end_events s else 0)"
    "results (leg_samples ob v1 v2 [su] (events s)) = (if live v1 then 1 else 0)"
    by (simp_all add: leg_samples_def first ends)
qed

text \<open>C33: What the dashboard's count of calls in progress, answered minus ended, gets from an outgoing call,
  whatever the INVITE client returned and however the call's threads ran afterwards: while the call is up it is
  1, and once its end is complete it is 0, with one result, as long as the virtual user is in an iteration when
  the INVITE is over and when the end is reported. A virtual user that is done drops its samples: a call that
  was counted as answered and ends after that stays counted, and one that was not counted counts minus one if
  its end is reported. A call whose 200 won the race against our CANCEL counts minus one too, because its end
  is reported and its answer is not.\<close>

theorem calls_in_progress:
  assumes "unanswered (osys l)" "setups l = []" "cdir (call (osys l)) = Outgoing"
    and "l1 = runOutgoing ackErr errText sh now later r l" "call_reach (osys l1) s"
    and "state (call s) = StateEnded \<longrightarrow> doneCloses (call s) = 1"
  shows "in_progress (leg_samples ob v1 v2 (setups l1) (events s)) =
      (if state (call s) \<noteq> StateEnded then of_bool (live v1)
       else if won_race ackErr r then - of_bool (live v2)
       else if state (call (osys l1)) = StateConnected then of_bool (live v1) - of_bool (live v2) else 0) \<and>
    results (leg_samples ob v1 v2 (setups l1) (events s)) = of_bool (live v1)"
proof -
  note u = unanswered_facts [OF assms(1)]
  obtain su where su: "setups l1 = [su]" "suSuccess su \<longleftrightarrow> state (call (osys l1)) = StateConnected"
      "\<not> suSuccess su \<longrightarrow> state (call (osys l1)) = StateEnded"
      "end_events (osys l1) = (if won_race ackErr r then 1 else 0)"
    using outgoing_accounted [OF assms(1,2)] unfolding assms(4) by blast
  have out0: "outgoing_only (osys l)"
    using u(1) u(2) assms(3) fin_ok_None [OF _ u(2)] by (auto simp: outgoing_only_def sys_ok_def)
  note r1 = runOutgoing_reach [of l ackErr errText sh now later r, folded assms(4)]
  have ok1: "sys_ok (osys l1)" and out1: "outgoing_only (osys l1)" using reach_facts [OF r1] u(1) out0 by blast+
  have ok: "sys_ok s" and out: "outgoing_only s" using reach_facts [OF assms(5)] ok1 out1 by blast+
  have up: "StateConnected \<le> state (call (osys l1))" using su(2,3) by (cases "suSuccess su") auto
  then have answer: "tAnswer (call s) = tAnswer (call (osys l1))" using reach_facts(3) [OF assms(5)] by blast
  have ended: "state (call s) = StateEnded" if "\<not> suSuccess su"
    using su(3) that call_reach_forward [OF assms(5)] by (cases "state (call s)") auto
  have connected: "tAnswer (call (osys l1)) \<noteq> None" if "suSuccess su"
    using ok1 su(2) that by (simp add: sys_ok_def times_ok_def)
  have raced: "tAnswer (call (osys l1)) \<noteq> None \<longleftrightarrow> won_race ackErr r" if "\<not> suSuccess su"
  proof -
    have "end_events (osys l1) = (if tAnswer (call (osys l1)) \<noteq> None then 1 else 0)"
      using su(3) that runOutgoing_closes [OF assms(1)] by (intro done_reported ok1) (simp add: assms(4))
    then show ?thesis
      using su(4) by (cases "won_race ackErr r"; cases "tAnswer (call (osys l1)) = None") simp_all
  qed
  have won: "\<not> suSuccess su" if "won_race ackErr r"
    using won_race_setup [OF that assms(2)] su(1) unfolding assms(4) by auto
  show ?thesis
    using leg_counts [OF out, of ob v1 v2 su] live_not_reported [OF ok] ended assms(6) done_reported [OF ok] answer connected raced won su(2)
    by (cases "state (call s) = StateEnded"; cases "suSuccess su") (auto simp: in_progress_def su(1))
qed

section \<open>Rates and counters agree\<close>

definition sum_of :: "string \<Rightarrow> sample list \<Rightarrow> real" where
  "sum_of m xs = (\<Sum>s \<leftarrow> filter (\<lambda>s. metric s = m) xs. amount s)"

definition count_of :: "string \<Rightarrow> sample list \<Rightarrow> nat" where
  "count_of m xs = length (filter (\<lambda>s. metric s = m) xs)"

lemma sum_of_append [simp]: "sum_of m (xs @ ys) = sum_of m xs + sum_of m ys" "sum_of m [] = 0"
  by (simp_all add: sum_of_def)

lemma count_of_append [simp]: "count_of m (xs @ ys) = count_of m xs + count_of m ys" "count_of m [] = 0"
  by (simp_all add: count_of_def)

lemma of_push:
  assumes "live v"
  shows "sum_of m (push ob v m' x tg) = (if m' = m then x else 0)" "count_of m (push ob v m' x tg) = (if m' = m then 1 else 0)"
proof -
  obtain t where t: "push ob v m' x tg = [\<lparr>metric = m', tagged = t, amount = x\<rparr>]" using push_live [OF assms] by metis
  show "sum_of m (push ob v m' x tg) = (if m' = m then x else 0)" "count_of m (push ob v m' x tg) = (if m' = m then 1 else 0)"
    by (simp_all add: sum_of_def count_of_def t)
qed

text \<open>The rate metric and the counters tell the same story: over any sequence of call setups every setup counts one result, \<open>sip_call_success\<close> adds up to the answered calls and has one sample for every setup that was not abandoned, so its average is the share of answered calls among those.\<close>
theorem setup_metrics_agree:
  assumes "live v"
  shows "results (concat (map (on_CallSetup ob v) es)) = length es \<and>
    sum_of ''sip_call_success'' (concat (map (on_CallSetup ob v) es)) = real (phase ''answered'' (concat (map (on_CallSetup ob v) es))) \<and>
    count_of ''sip_call_success'' (concat (map (on_CallSetup ob v) es)) = length (filter (\<lambda>e. suSuccess e \<or> \<not> suCancelled e) es)"
proof (induction es)
  case (Cons e es)
  have "sum_of ''sip_call_success'' (on_CallSetup ob v e) = (if suSuccess e then 1 else 0)"
    "count_of ''sip_call_success'' (on_CallSetup ob v e) = (if suSuccess e \<or> \<not> suCancelled e then 1 else 0)"
    by (simp_all add: on_CallSetup_def Let_def of_push [OF assms] split: option.split)
  then show ?case using Cons by (auto simp: setup_samples [OF assms])
qed simp

section \<open>Every sample fits its metric\<close>

datatype metric_type = Counter | Trend | Rate

datatype value_type = DefaultValue | TimeValue

text \<open>\<open>registerMetrics\<close>: the name, the type and the unit of every metric.\<close>

definition metric_table :: "(string \<times> metric_type \<times> value_type) list" where
  "metric_table =
     [(''sip_requests'', Counter, DefaultValue), (''sip_request_duration'', Trend, TimeValue),
      (''sip_failed_requests'', Rate, DefaultValue), (''sip_call_setup_time'', Trend, TimeValue),
      (''sip_post_dial_delay'', Trend, TimeValue), (''sip_call_success'', Rate, DefaultValue),
      (''sip_call_duration'', Trend, TimeValue), (''sip_invite_delivery_time'', Trend, TimeValue),
      (''sip_registrations'', Counter, DefaultValue), (''sip_expect_failed'', Counter, DefaultValue),
      (''rtp_packets_sent'', Counter, DefaultValue), (''rtp_packets_received'', Counter, DefaultValue),
      (''rtp_packets_lost'', Counter, DefaultValue), (''rtp_jitter'', Trend, TimeValue),
      (''rtp_audio_heard'', Rate, DefaultValue), (''sip_calls'', Counter, DefaultValue),
      (''sip_call_results'', Counter, DefaultValue), (''rtp_legs'', Counter, DefaultValue),
      (''sip_invite_first_response_time'', Trend, TimeValue), (''sip_retransmissions'', Counter, DefaultValue),
      (''rtp_audio_score'', Trend, DefaultValue), (''rtp_audio_mismatch'', Trend, DefaultValue)]"

section \<open>What the metrics show\<close>

text \<open>Everything the engine and the script objects report to the observer.\<close>

datatype report_event =
    RequestReport RequestEvent
  | SetupReport setupEvent
  | CallReport call_event
  | IncomingReport IncomingCallEvent
  | FirstResponseReport FirstResponseEvent
  | RetransmissionReport retransmission
  | ExpectReport string
  | ScoreReport real

definition samples_of_event :: "vuObserver \<Rightarrow> vu \<Rightarrow> report_event \<Rightarrow> sample list" where
  "samples_of_event ob v r =
     (case r of RequestReport e \<Rightarrow> on_Request ob v e | SetupReport e \<Rightarrow> on_CallSetup ob v e
      | CallReport e \<Rightarrow> on_call_event ob v e | IncomingReport e \<Rightarrow> on_IncomingCall ob v e
      | FirstResponseReport e \<Rightarrow> on_FirstResponse ob v e | RetransmissionReport e \<Rightarrow> on_Retransmission ob v e
      | ExpectReport w \<Rightarrow> expectFailed ob v w | ScoreReport s \<Rightarrow> on_audioScore ob v s)"

definition samples_of_events :: "vuObserver \<Rightarrow> vu \<Rightarrow> report_event list \<Rightarrow> sample list" where
  "samples_of_events ob v rs = concat (map (samples_of_event ob v) rs)"

text \<open>
  What a metric shows of its samples, by the type it is registered with: a counter their sum, a rate how many of them
  are not zero out of how many, a trend the values themselves; with its unit.
\<close>

datatype shown = Total real | Share nat nat | Values "real list"

definition amounts :: "string \<Rightarrow> sample list \<Rightarrow> real list" where
  "amounts m xs = map amount (filter (\<lambda>s. metric s = m) xs)"

definition show_metric :: "string \<Rightarrow> sample list \<Rightarrow> (shown \<times> value_type) option" where
  "show_metric m xs =
     map_option (\<lambda>(t, u). (case t of Counter \<Rightarrow> Total (sum_list (amounts m xs))
       | Rate \<Rightarrow> Share (length (filter (\<lambda>x. x \<noteq> 0) (amounts m xs))) (length (amounts m xs))
       | Trend \<Rightarrow> Values (amounts m xs), u)) (map_of metric_table m)"

text \<open>A view by one tag.\<close>

definition with_tag :: "string \<Rightarrow> string \<Rightarrow> sample list \<Rightarrow> sample list" where
  "with_tag k w xs = filter (\<lambda>s. tagged s k = Some w) xs"

text \<open>The reports of each kind.\<close>

definition requests :: "report_event list \<Rightarrow> RequestEvent list" where
  "requests rs = [e. RequestReport e \<leftarrow> rs]"

definition call_setups :: "report_event list \<Rightarrow> setupEvent list" where
  "call_setups rs = [e. SetupReport e \<leftarrow> rs]"

definition outgoing_ends :: "report_event list \<Rightarrow> duration list" where
  "outgoing_ends rs = [t. CallReport (CallEnd Outgoing t b) \<leftarrow> rs]"

definition media_legs :: "report_event list \<Rightarrow> Stats list" where
  "media_legs rs = [st. CallReport (MediaReport d st) \<leftarrow> rs]"

definition deliveries :: "report_event list \<Rightarrow> duration list" where
  "deliveries rs =
     concat (map (\<lambda>r. case r of IncomingReport e \<Rightarrow> (case evDelivery e of None \<Rightarrow> [] | Some d \<Rightarrow> [d]) | _ \<Rightarrow> []) rs)"

definition first_responses :: "report_event list \<Rightarrow> FirstResponseEvent list" where
  "first_responses rs = [e. FirstResponseReport e \<leftarrow> rs]"

definition retransmissions :: "report_event list \<Rightarrow> retransmission list" where
  "retransmissions rs = [e. RetransmissionReport e \<leftarrow> rs]"

definition failed_expectations :: "report_event list \<Rightarrow> string list" where
  "failed_expectations rs = [w. ExpectReport w \<leftarrow> rs]"

definition scores :: "report_event list \<Rightarrow> real list" where
  "scores rs = [s. ScoreReport s \<leftarrow> rs]"

text \<open>Which outgoing calls the script abandoned, and which requests got what they asked for.\<close>

definition abandoned :: "setupEvent \<Rightarrow> bool" where
  "abandoned e \<longleftrightarrow> suCancelled e \<and> \<not> suSuccess e"

definition went_well :: "RequestEvent \<Rightarrow> bool" where
  "went_well e \<longleftrightarrow> evErr e = None \<and> evStatus e \<noteq> 0 \<and> (evStatus e < 300 \<or> evStatus e \<in> {401, 407})"

definition status_tag :: "RequestEvent \<Rightarrow> string" where
  "status_tag e = (if evStatus e = 0 then ''timeout'' else Itoa (evStatus e))"

lemmas reports_of = requests_def call_setups_def outgoing_ends_def media_legs_def deliveries_def first_responses_def
  retransmissions_def failed_expectations_def scores_def

lemma amounts_append [simp]: "amounts m (xs @ ys) = amounts m xs @ amounts m ys" "amounts m [] = []"
  by (simp_all add: amounts_def)

lemma with_tag_append [simp]: "with_tag k w (xs @ ys) = with_tag k w xs @ with_tag k w ys" "with_tag k w [] = []"
  by (simp_all add: with_tag_def)

definition tags_of :: "vuObserver \<Rightarrow> vu \<Rightarrow> (string \<times> string) list \<Rightarrow> string \<rightharpoonup> string" where
  "tags_of ob v tg = fold (\<lambda>(k, w) t. t(k \<mapsto> w)) tg
     (if deviceTag ob then (the (vuTags v))(''device'' \<mapsto> obsDevice ob) else the (vuTags v))"

lemma push_one: "live v \<Longrightarrow> push ob v m x tg = [\<lparr>metric = m, tagged = tags_of ob v tg, amount = x\<rparr>]"
  by (auto simp: push_def live_def tags_of_def Let_def)

lemma amounts_push:
  assumes "live v"
  shows "amounts m (push ob v m' x tg) = (if m' = m then [x] else [])"
    "amounts m (with_tag k w (push ob v m' x tg)) = (if m' = m \<and> tags_of ob v tg k = Some w then [x] else [])"
  by (auto simp: push_one [OF assms] amounts_def with_tag_def)

text \<open>The samples of one report that belong to each metric.\<close>

lemma request_amounts:
  assumes "live v"
  shows "amounts m (on_Request ob v e) =
    (if m = ''sip_requests'' then [1] else if m = ''sip_request_duration'' then (if evStatus e \<noteq> 0 then [ms (evDuration e)] else [])
     else if m = ''sip_failed_requests'' then [of_bool (\<not> went_well e)]
     else if m = ''sip_registrations'' then (if evMethod e = ''REGISTER'' \<and> evStatus e = 200 then [1] else []) else [])"
  by (auto simp: on_Request_def Let_def amounts_push [OF assms] Failed_def went_well_def)

lemma setup_amounts:
  assumes "live v"
  shows "amounts m (on_CallSetup ob v e) =
    (if m = ''sip_calls'' then (if suSuccess e then [1] else []) else if m = ''sip_call_results'' then [1]
     else if m = ''sip_call_setup_time'' then (if suSuccess e then [ms (suTime e)] else [])
     else if m = ''sip_post_dial_delay'' then (case suPDD e of Some d \<Rightarrow> if abandoned e then [] else [ms d] | None \<Rightarrow> [])
     else if m = ''sip_call_success'' then (if abandoned e then [] else [of_bool (suSuccess e)]) else [])"
  by (auto simp: on_CallSetup_def Let_def amounts_push [OF assms] abandoned_def split: option.split)

lemma end_amounts:
  assumes "live v"
  shows "amounts m (on_CallEnd ob v d t b) =
    (if d \<noteq> Outgoing then [] else if m = ''sip_call_duration'' then [ms t] else if m = ''sip_calls'' then [1] else [])"
  by (auto simp: on_CallEnd_def amounts_push [OF assms])

lemma media_amounts:
  assumes "live v"
  shows "amounts m (on_Media ob v d st) =
    (if m = ''rtp_packets_sent'' then [real (unat (PacketsSent st))]
     else if m = ''rtp_packets_received'' then [real (unat (PacketsReceived st))]
     else if m = ''rtp_packets_lost'' then [real (unat (PacketsLost st))]
     else if m = ''rtp_jitter'' then (if 1 < PacketsReceived st then [ms (Jitter st)] else [])
     else if m = ''rtp_audio_heard'' then [of_bool (0 < Heard_time st)] else if m = ''rtp_legs'' then [1] else [])"
  by (auto simp: on_Media_def Let_def amounts_push [OF assms])

lemma other_amounts:
  assumes "live v"
  shows "amounts m (on_IncomingCall ob v ic) = (case evDelivery ic of Some d \<Rightarrow> if m = ''sip_invite_delivery_time'' then [ms d] else [] | None \<Rightarrow> [])"
    "amounts m (on_FirstResponse ob v fr) = (if m = ''sip_invite_first_response_time'' then [ms (frDelay fr)] else [])"
    "amounts m (on_Retransmission ob v rt) = (if m = ''sip_retransmissions'' then [1] else [])"
    "amounts m (expectFailed ob v what) = (if m = ''sip_expect_failed'' then [1] else [])"
    "amounts m (on_audioScore ob v s) = (if m = ''rtp_audio_score'' then [s]
       else if m = ''rtp_audio_mismatch'' then [real_of_int (go_round ((1 - s) * 1000)) / 1000] else [])"
  by (auto simp: on_IncomingCall_def on_FirstResponse_def on_Retransmission_def expectFailed_def on_audioScore_def Let_def
      amounts_push [OF assms] split: option.split)

lemmas event_amounts = request_amounts setup_amounts end_amounts media_amounts other_amounts

text \<open>The samples of the counters that are split by a tag.\<close>

lemma tag_amounts:
  assumes "live v"
  shows "amounts ''sip_calls'' (with_tag ''phase'' ''answered'' (samples_of_event ob v r)) =
      (case r of SetupReport e \<Rightarrow> if suSuccess e then [1] else [] | _ \<Rightarrow> [])"
    "amounts ''sip_calls'' (with_tag ''phase'' ''ended'' (samples_of_event ob v r)) =
      (case r of CallReport (CallEnd d t b) \<Rightarrow> if d = Outgoing then [1] else [] | _ \<Rightarrow> [])"
    "amounts ''sip_call_results'' (with_tag ''result'' ''success'' (samples_of_event ob v r)) =
      (case r of SetupReport e \<Rightarrow> if suSuccess e then [1] else [] | _ \<Rightarrow> [])"
    "amounts ''sip_call_results'' (with_tag ''result'' ''cancelled'' (samples_of_event ob v r)) =
      (case r of SetupReport e \<Rightarrow> if abandoned e then [1] else [] | _ \<Rightarrow> [])"
    "amounts ''sip_call_results'' (with_tag ''result'' ''failure'' (samples_of_event ob v r)) =
      (case r of SetupReport e \<Rightarrow> if \<not> suSuccess e \<and> \<not> suCancelled e then [1] else [] | _ \<Rightarrow> [])"
    "amounts ''rtp_legs'' (with_tag ''heard'' ''true'' (samples_of_event ob v r)) =
      (case r of CallReport (MediaReport d st) \<Rightarrow> if 0 < Heard_time st then [1] else [] | _ \<Rightarrow> [])"
    "amounts ''rtp_legs'' (with_tag ''heard'' ''false'' (samples_of_event ob v r)) =
      (case r of CallReport (MediaReport d st) \<Rightarrow> if Heard_time st \<le> 0 then [1] else [] | _ \<Rightarrow> [])"
    "amounts ''sip_requests'' (with_tag ''method'' me (samples_of_event ob v r)) =
      (case r of RequestReport e \<Rightarrow> if evMethod e = me then [1] else [] | _ \<Rightarrow> [])"
    "amounts ''sip_requests'' (with_tag ''status'' w (samples_of_event ob v r)) =
      (case r of RequestReport e \<Rightarrow> if status_tag e = w then [1] else [] | _ \<Rightarrow> [])"
  by (auto simp: samples_of_event_def on_Request_def on_CallSetup_def on_call_event_def on_CallEnd_def on_Media_def on_IncomingCall_def
      on_FirstResponse_def on_Retransmission_def expectFailed_def on_audioScore_def Let_def amounts_push [OF assms] tags_of_def abandoned_def status_tag_def
      split: report_event.split option.split call_event.split)

text \<open>A metric's samples over all reports.\<close>

lemma amounts_events:
  "amounts m (samples_of_events ob v rs) = concat (map (\<lambda>r. amounts m (samples_of_event ob v r)) rs)"
  "amounts m (with_tag k w (samples_of_events ob v rs)) = concat (map (\<lambda>r. amounts m (with_tag k w (samples_of_event ob v r))) rs)"
  by (induction rs) (simp_all add: samples_of_events_def)

text \<open>The reports of one kind, each with its value, and what a metric shows of them.\<close>

lemma concat_reports:
  "concat (map (\<lambda>r. concat (map g (f r))) rs) = concat (map g (concat (map f rs)))"
  by (induction rs) simp_all

lemma samples_of_events_Cons [simp]:
  "samples_of_events ob v [] = []" "samples_of_events ob v (r # rs) = samples_of_event ob v r @ samples_of_events ob v rs"
  by (simp_all add: samples_of_events_def)

lemma reports_Cons:
  "requests (r # rs) = (case r of RequestReport e \<Rightarrow> e # requests rs | _ \<Rightarrow> requests rs)"
  "call_setups (r # rs) = (case r of SetupReport e \<Rightarrow> e # call_setups rs | _ \<Rightarrow> call_setups rs)"
  "outgoing_ends (r # rs) = (case r of CallReport (CallEnd Outgoing t b) \<Rightarrow> t # outgoing_ends rs | _ \<Rightarrow> outgoing_ends rs)"
  "media_legs (r # rs) = (case r of CallReport (MediaReport d st) \<Rightarrow> st # media_legs rs | _ \<Rightarrow> media_legs rs)"
  "deliveries (r # rs) = (case r of IncomingReport e \<Rightarrow> (case evDelivery e of Some d \<Rightarrow> d # deliveries rs | None \<Rightarrow> deliveries rs) | _ \<Rightarrow> deliveries rs)"
  "first_responses (r # rs) = (case r of FirstResponseReport e \<Rightarrow> e # first_responses rs | _ \<Rightarrow> first_responses rs)"
  "retransmissions (r # rs) = (case r of RetransmissionReport e \<Rightarrow> e # retransmissions rs | _ \<Rightarrow> retransmissions rs)"
  "failed_expectations (r # rs) = (case r of ExpectReport w \<Rightarrow> w # failed_expectations rs | _ \<Rightarrow> failed_expectations rs)"
  "scores (r # rs) = (case r of ScoreReport s \<Rightarrow> s # scores rs | _ \<Rightarrow> scores rs)"
  by (simp_all add: reports_of split: report_event.split call_event.split CallDirection.split option.split)

lemma reports_Nil [simp]:
  "requests [] = []" "call_setups [] = []" "outgoing_ends [] = []" "media_legs [] = []" "deliveries [] = []"
  "first_responses [] = []" "retransmissions [] = []" "failed_expectations [] = []" "scores [] = []"
  by (simp_all add: reports_of)

text \<open>The samples of each metric, in the order of the reports.\<close>

lemma request_series:
  assumes "live v"
  shows "amounts ''sip_requests'' (samples_of_events ob v rs) = map (\<lambda>e. 1) (requests rs) \<and>
    amounts ''sip_request_duration'' (samples_of_events ob v rs) = map (\<lambda>e. ms (evDuration e)) (filter (\<lambda>e. evStatus e \<noteq> 0) (requests rs)) \<and>
    amounts ''sip_failed_requests'' (samples_of_events ob v rs) = map (\<lambda>e. of_bool (\<not> went_well e)) (requests rs) \<and>
    amounts ''sip_registrations'' (samples_of_events ob v rs) =
      map (\<lambda>e. 1) (filter (\<lambda>e. evMethod e = ''REGISTER'' \<and> evStatus e = 200) (requests rs))"
proof (induction rs)
  case (Cons r rs)
  then show ?case
    by (cases r) (simp_all add: samples_of_event_def on_call_event_def event_amounts [OF assms] reports_Cons split: option.split call_event.split)
qed simp

lemma call_series:
  assumes "live v"
  shows "amounts ''sip_call_setup_time'' (samples_of_events ob v rs) = map (\<lambda>e. ms (suTime e)) (filter suSuccess (call_setups rs)) \<and>
    amounts ''sip_post_dial_delay'' (samples_of_events ob v rs) =
      map (\<lambda>e. ms (the (suPDD e))) (filter (\<lambda>e. suPDD e \<noteq> None \<and> \<not> abandoned e) (call_setups rs)) \<and>
    amounts ''sip_call_success'' (samples_of_events ob v rs) =
      map (\<lambda>e. of_bool (suSuccess e)) (filter (\<lambda>e. \<not> abandoned e) (call_setups rs)) \<and>
    amounts ''sip_call_duration'' (samples_of_events ob v rs) = map ms (outgoing_ends rs) \<and>
    amounts ''sip_call_results'' (samples_of_events ob v rs) = map (\<lambda>e. 1) (call_setups rs)"
proof (induction rs)
  case (Cons r rs)
  then show ?case
    by (cases r) (simp_all add: samples_of_event_def on_call_event_def event_amounts [OF assms] reports_Cons
        split: option.split call_event.split CallDirection.split)
qed simp

lemma media_series:
  assumes "live v"
  shows "amounts ''rtp_packets_sent'' (samples_of_events ob v rs) = map (\<lambda>st. real (unat (PacketsSent st))) (media_legs rs) \<and>
    amounts ''rtp_packets_received'' (samples_of_events ob v rs) = map (\<lambda>st. real (unat (PacketsReceived st))) (media_legs rs) \<and>
    amounts ''rtp_packets_lost'' (samples_of_events ob v rs) = map (\<lambda>st. real (unat (PacketsLost st))) (media_legs rs) \<and>
    amounts ''rtp_jitter'' (samples_of_events ob v rs) = map (\<lambda>st. ms (Jitter st)) (filter (\<lambda>st. 1 < PacketsReceived st) (media_legs rs)) \<and>
    amounts ''rtp_audio_heard'' (samples_of_events ob v rs) = map (\<lambda>st. of_bool (0 < Heard_time st)) (media_legs rs) \<and>
    amounts ''rtp_legs'' (samples_of_events ob v rs) = map (\<lambda>st. 1) (media_legs rs)"
proof (induction rs)
  case (Cons r rs)
  then show ?case
    by (cases r) (simp_all add: samples_of_event_def on_call_event_def event_amounts [OF assms] reports_Cons split: option.split call_event.split)
qed simp

lemma other_series:
  assumes "live v"
  shows "amounts ''sip_invite_delivery_time'' (samples_of_events ob v rs) = map ms (deliveries rs) \<and>
    amounts ''sip_invite_first_response_time'' (samples_of_events ob v rs) = map (\<lambda>e. ms (frDelay e)) (first_responses rs) \<and>
    amounts ''sip_retransmissions'' (samples_of_events ob v rs) = map (\<lambda>e. 1) (retransmissions rs) \<and>
    amounts ''sip_expect_failed'' (samples_of_events ob v rs) = map (\<lambda>e. 1) (failed_expectations rs) \<and>
    amounts ''rtp_audio_score'' (samples_of_events ob v rs) = scores rs \<and>
    amounts ''rtp_audio_mismatch'' (samples_of_events ob v rs) = map (\<lambda>s. real_of_int (go_round ((1 - s) * 1000)) / 1000) (scores rs)"
proof (induction rs)
  case (Cons r rs)
  then show ?case
    by (cases r) (simp_all add: samples_of_event_def on_call_event_def event_amounts [OF assms] reports_Cons split: option.split call_event.split)
qed simp

lemma tag_series:
  assumes "live v"
  shows "amounts ''sip_calls'' (with_tag ''phase'' ''answered'' (samples_of_events ob v rs)) = map (\<lambda>e. 1) (filter suSuccess (call_setups rs)) \<and>
    amounts ''sip_calls'' (with_tag ''phase'' ''ended'' (samples_of_events ob v rs)) = map (\<lambda>e. 1) (outgoing_ends rs) \<and>
    amounts ''sip_call_results'' (with_tag ''result'' ''success'' (samples_of_events ob v rs)) = map (\<lambda>e. 1) (filter suSuccess (call_setups rs)) \<and>
    amounts ''sip_call_results'' (with_tag ''result'' ''cancelled'' (samples_of_events ob v rs)) = map (\<lambda>e. 1) (filter abandoned (call_setups rs)) \<and>
    amounts ''sip_call_results'' (with_tag ''result'' ''failure'' (samples_of_events ob v rs)) =
      map (\<lambda>e. 1) (filter (\<lambda>e. \<not> suSuccess e \<and> \<not> suCancelled e) (call_setups rs)) \<and>
    amounts ''rtp_legs'' (with_tag ''heard'' ''true'' (samples_of_events ob v rs)) = map (\<lambda>st. 1) (filter (\<lambda>st. 0 < Heard_time st) (media_legs rs)) \<and>
    amounts ''rtp_legs'' (with_tag ''heard'' ''false'' (samples_of_events ob v rs)) = map (\<lambda>st. 1) (filter (\<lambda>st. Heard_time st \<le> 0) (media_legs rs)) \<and>
    amounts ''sip_requests'' (with_tag ''method'' me (samples_of_events ob v rs)) = map (\<lambda>e. 1) (filter (\<lambda>e. evMethod e = me) (requests rs)) \<and>
    amounts ''sip_requests'' (with_tag ''status'' w (samples_of_events ob v rs)) = map (\<lambda>e. 1) (filter (\<lambda>e. status_tag e = w) (requests rs))"
proof (induction rs)
  case (Cons r rs)
  then show ?case
    by (cases r) (simp_all add: tag_amounts [OF assms] reports_Cons split: call_event.split CallDirection.split option.split)
qed simp


section \<open>An example\<close>

definition demo_observer :: vuObserver where
  "demo_observer = \<lparr>obsDevice = ''phone1'', deviceTag = True\<rparr>"

definition demo_vu :: vu where
  "demo_vu = \<lparr>vuTags = Some Map.empty, vuDone = False\<rparr>"

lemma demo_live: "live demo_vu"
  by (simp add: live_def demo_vu_def)

theorem setup_metrics_agree_witness:
  "sum_of ''sip_call_success'' (concat (map (on_CallSetup demo_observer demo_vu)
     [\<lparr>suSuccess = True, suCancelled = False, suStatus = 200, suTime = 0, suPDD = None\<rparr>,
      \<lparr>suSuccess = False, suCancelled = True, suStatus = 487, suTime = 0, suPDD = None\<rparr>])) = 1"
  using setup_metrics_agree [OF demo_live, of demo_observer "[\<lparr>suSuccess = True, suCancelled = False, suStatus = 200, suTime = 0, suPDD = None\<rparr>,
      \<lparr>suSuccess = False, suCancelled = True, suStatus = 487, suTime = 0, suPDD = None\<rparr>]"]
  by (simp add: setup_samples [OF demo_live])

text \<open>A challenged registration, a BYE without an answer, an answered, an abandoned and a busy call, a silent leg.\<close>

definition demo_reports :: "report_event list" where
  "demo_reports =
     [RequestReport \<lparr>evMethod = ''REGISTER'', evStatus = 401, evDuration = 2000000, evErr = None\<rparr>,
      RequestReport \<lparr>evMethod = ''REGISTER'', evStatus = 200, evDuration = 3000000, evErr = None\<rparr>,
      RequestReport \<lparr>evMethod = ''BYE'', evStatus = 0, evDuration = 0, evErr = Some ''timeout''\<rparr>,
      SetupReport \<lparr>suSuccess = True, suCancelled = False, suStatus = 200, suTime = 7000000, suPDD = None\<rparr>,
      SetupReport \<lparr>suSuccess = False, suCancelled = True, suStatus = 487, suTime = 0, suPDD = Some 1000000\<rparr>,
      SetupReport \<lparr>suSuccess = False, suCancelled = False, suStatus = 486, suTime = 0, suPDD = Some 5000000\<rparr>,
      CallReport (MediaReport Outgoing \<lparr>stCodec = ''PCMU'', PacketsSent = 50, PacketsReceived = 0, PacketsExpected = 0,
        PacketsLost = 0, Jitter = 0, Heard_time = 0, DTMF = []\<rparr>),
      CallReport (CallEnd Outgoing 9000000 EndedByLocal)]"


text \<open>A call that is answered and hung up, and one whose 200 crossed our CANCEL.\<close>

definition demo_result :: "bool \<Rightarrow> inviteResult" where
  "demo_result c = \<lparr>finalRes = Some (demo_response 200), runErr = None, cancelled = c\<rparr>"

definition demo_leg_after :: "bool \<Rightarrow> out_leg" where
  "demo_leg_after c = runOutgoing None [] 0 5 6 (demo_result c) demo_leg"

theorem calls_in_progress_witness:
  "in_progress (leg_samples demo_observer demo_vu demo_vu (setups (demo_leg_after False)) (events (osys (demo_leg_after False)))) = 1 \<and>
   in_progress (leg_samples demo_observer demo_vu demo_vu (setups (demo_leg_after False))
     (events (finish EndedByRemote 0 ''BYE'' 9 (osys (demo_leg_after False))))) = 0 \<and>
   in_progress (leg_samples demo_observer demo_vu (demo_vu\<lparr>vuDone := True\<rparr>) (setups (demo_leg_after False))
     (events (finish EndedByRemote 0 ''BYE'' 9 (osys (demo_leg_after False))))) = 1 \<and>
   in_progress (leg_samples demo_observer demo_vu demo_vu (setups (demo_leg_after True)) (events (osys (demo_leg_after True)))) = - 1"
proof -
  have l: "setups demo_leg = []" "cdir (call (osys demo_leg)) = Outgoing"
    by (simp_all add: demo_leg_def demo_call_def newCall_def)
  have ok: "IsSuccess (demo_response 200)" by (simp add: IsSuccess_def demo_response_def)
  obtain su where su: "setups (demo_leg_after False) = [su]" "suSuccess su \<longleftrightarrow> state (call (osys (demo_leg_after False))) = StateConnected"
    using outgoing_accounted [OF demo_unanswered l(1)] unfolding demo_leg_after_def by blast
  have "setups (demo_leg_after False) = [(setup_of (demo_result False) 5 (call (osys demo_leg)))\<lparr>suSuccess := True\<rparr>]"
    using ok l(1) by (simp add: demo_leg_after_def demo_result_def runOutgoing_def Let_def)
  then have up: "state (call (osys (demo_leg_after False))) = StateConnected" using su by simp
  have race: "won_race None (demo_result c) = c" for c using ok by (auto simp: won_race_def demo_result_def)
  have gone: "state (call (osys (demo_leg_after True))) = StateEnded"
  proof -
    obtain su' where "setups (demo_leg_after True) = [su']" "\<not> suSuccess su' \<longrightarrow> state (call (osys (demo_leg_after True))) = StateEnded"
      using outgoing_accounted [OF demo_unanswered l(1)] unfolding demo_leg_after_def by blast
    moreover have "setups (demo_leg_after True) = [(setup_of (demo_result True) 5 (call (osys demo_leg)))\<lparr>suSuccess := False\<rparr>]"
      using ok l(1) by (simp add: demo_leg_after_def demo_result_def runOutgoing_def Let_def)
    ultimately show ?thesis by auto
  qed
  let ?s = "finish EndedByRemote 0 ''BYE'' 9 (osys (demo_leg_after False))"
  have "sys_ok (osys (demo_leg_after False))"
    unfolding demo_leg_after_def using reach_facts(1) [OF runOutgoing_reach] unanswered_facts(1) [OF demo_unanswered] by blast
  then have "state (call ?s) = StateEnded" "doneCloses (call ?s) = 1" using up finish_closes by (simp_all add: finish_call)
  moreover have "call_reach (osys (demo_leg_after False)) ?s" by (rule finish_reach [OF cr_init])
  moreover have gone_vu: "\<not> live (demo_vu\<lparr>vuDone := True\<rparr>)" by (simp add: live_def)
  moreover note p = calls_in_progress [OF demo_unanswered l refl, where ackErr = None and errText = "[]" and sh = 0 and now = 5 and later = 6 and ob = demo_observer,
      folded demo_leg_after_def]
  ultimately show ?thesis
    using p [where r = "demo_result False" and s = "osys (demo_leg_after False)" and ?v1.0 = demo_vu and ?v2.0 = demo_vu, folded demo_leg_after_def]
      p [where r = "demo_result False" and s = ?s and ?v1.0 = demo_vu and ?v2.0 = demo_vu, folded demo_leg_after_def]
      p [where r = "demo_result False" and s = ?s and ?v1.0 = demo_vu and ?v2.0 = "demo_vu\<lparr>vuDone := True\<rparr>", folded demo_leg_after_def]
      p [where r = "demo_result True" and s = "osys (demo_leg_after True)" and ?v1.0 = demo_vu and ?v2.0 = demo_vu, folded demo_leg_after_def]
      up gone race cr_init runOutgoing_closes [OF demo_unanswered, of None "[]" 0 5 6 "demo_result True", folded demo_leg_after_def]
      demo_live gone_vu
    by simp
qed

end
