(* ===== verification/Tones.thy ===== *)
theory Tones
  imports Complex_Main Audio
begin

text \<open>
  Sine sources of \<open>media/audio.go\<close>: \<open>Tone\<close> and \<open>DefaultAudio\<close>. \<open>float64\<close> is the reals here, so a
  sample is the exact truncation of the sine. A value outside \<open>int16\<close>, which only a level above
  0 dBFS can give, keeps its low 16 bits, as the conversion does on amd64.
\<close>

definition truncate_real :: "real \<Rightarrow> int" where
  "truncate_real x = (if 0 \<le> x then \<lfloor>x\<rfloor> else \<lceil>x\<rceil>)"

definition tone_amp :: "real \<Rightarrow> real" where
  "tone_amp dbfs = 10 powr (dbfs / 20) * 32767"

definition tone_sample :: "real \<Rightarrow> real \<Rightarrow> nat \<Rightarrow> int" where
  "tone_sample freq amp i = truncate_real (amp * sin (2 * pi * freq * real i / 8000))"

definition Tone :: "real \<Rightarrow> real \<Rightarrow> duration \<Rightarrow> Audio" where
  "Tone freq dbfs dur =
     (let n = nat (truncate_real (real_of_int dur / 1000000000 * 8000)); amp = tone_amp dbfs
      in newAudio (map (\<lambda>i. word_of_int (tone_sample freq amp i)) [0..<n]))"

definition DefaultAudio :: Audio where
  "DefaultAudio = Tone 1000 (- 20) 1000000000"

lemma truncate_real_abs: "real_of_int \<bar>truncate_real x\<bar> \<le> \<bar>x\<bar>"
proof (cases "0 \<le> x")
  case True
  then have "0 \<le> \<lfloor>x\<rfloor>" by simp
  then show ?thesis using True by (simp add: truncate_real_def)
next
  case False
  then have "\<lceil>x\<rceil> \<le> 0" by simp
  then show ?thesis using False le_of_int_ceiling [of x] by (simp add: truncate_real_def)
qed

lemma tone_amp_bounds:
  assumes "dbfs \<le> 0"
  shows "0 < tone_amp dbfs" "tone_amp dbfs \<le> 32767"
  using assms powr_mono [of "dbfs / 20" 0 10] by (simp_all add: tone_amp_def)

lemma tone_sample_abs:
  assumes "0 \<le> amp"
  shows "real_of_int \<bar>tone_sample freq amp i\<bar> \<le> amp"
proof -
  have "\<bar>amp * sin (2 * pi * freq * real i / 8000)\<bar> \<le> amp * 1"
    unfolding abs_mult using assms by (intro mult_mono) simp_all
  then show ?thesis unfolding tone_sample_def by (intro order_trans [OF truncate_real_abs]) simp
qed

lemma tone_sample_exact:
  assumes "dbfs \<le> 0"
  shows "sint (word_of_int (tone_sample freq (tone_amp dbfs) i) :: i16) = tone_sample freq (tone_amp dbfs) i"
proof -
  have "real_of_int \<bar>tone_sample freq (tone_amp dbfs) i\<bar> \<le> 32767"
    using tone_sample_abs [OF less_imp_le [OF tone_amp_bounds(1) [OF assms]], of freq i] tone_amp_bounds(2) [OF assms] by linarith
  then have "\<bar>tone_sample freq (tone_amp dbfs) i\<bar> \<le> 32767" by linarith
  then show ?thesis by (simp add: sint_sbintrunc' signed_take_bit_int_eq_self)
qed

text \<open>At a whole number of Hertz the tone repeats every second, so the loop has no click in it.\<close>

lemma tone_sample_second: "tone_sample (of_int k) amp (i + 8000) = tone_sample (of_int k) amp i"
proof -
  have turn: "2 * pi * of_int k * real (i + 8000) / 8000 = 2 * pi * of_int k * real i / 8000 + 2 * pi * of_int k"
    by (simp add: field_simps)
  have "sin (x + 2 * pi * of_int k) = sin x" for x :: real
    by (simp add: sin_add sin_int_2pin cos_int_2pin)
  then show ?thesis by (simp only: tone_sample_def turn)
qed

text \<open>A tone at or below 0 dBFS and at least 20 ms long is a whole number of frames whose samples are exactly the truncated sine, never past its amplitude, so nothing wraps; and looping a tone of whole Hertz and one second continues the sine without a step: sample i of the endless loop is the sine at i.\<close>
theorem tone_is_sine:
  assumes "dbfs \<le> 0" "20000000 \<le> dur"
  shows "length (pcm (Tone freq dbfs dur)) = nat (dur * 8000 div 1000000000) div 160 * 160 \<and>
    (\<forall>i < length (pcm (Tone freq dbfs dur)).
       sint (pcm (Tone freq dbfs dur) ! i) = tone_sample freq (tone_amp dbfs) i \<and>
       real_of_int \<bar>sint (pcm (Tone freq dbfs dur) ! i)\<bar> \<le> tone_amp dbfs) \<and>
    (dur = 1000000000 \<and> freq = of_int k \<longrightarrow>
       sint (pcm (Tone freq dbfs dur) ! (j mod length (pcm (Tone freq dbfs dur)))) = tone_sample freq (tone_amp dbfs) j)"
proof -
  let ?n = "nat (dur * 8000 div 1000000000)"
  let ?p = "pcm (Tone freq dbfs dur)"
  have "truncate_real (real_of_int dur / 1000000000 * 8000) = \<lfloor>real_of_int dur / real_of_int 125000\<rfloor>"
    using assms(2) by (simp add: truncate_real_def)
  then have "nat (truncate_real (real_of_int dur / 1000000000 * 8000)) = nat (dur div 125000)"
    by (simp only: floor_divide_of_int_eq)
  moreover have "dur * 8000 div 1000000000 = dur div 125000" by linarith
  ultimately have n: "nat (truncate_real (real_of_int dur / 1000000000 * 8000)) = ?n" by simp
  have big: "160 \<le> ?n" using assms(2) by linarith
  then have "?n div 160 * 160 > 0" by linarith
  then have p: "?p = take (?n div 160 * 160) (map (\<lambda>i. word_of_int (tone_sample freq (tone_amp dbfs) i)) [0..<?n])"
    unfolding Tone_def Let_def n by (simp add: newAudio_def)
  have len: "length ?p = ?n div 160 * 160" by (simp add: p)
  have nth: "sint (?p ! i) = tone_sample freq (tone_amp dbfs) i" if "i < length ?p" for i
    using that len by (simp add: p tone_sample_exact [OF assms(1)])
  have second: "sint (?p ! (j mod length ?p)) = tone_sample freq (tone_amp dbfs) j"
    if "dur = 1000000000" "freq = of_int k"
  proof -
    have l: "length ?p = 8000" using that(1) len by simp
    have "tone_sample freq (tone_amp dbfs) (r + 8000 * q) = tone_sample freq (tone_amp dbfs) r" for q r
    proof (induction q)
      case (Suc q)
      then show ?case using tone_sample_second [of k "tone_amp dbfs" "r + 8000 * q"] by (simp add: that(2) add_ac)
    qed simp
    from this [of "j mod 8000" "j div 8000"] nth [of "j mod 8000"] show ?thesis by (simp add: l)
  qed
  show ?thesis
    using len nth second tone_sample_abs [of "tone_amp dbfs"] tone_amp_bounds [OF assms(1)] by (simp add: less_imp_le)
qed

theorem tone_is_sine_witness: "length (pcm DefaultAudio) = 8000 \<and> sint (pcm DefaultAudio ! 0) = 0"
  using tone_is_sine [of "- 20" 1000000000 1000 0 0]
  by (auto simp: DefaultAudio_def tone_sample_def truncate_real_def)

end
