(* ===== verification/Script.thy ===== *)
theory Script
  imports Devices CallMedia Metrics Tones
begin

text \<open>
  What a test script hands to the engine: the arguments of \<open>args.go\<close>, the Device object of
  \<open>jsdevice.go\<close>, the media settings and the shared audio of \<open>jsmedia.go\<close> and the call object of
  \<open>jscall.go\<close>. The JavaScript engine belongs to sobek: how it turns a value into a string, a boolean
  or a number is a parameter, and so are the two number parsers of \<open>toDuration\<close>. A value carries what
  \<open>Export\<close> gives the code; devices, audio sources and calls are handles. A thrown error is a value.
\<close>

section \<open>Arguments\<close>

datatype jsvalue =
    JUndef | JNull | JBool bool | JInt int | JFloat real | JStr string | JArr "jsvalue list"
  | JDevice nat | JAudio nat | JCall nat | JObj "(string \<times> jsvalue) list"

record js_env =
  toStr :: "jsvalue \<Rightarrow> string"
  toBool :: "jsvalue \<Rightarrow> bool"
  toFloat :: "jsvalue \<Rightarrow> real"
  toInt :: "jsvalue \<Rightarrow> int"
  sprint :: "jsvalue \<Rightarrow> string"
  props :: "jsvalue \<Rightarrow> (string \<times> jsvalue) list"   \<comment> \<open>of values that are objects but not plain ones\<close>
  parseFloat :: "string \<Rightarrow> real option"
  parseDur :: "string \<Rightarrow> string + duration"

datatype js_error =
    NotAnObject string | BadDuration string string | ExpectedDuration string
  | NoExt string | NoIdentity string string | CalleeOrAonRequired
  | BadCodecs codec_error | BadAudio | BadRecord | DeviceError device_error

definition and_then :: "'e + 'a \<Rightarrow> ('a \<Rightarrow> 'e + 'b) \<Rightarrow> 'e + 'b" where
  "and_then r f = (case r of Inl e \<Rightarrow> Inl e | Inr x \<Rightarrow> f x)"

lemma and_then_simps [simp]: "and_then (Inl e) f = Inl e" "and_then (Inr x) f = f x"
  by (simp_all add: and_then_def)

lemma and_then_Inr: "and_then r f = Inr y \<longleftrightarrow> (\<exists>x. r = Inr x \<and> f x = Inr y)"
  by (cases r) simp_all

definition isSet :: "jsvalue \<Rightarrow> bool" where
  "isSet v \<longleftrightarrow> v \<noteq> JUndef \<and> v \<noteq> JNull"

definition get :: "(string \<times> jsvalue) list \<Rightarrow> string \<Rightarrow> jsvalue" where
  "get obj name = (case map_of obj name of None \<Rightarrow> JUndef | Some v \<Rightarrow> v)"

definition objectArg :: "js_env \<Rightarrow> string \<Rightarrow> jsvalue \<Rightarrow> js_error + (string \<times> jsvalue) list" where
  "objectArg env what v =
     (if \<not> isSet v then Inr []
      else case v of JObj fs \<Rightarrow> Inr fs
        | JArr _ \<Rightarrow> Inr (props env v) | JDevice _ \<Rightarrow> Inr (props env v)
        | JAudio _ \<Rightarrow> Inr (props env v) | JCall _ \<Rightarrow> Inr (props env v)
        | _ \<Rightarrow> Inl (NotAnObject what))"

definition stringField :: "js_env \<Rightarrow> (string \<times> jsvalue) list \<Rightarrow> string \<Rightarrow> string \<Rightarrow> string" where
  "stringField env obj name dflt = (let v = get obj name in if \<not> isSet v then dflt else toStr env v)"

definition boolField :: "js_env \<Rightarrow> (string \<times> jsvalue) list \<Rightarrow> string \<Rightarrow> bool \<Rightarrow> bool" where
  "boolField env obj name dflt = (let v = get obj name in if \<not> isSet v then dflt else toBool env v)"

definition floatField :: "js_env \<Rightarrow> (string \<times> jsvalue) list \<Rightarrow> string \<Rightarrow> real \<Rightarrow> real" where
  "floatField env obj name dflt = (let v = get obj name in if \<not> isSet v then dflt else toFloat env v)"

text \<open>\<open>time.Duration(x)\<close> of a float truncates; the product of an integer with a second wraps.\<close>

definition toDuration :: "js_env \<Rightarrow> string \<Rightarrow> jsvalue \<Rightarrow> js_error + duration" where
  "toDuration env what v =
     (case v of
        JStr x \<Rightarrow> (case parseFloat env x of Some secs \<Rightarrow> Inr (truncate_real (secs * 1000000000))
                   | None \<Rightarrow> (case parseDur env x of Inl e \<Rightarrow> Inl (BadDuration what e) | Inr d \<Rightarrow> Inr d))
      | JInt x \<Rightarrow> Inr (wrap64 (x * 1000000000))
      | JFloat x \<Rightarrow> Inr (truncate_real (x * 1000000000))
      | _ \<Rightarrow> Inl (ExpectedDuration what))"

definition durationField :: "js_env \<Rightarrow> (string \<times> jsvalue) list \<Rightarrow> string \<Rightarrow> duration \<Rightarrow> js_error + duration" where
  "durationField env obj name dflt = (let v = get obj name in if \<not> isSet v then Inr dflt else toDuration env name v)"

definition durationArg :: "js_env \<Rightarrow> jsvalue \<Rightarrow> duration \<Rightarrow> js_error + duration" where
  "durationArg env v dflt = (if \<not> isSet v then Inr dflt else toDuration env ''timeout'' v)"

definition headersField :: "js_env \<Rightarrow> (string \<times> jsvalue) list \<Rightarrow> js_error + (string \<times> string) list" where
  "headersField env obj =
     (let v = get obj ''headers''
      in if \<not> isSet v then Inr []
         else and_then (objectArg env ''headers'' v) (\<lambda>ho. Inr (map (\<lambda>(k, w). (k, toStr env w)) ho)))"

section \<open>Media settings\<close>

text \<open>One setting: read when it is given, and then something has changed.\<close>

definition setting :: "string \<Rightarrow> (jsvalue \<Rightarrow> js_error + 'x) \<Rightarrow> ('x \<Rightarrow> 'm \<Rightarrow> 'm) \<Rightarrow> (string \<times> jsvalue) list \<Rightarrow>
    'm \<times> bool \<Rightarrow> js_error + ('m \<times> bool)" where
  "setting name rd put' obj st =
     (let v = get obj name
      in if \<not> isSet v then Inr st else and_then (rd v) (\<lambda>x. Inr (put' x (fst st), True)))"

definition read_codecs :: "js_env \<Rightarrow> jsvalue \<Rightarrow> js_error + Codec list" where
  "read_codecs env v =
     (let s = (case v of JArr xs \<Rightarrow> concat (map (\<lambda>x. sprint env x @ '','') xs) | _ \<Rightarrow> toStr env v)
      in case ParseCodecs s of Inl e \<Rightarrow> Inl (BadCodecs e) | Inr cs \<Rightarrow> Inr cs)"

text \<open>The handles of the two built-in sources are parameters.\<close>

definition read_audio :: "nat \<Rightarrow> nat \<Rightarrow> jsvalue \<Rightarrow> js_error + nat" where
  "read_audio tone silent v =
     (case v of JAudio a \<Rightarrow> Inr a
      | JStr x \<Rightarrow> if x = ''tone'' then Inr tone else if x = ''silence'' then Inr silent else Inl BadAudio
      | _ \<Rightarrow> Inl BadAudio)"

definition read_record :: "jsvalue \<Rightarrow> js_error + RecordMode" where
  "read_record v =
     (case v of JBool x \<Rightarrow> Inr (if x then RecordAlways else RecordOff)
      | JStr x \<Rightarrow> if x = ''onFailure'' then Inr RecordOnFailure else if x = ''always'' then Inr RecordAlways
                  else if x = ''off'' then Inr RecordOff else Inl BadRecord
      | _ \<Rightarrow> Inl BadRecord)"

record js_media =
  js :: js_env
  toneAudio :: nat
  silentAudio :: nat

definition mediaFields :: "js_media \<Rightarrow> (string \<times> jsvalue) list \<Rightarrow> nat MediaOptions \<Rightarrow> js_error + (nat MediaOptions \<times> bool)" where
  "mediaFields jm obj base =
     and_then (setting ''media'' (\<lambda>v. Inr (\<not> toBool (js jm) v)) (\<lambda>x mo. mo\<lparr>Disabled := x\<rparr>) obj (base, False)) (\<lambda>s1.
     and_then (setting ''codecs'' (read_codecs (js jm)) (\<lambda>x mo. mo\<lparr>Codecs_opt := x\<rparr>) obj s1) (\<lambda>s2.
     and_then (setting ''audio'' (read_audio (toneAudio jm) (silentAudio jm)) (\<lambda>x mo. mo\<lparr>Audio_opt := Some x\<rparr>) obj s2) (\<lambda>s3.
     and_then (setting ''heardLevel'' (\<lambda>v. Inr (toFloat (js jm) v)) (\<lambda>x mo. mo\<lparr>HeardLevel := x\<rparr>) obj s3) (\<lambda>s4.
     and_then (setting ''record'' read_record (\<lambda>x mo. mo\<lparr>Record := x\<rparr>) obj s4) (\<lambda>s5.
     setting ''recordDir'' (\<lambda>v. Inr (toStr (js jm) v)) (\<lambda>x mo. mo\<lparr>RecordDir := x\<rparr>) obj s5)))))"

definition sameMedia :: "nat MediaOptions \<Rightarrow> nat MediaOptions \<Rightarrow> bool" where
  "sameMedia a b \<longleftrightarrow>
     Disabled a = Disabled b \<and> Audio_opt a = Audio_opt b \<and> HeardLevel a = HeardLevel b \<and>
     Record a = Record b \<and> RecordDir a = RecordDir b \<and> map Name (Codecs_opt a) = map Name (Codecs_opt b)"

section \<open>The Device object\<close>

definition deviceKeys :: "string list" where
  "deviceKeys =
     [''device'', ''registrar'', ''proxy'', ''user'', ''authUser'', ''pass'', ''password'', ''expires'',
      ''register'', ''displayName'', ''media'', ''codecs'', ''audio'', ''heardLevel'', ''sessionExpires'', ''prack'']"

record scriptConfig = devConfig +
  NoRegister :: bool
  DisplayName :: string
  usePRACK :: bool
  deviceMedia :: "nat MediaOptions option"

text \<open>Every other field with a value that is not empty is an identity.\<close>

definition identities :: "js_env \<Rightarrow> (string \<times> jsvalue) list \<Rightarrow> string \<rightharpoonup> string" where
  "identities env obj =
     fold (\<lambda>k m. if k \<in> set deviceKeys then m
                 else let v = get obj k
                      in if isSet v then let s = toStr env v in if s \<noteq> [] then m(k \<mapsto> s) else m
                         else m)
       (map fst obj) Map.empty"

definition script_config :: "js_env \<Rightarrow> (string \<times> jsvalue) list \<Rightarrow> duration \<Rightarrow> duration \<Rightarrow> nat MediaOptions option \<Rightarrow> scriptConfig" where
  "script_config env obj expires' sessionExpires' mo =
     \<lparr>dcID = stringField env obj ''device'' [], dcRegistrar = stringField env obj ''registrar'' [],
      dcProxy = stringField env obj ''proxy'' [], dcUser = stringField env obj ''user'' [],
      dcAuthUser = stringField env obj ''authUser'' [],
      dcPassword = stringField env obj ''pass'' (stringField env obj ''password'' []),
      dcExpires = expires', dcSessionExpires = sessionExpires', dcIdentities = identities env obj,
      NoRegister = \<not> boolField env obj ''register'' True,
      DisplayName = stringField env obj ''displayName'' [], usePRACK = boolField env obj ''prack'' False,
      deviceMedia = mo\<rparr>"

definition newDevice :: "js_media \<Rightarrow> uri_env \<Rightarrow> nat MediaOptions \<Rightarrow> jsvalue \<Rightarrow> js_error + (scriptConfig \<times> device)" where
  "newDevice jm uris engineMedia v =
     and_then (objectArg (js jm) ''Device'' v) (\<lambda>obj.
     and_then (durationField (js jm) obj ''expires'' 0) (\<lambda>expires'.
     and_then (durationField (js jm) obj ''sessionExpires'' 0) (\<lambda>sessionExpires'.
     and_then (mediaFields jm obj engineMedia) (\<lambda>(mo, changed).
       let c = script_config (js jm) obj expires' sessionExpires' (if changed then Some mo else None)
       in case NewDevice uris (devConfig.truncate c) of
            Inl e \<Rightarrow> Inl (DeviceError e) | Inr d \<Rightarrow> Inr (c, d)))))"

lemma newDevice_Inr:
  assumes "newDevice jm uris eng v = Inr (c, d)"
  obtains obj e se mo where "objectArg (js jm) ''Device'' v = Inr obj" "c = script_config (js jm) obj e se mo"
    "NewDevice uris (devConfig.truncate c) = Inr d"
proof -
  obtain obj e se p where o: "objectArg (js jm) ''Device'' v = Inr obj"
    and r: "(case p of (mo, changed) \<Rightarrow>
       let c = script_config (js jm) obj e se (if changed then Some mo else None)
       in case NewDevice uris (devConfig.truncate c) of Inl e \<Rightarrow> Inl (DeviceError e) | Inr d \<Rightarrow> Inr (c, d)) = Inr (c, d)"
    using assms unfolding newDevice_def and_then_Inr by blast
  obtain mo changed where p: "p = (mo, changed)" by fastforce
  let ?c = "script_config (js jm) obj e se (if changed then Some mo else None)"
  show ?thesis
    using r o by (cases "NewDevice uris (devConfig.truncate ?c)") (auto simp: p Let_def intro: that)
qed

lemma NewDevice_identities: "NewDevice uris c = Inr d \<Longrightarrow> dcIdentities (dvCfg d) = dcIdentities c"
  by (auto simp: NewDevice_def Let_def split: if_splits sum.splits prod.splits)

text \<open>The devices behind the handles, and their script names.\<close>

definition deviceArg :: "jsvalue \<Rightarrow> nat option" where
  "deviceArg v = (if \<not> isSet v then None else case v of JDevice n \<Rightarrow> Some n | _ \<Rightarrow> None)"

definition dialTarget :: "js_env \<Rightarrow> (nat \<Rightarrow> device) \<Rightarrow> (string \<times> jsvalue) list \<Rightarrow> js_error + string" where
  "dialTarget env devs obj =
     (let aon = stringField env obj ''aon'' []; calleeV = get obj ''callee''
      in case deviceArg calleeV of
           Some n \<Rightarrow>
             (case Identity (devs n) (if aon = [] then ''ext'' else aon) of
                Some num \<Rightarrow> Inr num
              | None \<Rightarrow> Inl (if aon = [] then NoExt (dcID (dvCfg (devs n))) else NoIdentity (dcID (dvCfg (devs n))) aon))
         | None \<Rightarrow>
             if isSet calleeV then Inr (toStr env calleeV)
             else if aon \<noteq> [] then Inr aon
             else Inl CalleeOrAonRequired)"

record CallMatch =
  Caller :: string
  CallerDevice :: "nat option"

definition callerMatch :: "js_env \<Rightarrow> (nat \<Rightarrow> device) \<Rightarrow> (string \<times> jsvalue) list \<Rightarrow> js_error + CallMatch" where
  "callerMatch env devs obj =
     (let aon = stringField env obj ''aon'' []; callerV = get obj ''caller''
      in case deviceArg callerV of
           Some n \<Rightarrow>
             if aon = [] then Inr \<lparr>Caller = [], CallerDevice = Some n\<rparr>
             else (case Identity (devs n) aon of
                     None \<Rightarrow> Inl (NoIdentity (dcID (dvCfg (devs n))) aon)
                   | Some num \<Rightarrow> Inr \<lparr>Caller = num, CallerDevice = Some n\<rparr>)
         | None \<Rightarrow> Inr \<lparr>Caller = (if isSet callerV then toStr env callerV else aon), CallerDevice = None\<rparr>)"

record callOptions =
  coTarget :: string
  coHeaders :: "(string \<times> string) list"
  coTimeout :: duration
  coLabel :: string
  coMedia :: "nat MediaOptions option"

definition call_options :: "js_media \<Rightarrow> (nat \<Rightarrow> device) \<Rightarrow> nat MediaOptions \<Rightarrow> jsvalue \<Rightarrow> js_error + callOptions" where
  "call_options jm devs deviceOptions v =
     (let env = js jm in
      and_then (objectArg env ''call'' v) (\<lambda>obj.
      and_then (dialTarget env devs obj) (\<lambda>target.
      and_then (durationField env obj ''timeout'' 0) (\<lambda>timeout.
      and_then (headersField env obj) (\<lambda>hs.
      and_then (mediaFields jm obj deviceOptions) (\<lambda>(mo, changed).
        Inr \<lparr>coTarget = target, coHeaders = hs, coTimeout = timeout, coLabel = stringField env obj ''id'' [],
             coMedia = (if changed then Some mo else None)\<rparr>))))))"

text \<open>
  The devices \<open>Call\<close> starts, in order, and whether it goes on to send the INVITE: the callee first,
  if it is a device, then the caller; a device that cannot start ends the call there.
\<close>

definition call_starts :: "(nat \<Rightarrow> bool) \<Rightarrow> nat \<Rightarrow> nat option \<Rightarrow> nat list \<times> bool" where
  "call_starts starts self callee' =
     (case callee' of None \<Rightarrow> ([self], starts self)
      | Some n \<Rightarrow> if \<not> starts n then ([n], False) else ([n, self], starts self))"

section \<open>Shared audio\<close>

text \<open>\<open>made\<close> is what \<open>make\<close> returns if it is called; the result says whether it was.\<close>

definition cache_get :: "'k \<Rightarrow> 'e + 'a \<Rightarrow> ('k \<rightharpoonup> 'a) \<Rightarrow> ('e + 'a) \<times> bool \<times> ('k \<rightharpoonup> 'a)" where
  "cache_get key made m =
     (case m key of Some a \<Rightarrow> (Inr a, False, m)
      | None \<Rightarrow> (case made of Inl e \<Rightarrow> (Inl e, True, m) | Inr a \<Rightarrow> (Inr a, True, m(key \<mapsto> a))))"

section \<open>The call object\<close>

record js_call_state =
  jsSys :: sys
  jsSamples :: "sample list"

definition js_expect :: "vuObserver \<Rightarrow> vu \<Rightarrow> string \<Rightarrow> bool \<Rightarrow> js_call_state \<Rightarrow> js_call_state \<times> bool" where
  "js_expect ob v what ok s =
     (if \<not> ok then (\<lparr>jsSys = MarkFailed (jsSys s), jsSamples = jsSamples s @ expectFailed ob v what\<rparr>, ok) else (s, ok))"

text \<open>A wait reports what the engine's wait returned in the end.\<close>

definition js_wait :: "js_env \<Rightarrow> duration \<Rightarrow> vuObserver \<Rightarrow> vu \<Rightarrow> string \<Rightarrow> jsvalue \<Rightarrow> (duration \<Rightarrow> bool) \<Rightarrow>
    js_call_state \<Rightarrow> js_error + (js_call_state \<times> bool)" where
  "js_wait env expectTimeout ob v what timeout result s =
     and_then (durationArg env timeout expectTimeout) (\<lambda>t. Inr (js_expect ob v what (result t) s))"

definition js_Reject :: "js_env \<Rightarrow> jsvalue \<Rightarrow> jsvalue \<Rightarrow> Call \<Rightarrow> Call \<times> bool" where
  "js_Reject env code' reason' c =
     Reject (if isSet code' then toInt env code' else 603) (if isSet reason' then toStr env reason' else []) c"

definition state_str :: "State \<Rightarrow> string" where
  "state_str s =
     (case s of StateCalling \<Rightarrow> ''calling'' | StateRinging \<Rightarrow> ''ringing'' | StateConnected \<Rightarrow> ''connected'' | StateEnded \<Rightarrow> ''ended'')"

definition js_HowCompleted :: "Call \<Rightarrow> (string \<times> int \<times> string \<times> real) option" where
  "js_HowCompleted c =
     map_option (\<lambda>k. (endedBy_str (compBy k), compStatus k, compReason k, ms (compDuration k))) (completion c)"

definition js_transfer_target :: "js_env \<Rightarrow> (nat \<Rightarrow> device) \<Rightarrow> jsvalue \<Rightarrow> jsvalue \<Rightarrow> js_error + string" where
  "js_transfer_target env devs dest aon =
     dialTarget env devs ([(''callee'', dest)] @ (if isSet aon then [(''aon'', aon)] else []))"

definition js_SendDTMF :: "js_env \<Rightarrow> string \<Rightarrow> jsvalue \<Rightarrow> Call \<Rightarrow> Call \<times> bool" where
  "js_SendDTMF env ds durMs c =
     (let dur = (if isSet durMs then truncate_real (toFloat env durMs * 1000000) else 100 * 1000000)
      in case call_send_dtmf ds dur c of Inl e \<Rightarrow> (c, False) | Inr c' \<Rightarrow> (c', True))"

definition js_CompareAudio :: "vuObserver \<Rightarrow> vu \<Rightarrow> Audio \<Rightarrow> js_call_state \<Rightarrow> js_call_state \<times> Quality option" where
  "js_CompareAudio ob v ref s =
     (case CompareAudio ref (call (jsSys s)) of
        Inr (Some q) \<Rightarrow> (s\<lparr>jsSamples := jsSamples s @ on_audioScore ob v (Score q)\<rparr>, Some q)
      | _ \<Rightarrow> (s, None))"

section \<open>The most specific setting counts\<close>

text \<open>What \<open>setting\<close> does to a field it writes and to one it does not.\<close>

lemma setting_Inr:
  "setting name rd put' obj st = Inr st' \<longleftrightarrow>
     (if isSet (get obj name) then \<exists>x. rd (get obj name) = Inr x \<and> st' = (put' x (fst st), True) else st' = st)"
  by (auto simp: setting_def Let_def and_then_Inr)

text \<open>The value that counts: the one of the first object that gives it, or the default.\<close>

definition chosen :: "string \<Rightarrow> (jsvalue \<Rightarrow> js_error + 'x) \<Rightarrow> (string \<times> jsvalue) list \<Rightarrow> 'x \<Rightarrow> 'x" where
  "chosen name rd obj dflt = (if isSet (get obj name) then case rd (get obj name) of Inr x \<Rightarrow> x | Inl _ \<Rightarrow> dflt else dflt)"

definition chosen_media :: "js_media \<Rightarrow> (string \<times> jsvalue) list \<Rightarrow> nat MediaOptions \<Rightarrow> nat MediaOptions" where
  "chosen_media jm obj base =
     \<lparr>Disabled = chosen ''media'' (\<lambda>v. Inr (\<not> toBool (js jm) v)) obj (Disabled base),
      Codecs_opt = chosen ''codecs'' (read_codecs (js jm)) obj (Codecs_opt base),
      Audio_opt = chosen ''audio'' (\<lambda>v. case read_audio (toneAudio jm) (silentAudio jm) v of Inl e \<Rightarrow> Inl e | Inr x \<Rightarrow> Inr (Some x)) obj (Audio_opt base),
      HeardLevel = chosen ''heardLevel'' (\<lambda>v. Inr (toFloat (js jm) v)) obj (HeardLevel base),
      Record = chosen ''record'' read_record obj (Record base),
      RecordDir = chosen ''recordDir'' (\<lambda>v. Inr (toStr (js jm) v)) obj (RecordDir base)\<rparr>"

definition media_keys :: "string list" where
  "media_keys = [''media'', ''codecs'', ''audio'', ''heardLevel'', ''record'', ''recordDir'']"

lemma setting_chosen:
  assumes "setting name rd put' obj st = Inr st'" "put' (sel (fst st)) (fst st) = fst st"
  shows "st' = (put' (chosen name rd obj (sel (fst st))) (fst st), snd st \<or> isSet (get obj name))"
  using assms by (cases st) (auto simp: setting_Inr chosen_def split: if_splits)

lemma mediaFields_chosen:
  assumes "mediaFields jm obj base = Inr (mo, changed)"
  shows "mo = chosen_media jm obj base \<and> (changed \<longleftrightarrow> (\<exists>k \<in> set media_keys. isSet (get obj k)))"
proof -
  obtain s1 s2 s3 s4 s5 where
    1: "setting ''media'' (\<lambda>v. Inr (\<not> toBool (js jm) v)) (\<lambda>x mo. mo\<lparr>Disabled := x\<rparr>) obj (base, False) = Inr s1"
    and 2: "setting ''codecs'' (read_codecs (js jm)) (\<lambda>x mo. mo\<lparr>Codecs_opt := x\<rparr>) obj s1 = Inr s2"
    and 3: "setting ''audio'' (read_audio (toneAudio jm) (silentAudio jm)) (\<lambda>x mo. mo\<lparr>Audio_opt := Some x\<rparr>) obj s2 = Inr s3"
    and 4: "setting ''heardLevel'' (\<lambda>v. Inr (toFloat (js jm) v)) (\<lambda>x mo. mo\<lparr>HeardLevel := x\<rparr>) obj s3 = Inr s4"
    and 5: "setting ''record'' read_record (\<lambda>x mo. mo\<lparr>Record := x\<rparr>) obj s4 = Inr s5"
    and 6: "setting ''recordDir'' (\<lambda>v. Inr (toStr (js jm) v)) (\<lambda>x mo. mo\<lparr>RecordDir := x\<rparr>) obj s5 = Inr (mo, changed)"
    using assms unfolding mediaFields_def and_then_Inr by blast
  let ?ra = "\<lambda>v. case read_audio (toneAudio jm) (silentAudio jm) v of Inl e \<Rightarrow> Inl e | Inr x \<Rightarrow> Inr (Some x)"
  have 3: "setting ''audio'' ?ra (\<lambda>x mo. mo\<lparr>Audio_opt := x\<rparr>) obj s2 = Inr s3"
    using 3 by (auto simp: setting_Inr split: if_splits)
  note s1 = setting_chosen [OF 1, where sel = Disabled] and s2 = setting_chosen [OF 2, where sel = Codecs_opt]
    and s3 = setting_chosen [OF 3, where sel = Audio_opt] and s4 = setting_chosen [OF 4, where sel = HeardLevel]
    and s5 = setting_chosen [OF 5, where sel = Record] and s6 = setting_chosen [OF 6, where sel = RecordDir]
  show ?thesis
    using s6 unfolding s5 [simplified] s4 [simplified] s3 [simplified] s2 [simplified] s1 [simplified]
    by (simp add: chosen_media_def media_keys_def)
qed

text \<open>
  The options of a call: the device's are read over the engine's when it is created, the call's over
  those, and the engine then picks one of the three.
\<close>

definition call_media :: "js_media \<Rightarrow> nat MediaOptions \<Rightarrow> (string \<times> jsvalue) list \<Rightarrow> (string \<times> jsvalue) list \<Rightarrow>
    js_error + nat MediaOptions" where
  "call_media jm eng devObj callObj =
     and_then (mediaFields jm devObj eng) (\<lambda>(dm, dch).
       let dev = (if dch then Some dm else None)
       in and_then (mediaFields jm callObj (mediaOptions eng dev None)) (\<lambda>(cm, cch).
            Inr (mediaOptions eng dev (if cch then Some cm else None))))"

lemma unchanged_media: "\<not> (\<exists>k \<in> set media_keys. isSet (get obj k)) \<Longrightarrow> chosen_media jm obj base = base"
  by (simp add: chosen_media_def media_keys_def chosen_def)

text \<open>C37: The most specific setting counts, one by one: whatever is given with the call, the device and in the options, each media setting a call ends up with is the call's own if it has one, else the device's, else the engine's, although the program only passes whole sets of options on.\<close>
theorem media_precedence:
  assumes "call_media jm eng devObj callObj = Inr mo"
  shows "mo = chosen_media jm callObj (chosen_media jm devObj eng)"
proof -
  obtain dm dch where d: "mediaFields jm devObj eng = Inr (dm, dch)"
    using assms by (auto simp: call_media_def and_then_Inr)
  let ?dev = "if dch then Some dm else None"
  have base: "mediaOptions eng ?dev None = chosen_media jm devObj eng"
    using mediaFields_chosen [OF d] unchanged_media [of devObj jm eng] by (auto simp: mediaOptions_def)
  obtain cm cch where c: "mediaFields jm callObj (chosen_media jm devObj eng) = Inr (cm, cch)"
    and mo: "mo = mediaOptions eng ?dev (if cch then Some cm else None)"
    using assms by (auto simp: call_media_def and_then_Inr d Let_def base)
  show ?thesis
    using mediaFields_chosen [OF c] unchanged_media [of callObj jm "chosen_media jm devObj eng"] base mo
    by (cases cch) (auto simp: mediaOptions_def)
qed

section \<open>Numbers of devices\<close>

text \<open>sobek: a string turned into a string is itself.\<close>

definition plain_strings :: "js_env \<Rightarrow> bool" where
  "plain_strings env \<longleftrightarrow> (\<forall>s. toStr env (JStr s) = s)"

lemma identities_given:
  assumes "plain_strings env" "get obj k = JStr num" "num \<noteq> []" "k \<notin> set deviceKeys" "k \<in> fst ` set obj"
  shows "identities env obj k = Some num"
proof -
  let ?step = "\<lambda>k m. if k \<in> set deviceKeys then m
                 else let v = get obj k
                      in if isSet v then let s = toStr env v in if s \<noteq> [] then m(k \<mapsto> s) else m
                         else m"
  have "fold ?step ks m k = (if k \<in> set ks then Some num else m k)" for ks m
  proof (induction ks arbitrary: m)
    case (Cons j ks)
    have "?step j m k = (if j = k then Some num else m k)"
      using assms(1-4) by (auto simp: isSet_def plain_strings_def Let_def)
    then show ?case using Cons [of "?step j m"] by auto
  qed simp
  then show ?thesis using assms(5) by (simp add: identities_def)
qed

text \<open>Scripts dial devices by name: a number given to a device under a name of its own is what a call to that device under this name dials, what a transfer to it refers to, and what an expected call from it must come from, as far as the number goes.\<close>
theorem identity_reached:
  assumes "plain_strings (js jm)" "newDevice jm uris eng v = Inr (c, d)" "objectArg (js jm) ''Device'' v = Inr obj"
    and "get obj k = JStr num" "num \<noteq> []" "k \<noteq> []" "k \<notin> set deviceKeys" "devs n = d"
  shows "dialTarget (js jm) devs [(''callee'', JDevice n), (''aon'', JStr k)] = Inr num \<and>
    js_transfer_target (js jm) devs (JDevice n) (JStr k) = Inr num \<and>
    (\<exists>m. callerMatch (js jm) devs [(''caller'', JDevice n), (''aon'', JStr k)] = Inr m \<and> CallerDevice m = Some n \<and> numbersMatch (Caller m) num)"
proof -
  have "k \<in> fst ` set obj"
    using assms(4) map_of_eq_None_iff [of obj k] by (auto simp: get_def split: option.splits)
  then have given: "identities (js jm) obj k = Some num" using identities_given assms by blast
  have "dcIdentities (dvCfg d) = identities (js jm) obj"
    using assms(2,3) by (auto elim!: newDevice_Inr dest!: NewDevice_identities simp: devConfig.truncate_def script_config_def)
  then have ident: "Identity (devs n) k = Some num" using given assms(8) by (simp add: Identity_def)
  have aon: "stringField (js jm) [(x, JDevice n), (''aon'', JStr k)] ''aon'' [] = k" if "x \<noteq> ''aon''" for x
    using assms(1) that by (simp add: stringField_def get_def isSet_def plain_strings_def)
  have dial: "dialTarget (js jm) devs [(''callee'', JDevice n), (''aon'', JStr k)] = Inr num"
    using ident assms(6) aon [of "''callee''"] by (simp add: dialTarget_def deviceArg_def get_def isSet_def)
  have "numbersMatch num num" by (simp add: numbersMatch_def)
  moreover have "callerMatch (js jm) devs [(''caller'', JDevice n), (''aon'', JStr k)] = Inr \<lparr>Caller = num, CallerDevice = Some n\<rparr>"
    using ident assms(6) aon [of "''caller''"] by (simp add: callerMatch_def deviceArg_def get_def isSet_def)
  ultimately show ?thesis
    using dial by (simp add: js_transfer_target_def isSet_def numbersMatch_def)
qed

section \<open>One copy of every source\<close>

text \<open>A run of lookups: every result and the cache at the end.\<close>

fun cache_run :: "('k \<times> ('e + 'a)) list \<Rightarrow> ('k \<rightharpoonup> 'a) \<Rightarrow> ('k \<times> ('e + 'a) \<times> bool) list" where
  "cache_run [] m = []"
| "cache_run ((k, made) # gs) m = (let (r, called, m') = cache_get k made m in (k, r, called) # cache_run gs m')"

lemma cache_hit: "m k = Some a \<Longrightarrow> (k, r, called) \<in> set (cache_run gs m) \<Longrightarrow> r = Inr a \<and> \<not> called"
proof (induction gs arbitrary: m)
  case (Cons g gs)
  obtain k' made where g: "g = (k', made)" by fastforce
  obtain r' called' m' where c: "cache_get k' made m = (r', called', m')" by (cases "cache_get k' made m") auto
  then have "m' k = Some a" using Cons.prems(1) by (auto simp: cache_get_def split: option.splits sum.splits if_splits)
  moreover have "k' = k \<Longrightarrow> r' = Inr a \<and> \<not> called'" using c Cons.prems(1) by (auto simp: cache_get_def)
  ultimately show ?case using Cons.IH [of m'] Cons.prems(2) by (auto simp: g c)
qed simp

lemma cache_run_length: "length (cache_run gs m) = length gs"
  by (induction gs m rule: cache_run.induct) (auto split: prod.split)

lemma cache_run_keys: "q < length gs \<Longrightarrow> fst (cache_run gs m ! q) = fst (gs ! q)"
  by (induction gs m arbitrary: q rule: cache_run.induct) (auto simp: nth_Cons' split: prod.split)

text \<open>Sources are shared: over any sequence of requests for audio, all the requests for one key that succeed get the same source, and it is made for at most one of them, whatever the failed attempts before.\<close>
theorem audio_shared:
  assumes "i < j" "j < length gs" "fst (gs ! i) = fst (gs ! j)" "fst (snd (cache_run gs m ! i)) = Inr a"
  shows "fst (snd (cache_run gs m ! j)) = Inr a \<and> \<not> snd (snd (cache_run gs m ! j))"
  using assms
proof (induction gs arbitrary: m i j)
  case (Cons g gs)
  obtain k made where g: "g = (k, made)" by fastforce
  obtain r called m' where c: "cache_get k made m = (r, called, m')" by (cases "cache_get k made m") auto
  obtain q where j: "j = Suc q" "q < length gs" using Cons.prems(1,2) by (cases j) auto
  show ?case
  proof (cases i)
    case 0
    have "r = Inr a" using Cons.prems(4) 0 by (simp add: g c)
    moreover have "fst (gs ! q) = k" using Cons.prems(3) 0 j by (simp add: g)
    note same = this
    ultimately have hit: "m' k = Some a" using c by (auto simp: cache_get_def split: option.splits sum.splits)
    have "cache_run gs m' ! q \<in> set (cache_run gs m')" using j by (simp add: cache_run_length)
    moreover obtain k2 r2 c2 where e: "cache_run gs m' ! q = (k2, r2, c2)" by (cases "cache_run gs m' ! q") auto
    moreover have "k2 = k" using cache_run_keys [OF j(2), of m'] same e by simp
    ultimately have "r2 = Inr a \<and> \<not> c2" using cache_hit [of m' k a r2 c2 gs] hit by simp
    then show ?thesis using j e by (simp add: g c)
  next
    case (Suc i')
    then show ?thesis using Cons.IH [of i' q m'] Cons.prems j by (simp add: g c)
  qed
qed simp

text \<open>A failed expectation counts once, and the call behind it is marked.\<close>

lemma js_expect_result:
  assumes "live v"
  shows "snd (js_expect ob v what ok s) = ok"
    "count_of ''sip_expect_failed'' (jsSamples (fst (js_expect ob v what ok s))) =
       count_of ''sip_expect_failed'' (jsSamples s) + (if ok then 0 else 1)"
    "\<not> ok \<Longrightarrow> jsSys (fst (js_expect ob v what ok s)) = MarkFailed (jsSys s)"
  by (simp_all add: js_expect_def expectFailed_def of_push [OF assms])

text \<open>
  \<open>deviceKeys\<close> was not extended when \<open>record\<close> and \<open>recordDir\<close> were added to the media settings: a device that
  sets them gets an identity of that name as well.
\<close>

theorem record_is_an_identity:
  "toStr env (JBool True) \<noteq> [] \<Longrightarrow> identities env [(''record'', JBool True)] ''record'' = Some (toStr env (JBool True))"
  by (simp add: identities_def deviceKeys_def get_def isSet_def Let_def)

section \<open>An example\<close>

definition demo_js :: js_media where
  "demo_js = \<lparr>js = \<lparr>toStr = (\<lambda>v. case v of JStr s \<Rightarrow> s | _ \<Rightarrow> ''?''), toBool = (\<lambda>v. v = JBool True), toFloat = (\<lambda>_. 0), toInt = (\<lambda>_. 0),
     sprint = (\<lambda>_. []), props = (\<lambda>_. []), parseFloat = (\<lambda>_. None), parseDur = (\<lambda>_. Inl [])\<rparr>, toneAudio = 0, silentAudio = 1\<rparr>"

definition demo_object :: "(string \<times> jsvalue) list" where
  "demo_object = [(''registrar'', JStr ''pbx''), (''user'', JStr ''alice''), (''ext'', JStr ''701''), (''record'', JStr ''onFailure'')]"

definition demo_options :: "nat MediaOptions" where
  "demo_options = \<lparr>Disabled = False, Codecs_opt = [], Audio_opt = None, HeardLevel = 0, Record = RecordOff, RecordDir = ''rec''\<rparr>"

lemma demo_fields:
  "mediaFields demo_js demo_object demo_options = Inr (demo_options\<lparr>Record := RecordOnFailure\<rparr>, True)"
  "mediaFields demo_js [(''recordDir'', JStr ''mine'')] (demo_options\<lparr>Record := RecordOnFailure\<rparr>) =
     Inr (demo_options\<lparr>Record := RecordOnFailure, RecordDir := ''mine''\<rparr>, True)"
  by (simp_all add: mediaFields_def setting_def demo_object_def get_def isSet_def read_record_def demo_options_def demo_js_def Let_def)

theorem media_precedence_witness:
  "Record (chosen_media demo_js [(''recordDir'', JStr ''mine'')] (chosen_media demo_js demo_object demo_options)) = RecordOnFailure \<and>
   RecordDir (chosen_media demo_js [(''recordDir'', JStr ''mine'')] (chosen_media demo_js demo_object demo_options)) = ''mine''"
proof -
  have "call_media demo_js demo_options demo_object [(''recordDir'', JStr ''mine'')] =
      Inr (demo_options\<lparr>Record := RecordOnFailure, RecordDir := ''mine''\<rparr>)"
    by (simp add: call_media_def demo_fields mediaOptions_def Let_def)
  from media_precedence [OF this] have
    "chosen_media demo_js [(''recordDir'', JStr ''mine'')] (chosen_media demo_js demo_object demo_options) =
       demo_options\<lparr>Record := RecordOnFailure, RecordDir := ''mine''\<rparr>" by (rule sym)
  then show ?thesis by simp
qed

theorem identity_reached_witness:
  "\<exists>c d. newDevice demo_js demo_uris demo_options (JObj demo_object) = Inr (c, d) \<and>
     dialTarget (js demo_js) (\<lambda>_. d) [(''callee'', JDevice 4), (''aon'', JStr ''ext'')] = Inr ''701''"
proof -
  have obj: "objectArg (js demo_js) ''Device'' (JObj demo_object) = Inr demo_object" by (simp add: objectArg_def isSet_def)
  have dur: "durationField (js demo_js) demo_object ''expires'' 0 = Inr 0" "durationField (js demo_js) demo_object ''sessionExpires'' 0 = Inr 0"
    by (simp_all add: durationField_def get_def isSet_def demo_object_def)
  have str: "stringField (js demo_js) demo_object ''registrar'' [] = ''pbx''" "stringField (js demo_js) demo_object ''user'' [] = ''alice''"
    by (simp_all add: stringField_def get_def isSet_def demo_object_def demo_js_def)
  let ?c = "script_config (js demo_js) demo_object 0 0 (Some (demo_options\<lparr>Record := RecordOnFailure\<rparr>))"
  have "dcRegistrar (devConfig.truncate ?c) = ''pbx''" "dcUser (devConfig.truncate ?c) = ''alice''"
    by (simp_all add: devConfig.truncate_def script_config_def str)
  then have "\<exists>d. NewDevice demo_uris (devConfig.truncate ?c) = Inr d"
    by (simp add: NewDevice_def demo_uris_def HasPrefix_def Let_def)
  then obtain c d where n: "newDevice demo_js demo_uris demo_options (JObj demo_object) = Inr (c, d)"
    by (auto simp: newDevice_def obj demo_fields dur Let_def)
  have "plain_strings (js demo_js)" by (simp add: plain_strings_def demo_js_def)
  moreover have "get demo_object ''ext'' = JStr ''701''" by (simp add: get_def demo_object_def)
  ultimately have "dialTarget (js demo_js) (\<lambda>_. d) [(''callee'', JDevice 4), (''aon'', JStr ''ext'')] = Inr ''701''"
    using identity_reached [OF _ n obj, of "''ext''" "''701''" "\<lambda>_. d" 4] by (simp add: deviceKeys_def)
  then show ?thesis using n by blast
qed

theorem audio_shared_witness:
  "fst (snd (cache_run [(''a'', Inl ''bad''), (''a'', Inr 7), (''b'', Inr 8), (''a'', Inr (9 :: nat))] Map.empty ! 3)) = Inr 7"
  using audio_shared [of 1 3 "[(''a'', Inl ''bad''), (''a'', Inr 7), (''b'', Inr 8), (''a'', Inr (9 :: nat))]" Map.empty 7]
  by (simp add: cache_get_def)

end
