(* ===== verification/Options.thy ===== *)
theory Options
  imports Script
begin

text \<open>
  The module all scripts of a process share, \<open>module.go\<close>: its options, which freeze when the first
  device creates the engine, and the actions of \<open>jsdevice.go\<close>, \<open>jsmedia.go\<close> and \<open>jscall.go\<close> on top of the
  engine's operations. The hash of a WAV file, the formatting of a tone's parameters, the start of the
  exporter's HTTP server and what an operation of the engine returns are parameters.
\<close>

section \<open>Options\<close>

record scriptEngineOptions =
  LocalIP :: string
  RegisterRate :: real
  RingTimeout :: duration
  TraceBodies :: bool
  Media :: "nat MediaOptions"

record moduleOptions =
  engineOpts :: scriptEngineOptions
  expectTimeout :: duration
  optDeviceTag :: bool

record RootModule =
  rootOpts :: moduleOptions
  engine :: "scriptEngineOptions option"   \<comment> \<open>what the engine was created with\<close>
  exporter :: "(string \<times> string option) option"   \<comment> \<open>once started: its address and its error\<close>

definition no_media :: "nat MediaOptions" where
  "no_media = \<lparr>Disabled = False, Codecs_opt = [], Audio_opt = None, HeardLevel = 0, Record = RecordOff, RecordDir = []\<rparr>"

definition new_root :: RootModule where
  "new_root =
     \<lparr>rootOpts = \<lparr>engineOpts = \<lparr>LocalIP = [], RegisterRate = 0, RingTimeout = 0, TraceBodies = False, Media = no_media\<rparr>,
                  expectTimeout = 30 * 1000000000, optDeviceTag = False\<rparr>,
      engine = None, exporter = None\<rparr>"

definition getEngine :: "RootModule \<Rightarrow> RootModule \<times> scriptEngineOptions" where
  "getEngine r =
     (case engine r of Some e \<Rightarrow> (r, e)
      | None \<Rightarrow> (r\<lparr>engine := Some (engineOpts (rootOpts r))\<rparr>, engineOpts (rootOpts r)))"

definition sameEngineOptions :: "scriptEngineOptions \<Rightarrow> scriptEngineOptions \<Rightarrow> bool" where
  "sameEngineOptions a b \<longleftrightarrow>
     LocalIP a = LocalIP b \<and> RegisterRate a = RegisterRate b \<and> RingTimeout a = RingTimeout b \<and>
     TraceBodies a = TraceBodies b \<and> sameMedia (Media a) (Media b)"

datatype options_error = ArgError js_error | EngineFrozen | ExporterError string

text \<open>What \<open>options\<close> reads over the options there are; the string and number fields cannot fail.\<close>

definition read_options :: "js_media \<Rightarrow> (string \<times> jsvalue) list \<Rightarrow> moduleOptions \<Rightarrow> js_error + moduleOptions" where
  "read_options jm obj o0 =
     (let env = js jm; e0 = engineOpts o0 in
      and_then (durationField env obj ''ringTimeout'' (RingTimeout e0)) (\<lambda>ring.
      and_then (durationField env obj ''expectTimeout'' (expectTimeout o0)) (\<lambda>expect.
      and_then (mediaFields jm obj (Media e0)) (\<lambda>(mo, _).
        Inr \<lparr>engineOpts = \<lparr>LocalIP = stringField env obj ''localIP'' (LocalIP e0),
                 RegisterRate = floatField env obj ''registerRate'' (RegisterRate e0), RingTimeout = ring,
                 TraceBodies = boolField env obj ''trace'' (TraceBodies e0), Media = mo\<rparr>,
             expectTimeout = expect, optDeviceTag = boolField env obj ''deviceTag'' (optDeviceTag o0)\<rparr>))))"

text \<open>
  \<open>start\<close> listens once per process, and its error stays; another address is an error of its own,
  which the program words as \<open>metricsAddr cannot change\<close>.
\<close>

definition exporter_start :: "(string \<Rightarrow> string option) \<Rightarrow> string \<Rightarrow> RootModule \<Rightarrow> string option \<times> RootModule" where
  "exporter_start listen addr r =
     (let (a, err) = (case exporter r of Some x \<Rightarrow> x | None \<Rightarrow> (addr, listen addr))
      in (if err = None \<and> addr \<noteq> a then Some ''metricsAddr cannot change'' else err, r\<lparr>exporter := Some (a, err)\<rparr>))"

definition options :: "js_media \<Rightarrow> (string \<Rightarrow> string option) \<Rightarrow> jsvalue \<Rightarrow> RootModule \<Rightarrow> options_error option \<times> RootModule" where
  "options jm listen v r =
     (case and_then (objectArg (js jm) ''options'' v) (\<lambda>obj. and_then (read_options jm obj (rootOpts r)) (\<lambda>o1. Inr (obj, o1))) of
        Inl e \<Rightarrow> (Some (ArgError e), r)
      | Inr (obj, o1) \<Rightarrow>
          if engine r \<noteq> None \<and> \<not> sameEngineOptions (engineOpts o1) (engineOpts (rootOpts r)) then (Some EngineFrozen, r)
          else
            (let r1 = r\<lparr>rootOpts := o1\<rparr>; addr = stringField (js jm) obj ''metricsAddr'' []
             in if addr = [] then (None, r1)
                else case exporter_start listen addr r1 of
                       (Some e, r2) \<Rightarrow> (Some (ExporterError e), r2) | (None, r2) \<Rightarrow> (None, r2)))"

section \<open>Frozen options\<close>

datatype root_op = SetOptions "string \<Rightarrow> string option" jsvalue | UseEngine

definition root_step :: "js_media \<Rightarrow> root_op \<Rightarrow> RootModule \<Rightarrow> RootModule" where
  "root_step jm p r = (case p of SetOptions listen v \<Rightarrow> snd (options jm listen v r) | UseEngine \<Rightarrow> fst (getEngine r))"

text \<open>
  The code compares the codecs of two lists by their names. It can: the lists are made by \<open>ParseCodecs\<close>, of the
  two codecs the program has.
\<close>

definition static_codecs :: "nat MediaOptions \<Rightarrow> bool" where
  "static_codecs m \<longleftrightarrow> set (Codecs_opt m) \<subseteq> {PCMU, PCMA}"

lemma setting_keeps:
  assumes "setting name rd put' obj st = Inr st'" "P (fst st)" "\<And>v x m. rd v = Inr x \<Longrightarrow> P m \<Longrightarrow> P (put' x m)"
  shows "P (fst st')"
  using assms by (auto simp: setting_def Let_def and_then_Inr split: if_splits)

lemma read_codecs_static: "read_codecs env v = Inr cs \<Longrightarrow> set cs \<subseteq> {PCMU, PCMA}"
  using ParseCodecs_known by (auto simp: read_codecs_def Let_def split: sum.splits)

lemma mediaFields_static:
  assumes "mediaFields jm obj base = Inr (mo, ch)" "static_codecs base"
  shows "static_codecs mo"
proof -
  obtain s1 s2 s3 s4 s5 where s:
    "setting ''media'' (\<lambda>v. Inr (\<not> toBool (js jm) v)) (\<lambda>x mo. mo\<lparr>Disabled := x\<rparr>) obj (base, False) = Inr s1"
    "setting ''codecs'' (read_codecs (js jm)) (\<lambda>x mo. mo\<lparr>Codecs_opt := x\<rparr>) obj s1 = Inr s2"
    "setting ''audio'' (read_audio (toneAudio jm) (silentAudio jm)) (\<lambda>x mo. mo\<lparr>Audio_opt := Some x\<rparr>) obj s2 = Inr s3"
    "setting ''heardLevel'' (\<lambda>v. Inr (toFloat (js jm) v)) (\<lambda>x mo. mo\<lparr>HeardLevel := x\<rparr>) obj s3 = Inr s4"
    "setting ''record'' read_record (\<lambda>x mo. mo\<lparr>Record := x\<rparr>) obj s4 = Inr s5"
    "setting ''recordDir'' (\<lambda>v. Inr (toStr (js jm) v)) (\<lambda>x mo. mo\<lparr>RecordDir := x\<rparr>) obj s5 = Inr (mo, ch)"
    using assms(1) unfolding mediaFields_def and_then_Inr by blast
  have "static_codecs (fst s1)" by (rule setting_keeps [OF s(1)]) (use assms(2) in \<open>simp_all add: static_codecs_def\<close>)
  then have "static_codecs (fst s2)"
    by (rule setting_keeps [OF s(2)]) (use read_codecs_static in \<open>simp add: static_codecs_def\<close>)
  then have "static_codecs (fst s3)" by (rule setting_keeps [OF s(3)]) (simp add: static_codecs_def)
  then have "static_codecs (fst s4)" by (rule setting_keeps [OF s(4)]) (simp add: static_codecs_def)
  then have "static_codecs (fst s5)" by (rule setting_keeps [OF s(5)]) (simp add: static_codecs_def)
  then have "static_codecs (fst (mo, ch))" by (rule setting_keeps [OF s(6)]) (simp add: static_codecs_def)
  then show ?thesis by simp
qed

lemma same_names: "set cs \<subseteq> {PCMU, PCMA} \<Longrightarrow> set ds \<subseteq> {PCMU, PCMA} \<Longrightarrow> map Name cs = map Name ds \<Longrightarrow> cs = ds"
proof (induction cs arbitrary: ds)
  case (Cons c cs)
  then obtain d ds' where ds: "ds = d # ds'" by (cases ds) auto
  have "c \<in> {PCMU, PCMA}" "d \<in> {PCMU, PCMA}" "Name c = Name d" using Cons.prems ds by simp_all
  then have "c = d" by auto
  moreover have "cs = ds'" using Cons.IH [of ds'] Cons.prems ds by simp
  ultimately show ?case by (simp add: ds)
qed simp

lemma sameEngineOptions_eq:
  assumes "static_codecs (Media a)" "static_codecs (Media b)"
  shows "sameEngineOptions a b \<longleftrightarrow> a = b"
proof
  assume "sameEngineOptions a b"
  then show "a = b"
    using same_names [of "Codecs_opt (Media a)" "Codecs_opt (Media b)"] assms
    by (auto simp: sameEngineOptions_def sameMedia_def static_codecs_def intro!: scriptEngineOptions.equality MediaOptions.equality)
qed (simp add: sameEngineOptions_def sameMedia_def)

lemma read_options_static:
  "read_options jm obj o0 = Inr o1 \<Longrightarrow> static_codecs (Media (engineOpts o0)) \<Longrightarrow> static_codecs (Media (engineOpts o1))"
  by (auto simp: read_options_def Let_def and_then_Inr dest: mediaFields_static)

lemma exporter_start_root [simp]:
  "engine (snd (exporter_start listen addr r)) = engine r" "rootOpts (snd (exporter_start listen addr r)) = rootOpts r"
  by (simp_all add: exporter_start_def Let_def split_beta)

text \<open>The outcomes of \<open>options\<close>, by what it read.\<close>

lemma options_outcomes:
  obtains (refused) e where "options jm listen v r = (Some (ArgError e), r)"
  | (frozen) obj o1 where "objectArg (js jm) ''options'' v = Inr obj" "read_options jm obj (rootOpts r) = Inr o1"
      "engine r \<noteq> None" "\<not> sameEngineOptions (engineOpts o1) (engineOpts (rootOpts r))" "options jm listen v r = (Some EngineFrozen, r)"
  | (set) obj o1 where "objectArg (js jm) ''options'' v = Inr obj" "read_options jm obj (rootOpts r) = Inr o1"
      "engine r = None \<or> sameEngineOptions (engineOpts o1) (engineOpts (rootOpts r))"
      "rootOpts (snd (options jm listen v r)) = o1" "engine (snd (options jm listen v r)) = engine r"
proof (cases "and_then (objectArg (js jm) ''options'' v) (\<lambda>obj. and_then (read_options jm obj (rootOpts r)) (\<lambda>o1. Inr (obj, o1)))")
  case (Inl e)
  then show ?thesis using refused by (simp add: options_def)
next
  case (Inr p)
  obtain obj o1 where p: "p = (obj, o1)" by fastforce
  have read: "objectArg (js jm) ''options'' v = Inr obj" "read_options jm obj (rootOpts r) = Inr o1"
    using Inr by (auto simp: p and_then_Inr)
  show ?thesis
  proof (cases "engine r \<noteq> None \<and> \<not> sameEngineOptions (engineOpts o1) (engineOpts (rootOpts r))")
    case True
    then show ?thesis using frozen [OF read] by (simp add: options_def Inr p)
  next
    case False
    let ?addr = "stringField (js jm) obj ''metricsAddr'' []"
    let ?r2 = "if ?addr = [] then r\<lparr>rootOpts := o1\<rparr> else snd (exporter_start listen ?addr (r\<lparr>rootOpts := o1\<rparr>))"
    have "snd (options jm listen v r) = ?r2"
      using False by (auto simp: options_def Inr p Let_def split: prod.split option.split)
    then have "rootOpts (snd (options jm listen v r)) = o1" "engine (snd (options jm listen v r)) = engine r" by simp_all
    then show ?thesis using set [OF read] False by blast
  qed
qed

text \<open>The options of the module are those of the engine, and their codecs are the program's own.\<close>

definition frozen_ok :: "RootModule \<Rightarrow> bool" where
  "frozen_ok r \<longleftrightarrow> static_codecs (Media (engineOpts (rootOpts r))) \<and> (\<forall>e. engine r = Some e \<longrightarrow> engineOpts (rootOpts r) = e)"

lemma frozen_options:
  assumes "frozen_ok r"
  shows "frozen_ok (snd (options jm listen v r)) \<and> engine (snd (options jm listen v r)) = engine r"
proof (cases rule: options_outcomes [of jm listen v r])
  case (set obj o1)
  have "static_codecs (Media (engineOpts o1))"
    using read_options_static [OF set(2)] assms by (simp add: frozen_ok_def)
  then show ?thesis
    using assms set(3-5) sameEngineOptions_eq [of "engineOpts o1" "engineOpts (rootOpts r)"] by (auto simp: frozen_ok_def)
qed (use assms in simp_all)

lemma frozen_step: "frozen_ok r \<Longrightarrow> frozen_ok (root_step jm p r)"
  using frozen_options by (cases p) (auto simp: frozen_ok_def root_step_def getEngine_def split: option.splits)

lemma frozen_run: "frozen_ok (fold (root_step jm) ps new_root)"
proof -
  have "frozen_ok (fold (root_step jm) ps r)" if "frozen_ok r" for r
    using that by (induction ps arbitrary: r) (simp_all add: frozen_step)
  moreover have "frozen_ok new_root" by (simp add: frozen_ok_def new_root_def static_codecs_def no_media_def)
  ultimately show ?thesis by blast
qed

lemma engine_kept: "frozen_ok r \<Longrightarrow> engine r = Some e \<Longrightarrow> engine (fold (root_step jm) ps r) = Some e"
proof (induction ps arbitrary: r)
  case (Cons p ps)
  have "engine (root_step jm p r) = Some e"
    using Cons.prems frozen_options [of r] by (cases p) (simp_all add: root_step_def getEngine_def)
  then show ?case using Cons.IH frozen_step [OF Cons.prems(1)] by simp
qed simp

text \<open>C39: Options freeze when the first device is made: after any sequence of option calls and uses of the engine
  the options the module reports are, in every field, those the engine was created with; a later call that reads
  other engine options, whichever field differs, throws and changes nothing; and no later call replaces the
  engine or its options.\<close>

theorem options_frozen:
  assumes "r = fold (root_step jm) ps new_root" "engine r = Some e"
  shows "engineOpts (rootOpts r) = e \<and>
    (objectArg (js jm) ''options'' v = Inr obj \<longrightarrow> read_options jm obj (rootOpts r) = Inr o1 \<longrightarrow> engineOpts o1 \<noteq> e \<longrightarrow>
       options jm listen v r = (Some EngineFrozen, r)) \<and>
    engine (fold (root_step jm) qs r) = Some e \<and> engineOpts (rootOpts (fold (root_step jm) qs r)) = e"
proof (intro conjI impI)
  have ok: "frozen_ok r" by (simp add: assms(1) frozen_run)
  then show same: "engineOpts (rootOpts r) = e" using assms(2) by (simp add: frozen_ok_def)
  show engine: "engine (fold (root_step jm) qs r) = Some e" by (rule engine_kept [OF ok assms(2)])
  show "engineOpts (rootOpts (fold (root_step jm) qs r)) = e"
    using frozen_run [of jm "ps @ qs"] engine by (simp add: frozen_ok_def flip: assms(1))
  assume read: "objectArg (js jm) ''options'' v = Inr obj" "read_options jm obj (rootOpts r) = Inr o1" "engineOpts o1 \<noteq> e"
  have static: "static_codecs (Media (engineOpts o1))" "static_codecs (Media e)"
    using read_options_static [OF read(2)] ok same by (auto simp: frozen_ok_def)
  then have "\<not> sameEngineOptions (engineOpts o1) (engineOpts (rootOpts r))"
    using sameEngineOptions_eq [OF static] same read(3) by simp
  then show "options jm listen v r = (Some EngineFrozen, r)" using read(1,2) assms(2) by (simp add: options_def)
qed

text \<open>A call that changes the recording mode, deep in the media options, after the engine was made.\<close>

theorem options_frozen_witness:
  "options demo_js (\<lambda>_. None) (JObj [(''record'', JStr ''always'')]) (fold (root_step demo_js) [UseEngine] new_root) =
     (Some EngineFrozen, fold (root_step demo_js) [UseEngine] new_root)"
proof -
  let ?r = "fold (root_step demo_js) [UseEngine] new_root"
  have r: "engine ?r = Some (engineOpts (rootOpts new_root))" "rootOpts ?r = rootOpts new_root"
    by (simp_all add: root_step_def getEngine_def new_root_def)
  have obj: "objectArg (js demo_js) ''options'' (JObj [(''record'', JStr ''always'')]) = Inr [(''record'', JStr ''always'')]"
    by (simp add: objectArg_def isSet_def)
  have read: "read_options demo_js [(''record'', JStr ''always'')] (rootOpts ?r) =
      Inr ((rootOpts new_root)\<lparr>engineOpts := (engineOpts (rootOpts new_root))\<lparr>Media := no_media\<lparr>Record := RecordAlways\<rparr>\<rparr>\<rparr>)"
    unfolding r(2)
    by (simp add: read_options_def new_root_def durationField_def stringField_def floatField_def boolField_def get_def isSet_def
        mediaFields_def setting_def read_record_def and_then_def no_media_def Let_def)
  have "(engineOpts (rootOpts new_root))\<lparr>Media := no_media\<lparr>Record := RecordAlways\<rparr>\<rparr> \<noteq> engineOpts (rootOpts new_root)"
    by (simp add: new_root_def no_media_def)
  then show ?thesis
    using options_frozen [OF refl r(1), THEN conjunct2, THEN conjunct1] obj read by fastforce
qed

section \<open>Actions of scripts\<close>

text \<open>A device starts on its first use; outside a test function that is an error.\<close>

datatype js_outcome = Thrown | Returned bool

definition js_start :: "bool \<Rightarrow> bool \<Rightarrow> js_outcome" where
  "js_start in_test startOk = (if \<not> in_test then Thrown else Returned startOk)"

definition js_Register :: "bool \<Rightarrow> bool \<Rightarrow> bool \<Rightarrow> bool \<Rightarrow> bool \<Rightarrow> js_outcome" where
  "js_Register started' in_test startOk registered' registerOk =
     (if \<not> started' then (case js_start in_test startOk of Thrown \<Rightarrow> Thrown | Returned ok \<Rightarrow> Returned (ok \<and> registered'))
      else Returned registerOk)"

text \<open>What \<open>ExpectCall\<close> of the engine returned: a call, or nothing, with or without an error.\<close>

definition js_ExpectCall :: "js_media \<Rightarrow> (nat \<Rightarrow> device) \<Rightarrow> duration \<Rightarrow> vuObserver \<Rightarrow> vu \<Rightarrow> js_outcome \<Rightarrow>
    (CallMatch \<Rightarrow> duration \<Rightarrow> nat option) \<Rightarrow> jsvalue \<Rightarrow> js_error + (nat option \<times> sample list)" where
  "js_ExpectCall jm devs expectTimeout' ob v start' wait' arg =
     and_then (objectArg (js jm) ''expectCall'' arg) (\<lambda>obj.
     and_then (callerMatch (js jm) devs obj) (\<lambda>m.
     and_then (durationField (js jm) obj ''timeout'' expectTimeout') (\<lambda>t.
       Inr (if start' = Returned True
            then (case wait' m t of None \<Rightarrow> (None, expectFailed ob v ''call'') | Some c \<Rightarrow> (Some c, []))
            else (None, [])))))"

text \<open>Actions that report an expectation: hold, unhold, the transfers.\<close>

definition js_action :: "vuObserver \<Rightarrow> vu \<Rightarrow> string \<Rightarrow> (Call \<Rightarrow> Call \<times> bool) \<Rightarrow> js_call_state \<Rightarrow> js_call_state \<times> bool" where
  "js_action ob v what act s =
     (let (c, ok) = act (call (jsSys s)) in js_expect ob v what ok (s\<lparr>jsSys := (jsSys s)\<lparr>call := c\<rparr>\<rparr>))"

definition js_MediaStats :: "Call \<Rightarrow> (string \<times> u64 \<times> u64 \<times> u64 \<times> u64 \<times> real \<times> real \<times> string) option" where
  "js_MediaStats c =
     map_option (\<lambda>st. (stCodec st, PacketsSent st, PacketsReceived st, PacketsExpected st, PacketsLost st,
        ms (Jitter st), ms (Heard_time st), DTMF st)) (call_stats c)"

text \<open>Audio sources by the hash of their file, tones by frequency and level.\<close>

definition js_audio :: "(byte list \<Rightarrow> string) \<Rightarrow> byte list \<Rightarrow> (string \<rightharpoonup> Audio) \<Rightarrow> (wav_error + Audio) \<times> bool \<times> (string \<rightharpoonup> Audio)" where
  "js_audio hash data m = cache_get (''wav:'' @ hash data) (ParseWAV data) m"

definition js_tone :: "js_env \<Rightarrow> (real \<Rightarrow> string) \<Rightarrow> jsvalue \<Rightarrow> jsvalue \<Rightarrow> (string \<rightharpoonup> Audio) \<Rightarrow>
    (wav_error + Audio) \<times> bool \<times> (string \<rightharpoonup> Audio)" where
  "js_tone env fmt freq dbfs m =
     (let f = (if isSet freq then toFloat env freq else 1000); l = (if isSet dbfs then toFloat env dbfs else - 20)
      in cache_get (''tone:'' @ fmt f @ '':'' @ fmt l) (Inr (Tone f l 1000000000)) m)"

text \<open>The waits of a call by the name they report when they fail.\<close>

definition js_ExpectRinging :: "js_env \<Rightarrow> duration \<Rightarrow> vuObserver \<Rightarrow> vu \<Rightarrow> jsvalue \<Rightarrow> (duration \<Rightarrow> bool) \<Rightarrow> js_call_state \<Rightarrow> js_error + (js_call_state \<times> bool)" where
  "js_ExpectRinging env d ob v t found s = js_wait env d ob v ''ringing'' t found s"

definition js_ExpectConnected :: "js_env \<Rightarrow> duration \<Rightarrow> vuObserver \<Rightarrow> vu \<Rightarrow> jsvalue \<Rightarrow> (duration \<Rightarrow> bool) \<Rightarrow> js_call_state \<Rightarrow> js_error + (js_call_state \<times> bool)" where
  "js_ExpectConnected env d ob v t found s = js_wait env d ob v ''connected'' t found s"

definition js_ExpectDisconnected :: "js_env \<Rightarrow> duration \<Rightarrow> vuObserver \<Rightarrow> vu \<Rightarrow> jsvalue \<Rightarrow> (duration \<Rightarrow> bool) \<Rightarrow> js_call_state \<Rightarrow> js_error + (js_call_state \<times> bool)" where
  "js_ExpectDisconnected env d ob v t found s = js_wait env d ob v ''disconnected'' t found s"

definition js_ExpectTransferred :: "js_env \<Rightarrow> duration \<Rightarrow> vuObserver \<Rightarrow> vu \<Rightarrow> jsvalue \<Rightarrow> (duration \<Rightarrow> bool) \<Rightarrow> js_call_state \<Rightarrow> js_error + (js_call_state \<times> bool)" where
  "js_ExpectTransferred env d ob v t found s = js_wait env d ob v ''transferred'' t found s"

definition js_IsHeard :: "js_env \<Rightarrow> duration \<Rightarrow> vuObserver \<Rightarrow> vu \<Rightarrow> jsvalue \<Rightarrow> (duration \<Rightarrow> bool) \<Rightarrow> js_call_state \<Rightarrow> js_error + (js_call_state \<times> bool)" where
  "js_IsHeard env d ob v t found s = js_wait env d ob v ''heard'' t found s"

definition js_ExpectDTMF :: "js_env \<Rightarrow> duration \<Rightarrow> vuObserver \<Rightarrow> vu \<Rightarrow> string \<Rightarrow> jsvalue \<Rightarrow> (string \<Rightarrow> duration \<Rightarrow> bool) \<Rightarrow> js_call_state \<Rightarrow>
    js_error + (js_call_state \<times> bool)" where
  "js_ExpectDTMF env d ob v want t found s = js_wait env d ob v ''dtmf'' t (found want) s"

text \<open>The call a transfer by the far end made us place; \<open>None\<close> is what the script sees as false.\<close>

definition js_ExpectReferredCall :: "js_env \<Rightarrow> duration \<Rightarrow> vuObserver \<Rightarrow> vu \<Rightarrow> jsvalue \<Rightarrow> (duration \<Rightarrow> nat option) \<Rightarrow> js_error + (nat option \<times> sample list)" where
  "js_ExpectReferredCall env d ob v timeout referred =
     and_then (durationArg env timeout d) (\<lambda>t.
       Inr (case referred t of None \<Rightarrow> (None, expectFailed ob v ''referred call'') | Some c \<Rightarrow> (Some c, [])))"

text \<open>\<open>None\<close>: something other than a call was given, which throws.\<close>

definition js_AttendedTransfer :: "vuObserver \<Rightarrow> vu \<Rightarrow> (nat \<Rightarrow> Call \<Rightarrow> Call \<times> bool) \<Rightarrow> jsvalue \<Rightarrow> js_call_state \<Rightarrow> (js_call_state \<times> bool) option" where
  "js_AttendedTransfer ob v attended consult s =
     (case consult of JCall n \<Rightarrow> Some (js_action ob v ''transfer'' (attended n) s) | _ \<Rightarrow> None)"

definition js_Codec :: "Call \<Rightarrow> string option" where
  "js_Codec c = (if call_codec c \<noteq> [] then Some (call_codec c) else None)"

definition js_SaveRecording :: "file_env \<Rightarrow> bool \<Rightarrow> Call \<Rightarrow> bool" where
  "js_SaveRecording env has_dir c = (case SaveRecording env has_dir c of Inl _ \<Rightarrow> False | Inr _ \<Rightarrow> True)"

text \<open>
  A failed expectation of any kind is counted once under its name and marks the call as failed; one
  that holds leaves the call and the metrics alone.
\<close>

lemma js_wait_counts:
  assumes "js_wait env d ob v what t found s = Inr (s', ok)" "live v"
  shows "(ok \<longrightarrow> s' = s) \<and>
    (\<not> ok \<longrightarrow> jsSys s' = MarkFailed (jsSys s) \<and>
      (\<exists>x. jsSamples s' = jsSamples s @ [x] \<and> metric x = ''sip_expect_failed'' \<and> amount x = 1 \<and> tagged x ''expect'' = Some what))"
  using assms
  by (auto simp: js_wait_def js_expect_def and_then_Inr expectFailed_def push_def live_def Let_def split: if_splits)

end
