(* ===== verification/Lifecycle.thy ===== *)
theory Lifecycle
  imports Registrar Options
begin

text \<open>
  The process as a whole: what happens when a module instance is made (\<open>module.go\<close>), what the
  exporter serves (\<open>exporter.go\<close>), and how a test ends: \<open>sip.shutdown\<close> calls \<open>Engine.Close\<close>
  (\<open>engine/engine.go\<close>), which destroys all devices at once, so that their unregistrations reach
  the registrar interleaved. The packets are not lost here, and the calls are hung up already.
\<close>

section \<open>Instances and the exporter\<close>

text \<open>\<open>registerMetrics\<close> over the registry of k6, whose \<open>NewMetric\<close> may refuse.\<close>

definition registerMetrics :: "('r \<Rightarrow> string \<times> metric_type \<times> value_type \<Rightarrow> string + 'r) \<Rightarrow> 'r \<Rightarrow> string + 'r" where
  "registerMetrics newMetric reg = fold (\<lambda>m st. case st of Inl e \<Rightarrow> Inl e | Inr r \<Rightarrow> newMetric r m) metric_table (Inr reg)"

definition NewModuleInstance :: "('r \<Rightarrow> string \<times> metric_type \<times> value_type \<Rightarrow> string + 'r) \<Rightarrow> 'r \<Rightarrow> bool \<Rightarrow> string + ('r \<times> bool)" where
  "NewModuleInstance newMetric reg registered' =
     (if registered' then Inr (reg, True)
      else case registerMetrics newMetric reg of Inl e \<Rightarrow> Inl e | Inr r \<Rightarrow> Inr (r, True))"

text \<open>Name, labels and value of everything the exporter adds to the standard collectors.\<close>

definition exporter_traffic :: "NetStats \<Rightarrow> NetStats \<Rightarrow> (string \<times> string \<times> string \<times> u64) list" where
  "exporter_traffic sip rtp =
     [(''sip'', ''in'', ''bytes'', BytesIn sip), (''sip'', ''out'', ''bytes'', BytesOut sip),
      (''sip'', ''in'', ''packets'', PacketsIn sip), (''sip'', ''out'', ''packets'', PacketsOut sip),
      (''rtp'', ''in'', ''bytes'', BytesIn rtp), (''rtp'', ''out'', ''bytes'', BytesOut rtp),
      (''rtp'', ''in'', ''packets'', PacketsIn rtp), (''rtp'', ''out'', ''packets'', PacketsOut rtp)]"

definition exporter_counts :: "RootModule \<Rightarrow> nat \<times> nat \<Rightarrow> nat \<times> nat" where
  "exporter_counts r gauges = (case engine r of None \<Rightarrow> (0, 0) | Some _ \<Rightarrow> gauges)"

definition exporter_values :: "NetStats \<Rightarrow> NetStats \<Rightarrow> RootModule \<Rightarrow> nat \<times> nat \<Rightarrow> ((string \<times> (string \<times> string) list) \<times> real) list" where
  "exporter_values sip rtp r gauges =
     map (\<lambda>(proto, dir', unit', n). ((''xk6sip_network_'' @ unit' @ ''_total'', [(''proto'', proto), (''direction'', dir')]), real (unat n)))
       (exporter_traffic sip rtp) @
     [((''xk6sip_devices'', []), real (fst (exporter_counts r gauges))),
      ((''xk6sip_calls_in_progress'', []), real (snd (exporter_counts r gauges)))]"

text \<open>\<open>MustRegister\<close> panics on a second collector with the same name and labels: there is none.\<close>

lemma exporter_distinct: "distinct (map fst (exporter_values sip rtp r gauges))"
  by (simp add: exporter_values_def exporter_traffic_def)

text \<open>A registry that takes each name once takes the whole table.\<close>

lemma registerMetrics_ok:
  "registerMetrics (\<lambda>r (n, tv). if r n = None then Inr (r(n \<mapsto> tv)) else Inl ''duplicate'') Map.empty = Inr (map_of metric_table)"
  by (simp add: registerMetrics_def metric_table_def fun_upd_twist)

section \<open>Closing the engine\<close>

text \<open>Where the goroutine of a device is: not begun, waiting for the answer to its credentials, or done.\<close>

datatype leaving = Waiting | Challenged register_answer | Gone

record engine_sys =
  devs :: "regDevice list"
  leave :: "leaving list"
  pbxSide :: registrar

definition unreg_request :: "regDevice \<Rightarrow> request" where
  "unreg_request d = register_request (regCSeq d + 1) 0 d"

definition answered_env :: "register_answer \<Rightarrow> register_answer \<Rightarrow> reg_env \<Rightarrow> reg_env" where
  "answered_env a b env = env\<lparr>firstAnswer := (\<lambda>_. Inr (reg_view a)), authAnswer := (\<lambda>req _. (reqSeq req + 1, Inr (reg_view b)))\<rparr>"

text \<open>One turn of the goroutine of device \<open>i\<close>: up to the next message the registrar handles.\<close>

definition leave_step :: "reg_link \<Rightarrow> (nat \<Rightarrow> reg_env) \<Rightarrow> nat \<times> nat \<Rightarrow> engine_sys \<Rightarrow> engine_sys" where
  "leave_step k envs turn s =
     (let (now, i) = turn; d = devs s ! i
      in if i \<ge> length (devs s) then s
         else case leave s ! i of
           Gone \<Rightarrow> s
         | Waiting \<Rightarrow>
             if \<not> devStarted d \<or> \<not> registered d \<or> limiterErr (envs i) \<noteq> None
             then s\<lparr>devs := (devs s)[i := Destroy (envs i) d], leave := (leave s)[i := Gone]\<rparr>
             else (let (p, a) = onRegister (lkDigest k) now (received k (unreg_request d)) (pbxSide s)
                   in if raChallenge a = None
                      then s\<lparr>devs := (devs s)[i := Destroy (answered_env a a (envs i)) d], leave := (leave s)[i := Gone], pbxSide := p\<rparr>
                      else s\<lparr>leave := (leave s)[i := Challenged a], pbxSide := p\<rparr>)
         | Challenged a \<Rightarrow>
             (let (p, b) = onRegister (lkDigest k) now (received k (lkAuth k (unreg_request d) (the (raChallenge a)))) (pbxSide s)
              in s\<lparr>devs := (devs s)[i := Destroy (answered_env a b (envs i)) d], leave := (leave s)[i := Gone], pbxSide := p\<rparr>))"

definition Close_engine :: "reg_link \<Rightarrow> (nat \<Rightarrow> reg_env) \<Rightarrow> (nat \<times> nat) list \<Rightarrow> regDevice list \<Rightarrow> registrar \<Rightarrow> engine_sys" where
  "Close_engine k envs turns ds p =
     fold (leave_step k envs) turns \<lparr>devs = ds, leave = replicate (length ds) Waiting, pbxSide = p\<rparr>"

definition shutdown :: "('e \<Rightarrow> 'e) \<Rightarrow> RootModule \<Rightarrow> 'e \<Rightarrow> 'e" where
  "shutdown close r s = (case engine r of None \<Rightarrow> s | Some _ \<Rightarrow> close s)"

text \<open>The user of a device is configured at the registrar, and the client knows its password.\<close>

definition at_home :: "reg_link \<Rightarrow> registrar \<Rightarrow> regDevice \<Rightarrow> bool" where
  "at_home k p d \<longleftrightarrow>
     (\<exists>u a. users p (uUser (rcAor (rcfg d))) = Some u \<and> digest_client k u \<and> lkContact k (rcContact (rcfg d)) = Some (a, None))"

section \<open>What a turn does\<close>

lemma onRegister_users: "users (fst (onRegister dg now req p)) = users p"
  by (auto simp: onRegister_def authorized_def Let_def split: option.splits prod.splits)

lemma Destroy_stopped: "\<not> devStarted (Destroy env d)"
  using register_fields [of env 0 "d\<lparr>devStarted := False, regTimer := None\<rparr>"]
  by (simp add: Destroy_def close_device_def Let_def)

lemma Destroy_unregistered:
  assumes "limiterErr env = None" "devStarted d"
  shows "\<not> registered (Destroy env d)"
  using assms by (simp add: Destroy_def close_device_def register_def Let_def split: prod.split)

lemma unreg_request_facts:
  "reqFrom (unreg_request d) = rcAor (rcfg d)" "reqMethod (unreg_request d) = ''REGISTER''"
  by (simp_all add: unreg_request_def register_request_def)

lemma unreg_binding:
  assumes "lkContact k (rcContact (rcfg d)) = Some (a, None)"
  shows "binding_expires (received k (unreg_request d)) = 0"
  using request_binding(2) [where e = 0, OF assms] by (simp add: unreg_request_def)

lemma first_turn:
  assumes "at_home k p d" "onRegister (lkDigest k) now (received k (unreg_request d)) p = (p1, a)"
  shows "users p1 = users p"
    "raChallenge a = None \<Longrightarrow> regs p1 = (regs p)(uUser (rcAor (rcfg d)) := None)"
    "raChallenge a \<noteq> None \<Longrightarrow> regs p1 = regs p \<and> (\<exists>ch. raChallenge a = Some (ChallengeText (lkDigest k) ch))"
proof -
  let ?q = "received k (unreg_request d)"
  obtain u b where u: "users p (uUser (regTo ?q)) = Some u" and b: "lkContact k (rcContact (rcfg d)) = Some (b, None)"
    using assms(1) by (auto simp: at_home_def unreg_request_facts)
  have fst_snd: "fst (onRegister (lkDigest k) now ?q p) = p1" "snd (onRegister (lkDigest k) now ?q p) = a"
    using assms(2) by simp_all
  show "users p1 = users p" using onRegister_users [of "lkDigest k" now ?q p] fst_snd(1) by simp
  have "(raChallenge a = None \<and> regs p1 = (regs p)(uUser (rcAor (rcfg d)) := None)) \<or>
      (regs p1 = regs p \<and> (\<exists>ch. raChallenge a = Some (ChallengeText (lkDigest k) ch)))"
  proof (cases "register_allowed (lkDigest k) ?q p")
    case True
    then show ?thesis
      using onRegister_allowed(1) [OF True, of now] allowed_no_challenge [OF True, of now] unreg_binding [OF b] fst_snd
      by (simp add: unreg_request_facts)
  next
    case False
    then show ?thesis using onRegister_challenge [OF u False, of now] fst_snd by auto
  qed
  then show "raChallenge a = None \<Longrightarrow> regs p1 = (regs p)(uUser (rcAor (rcfg d)) := None)"
    "raChallenge a \<noteq> None \<Longrightarrow> regs p1 = regs p \<and> (\<exists>ch. raChallenge a = Some (ChallengeText (lkDigest k) ch))" by auto
qed

lemma second_turn:
  assumes "at_home k p d" "onRegister (lkDigest k) now (received k (lkAuth k (unreg_request d) (ChallengeText (lkDigest k) ch))) p = (p1, b)"
  shows "users p1 = users p" "regs p1 = (regs p)(uUser (rcAor (rcfg d)) := None)"
proof -
  let ?r = "lkAuth k (unreg_request d) (ChallengeText (lkDigest k) ch)"
  obtain u a where u: "users p (uUser (rcAor (rcfg d))) = Some u" and c: "digest_client k u"
    and a: "lkContact k (rcContact (rcfg d)) = Some (a, None)"
    using assms(1) by (auto simp: at_home_def)
  have r: "reqFrom ?r = rcAor (rcfg d)" "reqMethod ?r = reqMethod (unreg_request d)"
    "reqHdr ?r ''Contact'' = reqHdr (unreg_request d) ''Contact''" "reqHdr ?r ''Expires'' = reqHdr (unreg_request d) ''Expires''"
    "\<exists>h. first_header (reqHdr ?r) ''Authorization'' = Some h \<and> credentials_match (lkDigest k) (reqMethod (unreg_request d)) u h"
    using c by (simp_all add: digest_client_def Let_def unreg_request_facts(1))
  have al: "register_allowed (lkDigest k) (received k ?r) p" using u r by (simp add: register_allowed_def)
  have "binding_expires (received k ?r) = binding_expires (received k (unreg_request d))"
    using r(3,4) by (simp add: binding_expires_def first_header_def)
  then have "binding_expires (received k ?r) = 0" using unreg_binding [OF a] by simp
  then show "regs p1 = (regs p)(uUser (rcAor (rcfg d)) := None)"
    using onRegister_allowed(1) [OF al, of now] assms(2) r(1) by simp
  show "users p1 = users p" using onRegister_users [of "lkDigest k" now "received k ?r" p] assms(2) by simp
qed

section \<open>What the turns leave behind\<close>

definition unregisters :: "(nat \<Rightarrow> reg_env) \<Rightarrow> regDevice list \<Rightarrow> nat \<Rightarrow> bool" where
  "unregisters envs ds i \<longleftrightarrow> devStarted (ds ! i) \<and> registered (ds ! i) \<and> limiterErr (envs i) = None"

abbreviation user_of :: "regDevice \<Rightarrow> string" where "user_of d \<equiv> uUser (rcAor (rcfg d))"

definition bindings_left :: "(nat \<Rightarrow> reg_env) \<Rightarrow> regDevice list \<Rightarrow> (nat \<Rightarrow> bool) \<Rightarrow> (string \<rightharpoonup> Uri) \<Rightarrow> (string \<rightharpoonup> Uri)" where
  "bindings_left envs ds gone r =
     (\<lambda>x. if \<exists>i < length ds. gone i \<and> unregisters envs ds i \<and> user_of (ds ! i) = x then None else r x)"

definition leaving_ok :: "reg_link \<Rightarrow> (nat \<Rightarrow> reg_env) \<Rightarrow> regDevice list \<Rightarrow> engine_sys \<Rightarrow> nat \<Rightarrow> bool" where
  "leaving_ok k envs ds s i \<longleftrightarrow>
     (case leave s ! i of
        Waiting \<Rightarrow> devs s ! i = ds ! i
      | Challenged a \<Rightarrow> devs s ! i = ds ! i \<and> unregisters envs ds i \<and> (\<exists>ch. raChallenge a = Some (ChallengeText (lkDigest k) ch))
      | Gone \<Rightarrow> \<not> devStarted (devs s ! i) \<and> (unregisters envs ds i \<longrightarrow> \<not> registered (devs s ! i)))"

definition close_inv :: "reg_link \<Rightarrow> (nat \<Rightarrow> reg_env) \<Rightarrow> regDevice list \<Rightarrow> registrar \<Rightarrow> engine_sys \<Rightarrow> bool" where
  "close_inv k envs ds p s \<longleftrightarrow>
     length (devs s) = length ds \<and> length (leave s) = length ds \<and> users (pbxSide s) = users p \<and>
     (\<forall>i < length ds. leaving_ok k envs ds s i) \<and>
     regs (pbxSide s) = bindings_left envs ds (\<lambda>i. leave s ! i = Gone) (regs p)"

text \<open>A device that is done: its entry in the list of devices and the bindings without its user's.\<close>

lemma bindings_gone:
  assumes "i < length ds" "unregisters envs ds i" "length l = length ds"
  shows "(bindings_left envs ds (\<lambda>j. l ! j = Gone) r)(user_of (ds ! i) := None) = bindings_left envs ds (\<lambda>j. l[i := Gone] ! j = Gone) r"
  using assms by (auto simp: bindings_left_def fun_eq_iff nth_list_update)

lemma bindings_skip:
  assumes "\<not> unregisters envs ds i \<or> x \<noteq> Gone \<and> l ! i \<noteq> Gone" "i < length l"
  shows "bindings_left envs ds (\<lambda>j. l[i := x] ! j = Gone) r = bindings_left envs ds (\<lambda>j. l ! j = Gone) r"
  using assms by (auto simp: bindings_left_def fun_eq_iff nth_list_update split: if_splits)

lemma leaving_other:
  assumes "leaving_ok k envs ds s j" "j \<noteq> i"
  shows "leaving_ok k envs ds \<lparr>devs = (devs s)[i := d], leave = (leave s)[i := l], pbxSide = p\<rparr> j"
  using assms by (cases "leave s ! j") (simp_all add: leaving_ok_def)

lemma close_inv_gone:
  assumes inv: "close_inv k envs ds p s" and i: "i < length ds" and d: "devs s ! i = ds ! i" and u: "unregisters envs ds i"
    and env: "limiterErr env = None" and q: "users q = users (pbxSide s)" "regs q = (regs (pbxSide s))(user_of (ds ! i) := None)"
  shows "close_inv k envs ds p \<lparr>devs = (devs s)[i := Destroy env (ds ! i)], leave = (leave s)[i := Gone], pbxSide = q\<rparr>"
proof -
  let ?s = "\<lparr>devs = (devs s)[i := Destroy env (ds ! i)], leave = (leave s)[i := Gone], pbxSide = q\<rparr>"
  have l: "length (devs s) = length ds" "length (leave s) = length ds" using inv by (simp_all add: close_inv_def)
  have "leaving_ok k envs ds ?s j" if "j < length ds" for j
  proof (cases "j = i")
    case True
    have "\<not> registered (Destroy env (ds ! i))" using u Destroy_unregistered [OF env] by (simp add: unregisters_def)
    then show ?thesis using True i l Destroy_stopped by (simp add: leaving_ok_def)
  qed (use inv that in \<open>simp add: close_inv_def leaving_other\<close>)
  moreover have "regs q = bindings_left envs ds (\<lambda>j. (leave s)[i := Gone] ! j = Gone) (regs p)"
    using bindings_gone [OF i u l(2)] inv q(2) by (simp add: close_inv_def)
  ultimately show ?thesis using inv q(1) l by (simp add: close_inv_def)
qed

lemma close_inv_challenged:
  assumes inv: "close_inv k envs ds p s" and i: "i < length ds" and w: "leave s ! i = Waiting" and d: "devs s ! i = ds ! i"
    and u: "unregisters envs ds i" and q: "users q = users (pbxSide s)" "regs q = regs (pbxSide s)"
    and ch: "raChallenge a = Some (ChallengeText (lkDigest k) ch)"
  shows "close_inv k envs ds p (s\<lparr>leave := (leave s)[i := Challenged a], pbxSide := q\<rparr>)"
proof -
  let ?s = "s\<lparr>leave := (leave s)[i := Challenged a], pbxSide := q\<rparr>"
  have l: "length (devs s) = length ds" "length (leave s) = length ds" using inv by (simp_all add: close_inv_def)
  have "leaving_ok k envs ds ?s j" if "j < length ds" for j
  proof (cases "j = i")
    case True
    then show ?thesis using that l d u ch by (auto simp: leaving_ok_def)
  next
    case False
    have "leaving_ok k envs ds s j" using that inv by (simp add: close_inv_def)
    then show ?thesis using False by (cases "leave s ! j") (simp_all add: leaving_ok_def)
  qed
  moreover have "regs q = bindings_left envs ds (\<lambda>j. (leave s)[i := Challenged a] ! j = Gone) (regs p)"
    using bindings_skip [of envs ds i "Challenged a" "leave s"] inv q(2) w i l by (simp add: close_inv_def)
  ultimately show ?thesis using inv q(1) by (simp add: close_inv_def)
qed

lemma close_inv_waiting:
  assumes inv: "close_inv k envs ds p s" and i: "i < length ds" and here: "at_home k (pbxSide s) (ds ! i)" and w: "leave s ! i = Waiting"
  shows "close_inv k envs ds p (leave_step k envs (now, i) s)"
proof -
  have l: "length (devs s) = length ds" "length (leave s) = length ds" and d: "devs s ! i = ds ! i"
    using inv i w by (auto simp: close_inv_def leaving_ok_def)
  show ?thesis
  proof (cases "unregisters envs ds i")
    case False
    let ?s = "\<lparr>devs = (devs s)[i := Destroy (envs i) (ds ! i)], leave = (leave s)[i := Gone], pbxSide = pbxSide s\<rparr>"
    have "leaving_ok k envs ds ?s j" if "j < length ds" for j
      using that inv i l Destroy_stopped False leaving_other [of k envs ds s j i]
      by (cases "j = i") (simp_all add: close_inv_def leaving_ok_def [of _ _ _ _ i])
    then have "close_inv k envs ds p ?s"
      using inv False bindings_skip [of envs ds i Gone "leave s"] l i by (simp add: close_inv_def)
    moreover have "leave_step k envs (now, i) s = ?s"
      using w d False i l by (auto simp: leave_step_def unregisters_def)
    ultimately show ?thesis by simp
  next
    case u: True
    obtain q a where a: "onRegister (lkDigest k) now (received k (unreg_request (ds ! i))) (pbxSide s) = (q, a)" by fastforce
    note t = first_turn [OF here a]
    have step: "leave_step k envs (now, i) s =
        (if raChallenge a = None
         then \<lparr>devs = (devs s)[i := Destroy (answered_env a a (envs i)) (ds ! i)], leave = (leave s)[i := Gone], pbxSide = q\<rparr>
         else s\<lparr>leave := (leave s)[i := Challenged a], pbxSide := q\<rparr>)"
      using w d u i l a by (auto simp: leave_step_def unregisters_def)
    show ?thesis
    proof (cases "raChallenge a = None")
      case None: True
      have "limiterErr (answered_env a a (envs i)) = None" using u by (simp add: answered_env_def unregisters_def)
      from close_inv_gone [OF inv i d u this t(1) t(2) [OF None]] show ?thesis using step None by simp
    next
      case False
      from close_inv_challenged [OF inv i w d u t(1)] t(3) [OF False] show ?thesis using step False by auto
    qed
  qed
qed

lemma close_inv_answering:
  assumes inv: "close_inv k envs ds p s" and i: "i < length ds" and here: "at_home k (pbxSide s) (ds ! i)" and c: "leave s ! i = Challenged a"
  shows "close_inv k envs ds p (leave_step k envs (now, i) s)"
proof -
  have l: "length (devs s) = length ds" "length (leave s) = length ds" and ok: "leaving_ok k envs ds s i"
    using inv i by (simp_all add: close_inv_def)
  then obtain ch where d: "devs s ! i = ds ! i" and u: "unregisters envs ds i" and ch: "raChallenge a = Some (ChallengeText (lkDigest k) ch)"
    using c by (auto simp: leaving_ok_def)
  obtain q b where b: "onRegister (lkDigest k) now (received k (lkAuth k (unreg_request (ds ! i)) (ChallengeText (lkDigest k) ch))) (pbxSide s) = (q, b)"
    by fastforce
  have "limiterErr (answered_env a b (envs i)) = None" using u by (simp add: answered_env_def unregisters_def)
  moreover have "leave_step k envs (now, i) s =
      \<lparr>devs = (devs s)[i := Destroy (answered_env a b (envs i)) (ds ! i)], leave = (leave s)[i := Gone], pbxSide = q\<rparr>"
    using c d ch i l b by (auto simp: leave_step_def)
  ultimately show ?thesis using close_inv_gone [OF inv i d u _ second_turn [OF here b]] by simp
qed

lemma close_inv_step:
  assumes inv: "close_inv k envs ds p s" and home: "\<forall>d \<in> set ds. at_home k p d"
  shows "close_inv k envs ds p (leave_step k envs (now, i) s)"
proof (cases "i < length ds")
  case True
  have "at_home k (pbxSide s) (ds ! i)" using home True inv by (simp add: at_home_def close_inv_def)
  then show ?thesis
    using close_inv_waiting [OF inv True] close_inv_answering [OF inv True] inv True
    by (cases "leave s ! i") (simp_all add: leave_step_def close_inv_def)
qed (use inv in \<open>simp add: leave_step_def close_inv_def\<close>)

lemma close_inv_run:
  "close_inv k envs ds p s \<Longrightarrow> \<forall>d \<in> set ds. at_home k p d \<Longrightarrow> close_inv k envs ds p (fold (leave_step k envs) turns s)"
  by (induction turns arbitrary: s) (auto intro: close_inv_step)

text \<open>Two turns take any goroutine to its end.\<close>

fun progress :: "leaving \<Rightarrow> nat" where
  "progress Waiting = 0" | "progress (Challenged a) = 1" | "progress Gone = 2"

lemma leave_step_length [simp]: "length (leave (leave_step k envs t s)) = length (leave s)" "length (devs (leave_step k envs t s)) = length (devs s)"
  by (auto simp: leave_step_def Let_def split: leaving.split prod.split)

lemma leave_step_progress:
  assumes "i < length (devs s)" "length (leave s) = length (devs s)"
  shows "min 2 (progress (leave s ! i) + (if snd t = i then 1 else 0)) \<le> progress (leave (leave_step k envs t s) ! i)"
  using assms
  by (cases t; cases "leave s ! i")
    (auto simp: leave_step_def Let_def nth_list_update split: leaving.split prod.split)

lemma run_progress:
  assumes "i < length (devs s)" "length (leave s) = length (devs s)"
  shows "min 2 (progress (leave s ! i) + length (filter (\<lambda>t. snd t = i) turns)) \<le> progress (leave (fold (leave_step k envs) turns s) ! i)"
  using assms
proof (induction turns arbitrary: s)
  case (Cons t turns)
  have "min 2 (progress (leave (leave_step k envs t s) ! i) + length (filter (\<lambda>t. snd t = i) turns))
      \<le> progress (leave (fold (leave_step k envs) (t # turns) s) ! i)"
    using Cons.IH [of "leave_step k envs t s"] Cons.prems by simp
  then show ?case using leave_step_progress [OF Cons.prems, of t k envs] by (auto split: if_splits)
qed simp

lemma progress_Gone: "2 \<le> progress l \<Longrightarrow> l = Gone"
  by (cases l) simp_all

lemma Counts_stopped: "list_all (\<lambda>d. \<not> fst d) ds \<Longrightarrow> Counts ds = (0, 0)"
proof -
  have "fold (\<lambda>(st, cs) (n, k). if \<not> st then (n, k)
      else (n + 1, k + length (filter (\<lambda>c. cdir c = Outgoing \<and> state c = StateConnected) cs))) ds nk = nk"
    if "list_all (\<lambda>d. \<not> fst d) ds" for ds :: "(bool \<times> Call list) list" and nk :: "nat \<times> nat"
    using that by (induction ds arbitrary: nk) auto
  then show "list_all (\<lambda>d. \<not> fst d) ds \<Longrightarrow> Counts ds = (0, 0)" by (simp add: Counts_def)
qed

text \<open>C40: \<open>sip.shutdown\<close> ends the test cleanly, in whatever order the goroutines of the devices and the registrar's handlers run: once each has had its two turns all of them are done, no device is started, the gauges show no device and no call, and the registrar has lost exactly the bindings of the devices that were registered, except of those whose place in the register rate came too late, which stay bound.\<close>
theorem shutdown_unregisters:
  assumes "\<forall>d \<in> set ds. at_home k p d"
    and "\<forall>i < length ds. 2 \<le> length (filter (\<lambda>t. snd t = i) turns)"
    and "engine r \<noteq> None" "s' = shutdown (\<lambda>_. Close_engine k envs turns ds p) r s0"
  shows "set (leave s') \<subseteq> {Gone} \<and> list_all (\<lambda>d. \<not> devStarted d) (devs s') \<and>
    exporter_counts r (Counts (map (\<lambda>d. (devStarted d, active d)) (devs s'))) = (0, 0) \<and>
    regs (pbxSide s') = (\<lambda>x. if \<exists>i < length ds. devStarted (ds ! i) \<and> registered (ds ! i) \<and> limiterErr (envs i) = None \<and> user_of (ds ! i) = x
      then None else regs p x)"
proof -
  let ?s = "\<lparr>devs = ds, leave = replicate (length ds) Waiting, pbxSide = p\<rparr>"
  have s': "s' = fold (leave_step k envs) turns ?s" using assms(3,4) by (auto simp: shutdown_def Close_engine_def)
  have "close_inv k envs ds p ?s" by (auto simp: close_inv_def leaving_ok_def bindings_left_def fun_eq_iff)
  then have inv: "close_inv k envs ds p s'" unfolding s' by (rule close_inv_run [OF _ assms(1)])
  have gone: "leave s' ! i = Gone" if "i < length ds" for i
  proof (rule progress_Gone)
    show "2 \<le> progress (leave s' ! i)"
      using run_progress [of i ?s turns k envs] that assms(2) unfolding s' by auto
  qed
  have stopped: "list_all (\<lambda>d. \<not> devStarted d) (devs s')"
    using inv gone by (auto simp: close_inv_def leaving_ok_def list_all_length)
  moreover have "set (leave s') \<subseteq> {Gone}" using inv gone by (auto simp: close_inv_def in_set_conv_nth)
  moreover have "exporter_counts r (Counts (map (\<lambda>d. (devStarted d, active d)) (devs s'))) = (0, 0)"
    using stopped Counts_stopped by (auto simp: exporter_counts_def list_all_iff split: option.split)
  moreover have "regs (pbxSide s') = bindings_left envs ds (\<lambda>i. True) (regs p)"
    using inv gone by (auto simp: close_inv_def bindings_left_def fun_eq_iff)
  ultimately show ?thesis by (simp add: bindings_left_def unregisters_def)
qed

text \<open>One registered device at a registrar that challenges it.\<close>

definition demo_bound :: registrar where
  "demo_bound = demo_registrar\<lparr>regs := [''a'' \<mapsto> demo_contact]\<rparr>"

definition demo_up :: regDevice where
  "demo_up = (new_reg demo_reg)\<lparr>devStarted := True, registered := True\<rparr>"

theorem shutdown_unregisters_witness:
  "regs (pbxSide (shutdown (\<lambda>_. Close_engine demo_link_reg (\<lambda>_. demo_reg_env None) [(8, 0), (9, 0)] [demo_up] demo_bound)
      (fst (getEngine new_root)) \<lparr>devs = [demo_up], leave = [Waiting], pbxSide = demo_bound\<rparr>)) ''a'' = None \<and> regs demo_bound ''a'' \<noteq> None"
proof -
  have "at_home demo_link_reg demo_bound demo_up"
    using demo_reg_link_ok(1-3) by (simp add: at_home_def demo_bound_def demo_up_def new_reg_def)
  then have "\<forall>d \<in> set [demo_up]. at_home demo_link_reg demo_bound d" by simp
  from shutdown_unregisters [OF this, where turns = "[(8, 0), (9, 0)]" and envs = "\<lambda>_. demo_reg_env None" and r = "fst (getEngine new_root)"]
  show ?thesis by (auto simp: getEngine_def new_root_def demo_up_def new_reg_def demo_reg_def demo_reg_env_def demo_bound_def)
qed

end
