(* ===== verification/Requests.thy ===== *)
theory Requests
  imports Metrics
begin

text \<open>
  One request inside a dialog from end to end: \<open>Call.request\<close> of \<open>engine/dialog.go\<close> with the loop of
  \<open>uacDialog.do\<close> (\<open>engine/uac.go\<close>) that waits for the final response, the event it is reported with
  (\<open>engine/device.go\<close>), and the ladder of \<open>engine/trace.go\<close> it leaves. The start line and the text of
  a message, and \<open>sipgo\<close>'s builder of requests on the answering side, are parameters.
\<close>

section \<open>The ladder\<close>

record TraceEntry =
  At :: time
  Out :: bool
  Line :: string
  Raw :: string

record tracer =
  full :: bool
  entries :: "TraceEntry list"

definition trace_msg :: "time \<Rightarrow> bool \<Rightarrow> string \<Rightarrow> string \<Rightarrow> tracer \<Rightarrow> tracer" where
  "trace_msg now out line text' t =
     t\<lparr>entries := entries t @ [\<lparr>At = now, Out = out, Line = line, Raw = (if full t then text' else [])\<rparr>]\<rparr>"

definition trace_note :: "time \<Rightarrow> bool \<Rightarrow> string \<Rightarrow> tracer \<Rightarrow> tracer" where
  "trace_note now out line t = t\<lparr>entries := entries t @ [\<lparr>At = now, Out = out, Line = line, Raw = []\<rparr>]\<rparr>"

definition snapshot :: "tracer \<Rightarrow> TraceEntry list" where
  "snapshot t = entries t"

text \<open>\<open>%.3f\<close> of the seconds of a duration is a parameter.\<close>

definition ladder_entry :: "(duration \<Rightarrow> string) \<Rightarrow> time \<Rightarrow> TraceEntry \<Rightarrow> string" where
  "ladder_entry secs t0 e =
     ''+'' @ secs (At e - t0) @ ''s  '' @ (if Out e then ''->'' else ''<-'') @ '' '' @ Line e @ [CHR 0x0A] @
     (if Raw e \<noteq> [] then Raw e @ [CHR 0x0A] else [])"

definition FormatLadder :: "(duration \<Rightarrow> string) \<Rightarrow> TraceEntry list \<Rightarrow> string" where
  "FormatLadder secs es = (case es of [] \<Rightarrow> [] | e # _ \<Rightarrow> concat (map (ladder_entry secs (At e)) es))"

text \<open>A ladder printed later begins with the one printed earlier.\<close>

lemma FormatLadder_grows: "\<exists>rest. FormatLadder secs (es @ fs) = FormatLadder secs es @ rest"
  by (cases es) (auto simp: FormatLadder_def)

section \<open>Waiting for the final response\<close>

text \<open>What the loop of \<open>do\<close> can see: a response, the end of the transaction with its error, the end of the context.\<close>

datatype do_event = Response response | TxDone "string option" | CtxDone string

fun do_loop :: "do_event list \<Rightarrow> (string + response) option" where
  "do_loop [] = None"
| "do_loop (Response r # es) = (if IsProvisional r then do_loop es else Some (Inr r))"
| "do_loop (TxDone err # es) = Some (Inl (case err of Some e \<Rightarrow> e | None \<Rightarrow> ''transaction terminated''))"
| "do_loop (CtxDone err # es) = Some (Inl err)"

text \<open>\<open>ack\<close>: the ACKs written for a 2xx and for its retransmissions, unless the first could not be written.\<close>

definition acks :: "string option \<Rightarrow> response list \<Rightarrow> uacDialog \<Rightarrow> uacDialog \<times> request list" where
  "acks err again u =
     (let (u1, a) = inDialog ''ACK'' u
      in (u1, if err \<noteq> None then [] else a # map (\<lambda>_. a) (filter IsSuccess again)))"

section \<open>Reports\<close>

definition report :: "string \<Rightarrow> string + response \<Rightarrow> duration \<Rightarrow> RequestEvent" where
  "report method r dur =
     (case r of Inl e \<Rightarrow> \<lparr>evMethod = method, evStatus = 0, evDuration = dur, evErr = Some e\<rparr>
      | Inr res \<Rightarrow> \<lparr>evMethod = method, evStatus = resCode res, evDuration = dur, evErr = None\<rparr>)"

text \<open>\<open>Device.do\<close> and \<open>Device.doAuth\<close> around what the client of \<open>sipgo\<close> returned after \<open>dur\<close>.\<close>

definition device_do :: "(request \<Rightarrow> string + response) \<Rightarrow> duration \<Rightarrow> request \<Rightarrow> (string + response) \<times> RequestEvent" where
  "device_do client dur req = (let r = client req in (r, report (reqMethod req) r dur))"

definition device_doAuth :: "(request \<Rightarrow> response \<Rightarrow> string + response) \<Rightarrow> duration \<Rightarrow> request \<Rightarrow> response \<Rightarrow> (string + response) \<times> RequestEvent" where
  "device_doAuth client dur req chal = (let r = client req chal in (r, report (reqMethod req) r dur))"

section \<open>A request of a call\<close>

datatype side = CallerSide uacDialog | CalleeSide "string \<Rightarrow> request"

definition newInDialog :: "string \<Rightarrow> side \<Rightarrow> side \<times> request" where
  "newInDialog method sd =
     (case sd of CallerSide u \<Rightarrow> (let (u1, r) = inDialog method u in (CallerSide u1, r))
      | CalleeSide build \<Rightarrow> (sd, build method))"

definition with_headers :: "(string \<times> string) list \<Rightarrow> request \<Rightarrow> request" where
  "with_headers hs r = r\<lparr>reqHdr := fold (\<lambda>(k, v). append_header k v) hs (reqHdr r)\<rparr>"

definition filled :: "(string \<times> string) list \<Rightarrow> string option \<Rightarrow> string \<Rightarrow> request \<Rightarrow> request" where
  "filled hdrs body ctype r =
     (let r1 = with_headers hdrs r
      in case body of None \<Rightarrow> r1 | Some b \<Rightarrow> (with_headers [(''Content-Type'', ctype)] r1)\<lparr>reqBody := b\<rparr>)"

record request_run =
  sideAfter :: side
  sentRequest :: request
  result :: "string + response"
  reported :: RequestEvent
  traced :: tracer

text \<open>
  The request at \<open>t0\<close>, the outcome at \<open>t1\<close>; the caller's side waits in \<open>do_loop\<close>, where an error
  before the transaction exists is its only event, the other side in \<open>sipgo\<close>.
\<close>

definition Call_request :: "(request \<Rightarrow> string \<times> string) \<Rightarrow> (response \<Rightarrow> string \<times> string) \<Rightarrow> string \<Rightarrow> string option \<Rightarrow> string \<Rightarrow>
    (string \<times> string) list \<Rightarrow> time \<Rightarrow> time \<Rightarrow> (request \<Rightarrow> string + response) \<Rightarrow> side \<Rightarrow> tracer \<Rightarrow> request_run" where
  "Call_request showReq showRes method body ctype hdrs t0 t1 client sd tr =
     (let (sd1, req0) = newInDialog method sd;
          req = filled hdrs body ctype req0;
          tr1 = trace_msg t0 True (fst (showReq req)) (snd (showReq req)) tr;
          r = client req
      in \<lparr>sideAfter = sd1, sentRequest = req, result = r, reported = report method r (t1 - t0),
          traced = (case r of Inr res \<Rightarrow> trace_msg t1 False (fst (showRes res)) (snd (showRes res)) tr1
                    | Inl e \<Rightarrow> trace_note t1 False (method @ '' failed: '' @ e) tr1)\<rparr>)"

lemma do_loop_final: "do_loop es = Some (Inr r) \<Longrightarrow> \<not> IsProvisional r \<and> Response r \<in> set es"
  by (induction es rule: do_loop.induct) (auto split: if_splits)

lemma do_loop_skips: "do_loop (map Response (filter IsProvisional rs) @ es) = do_loop es"
  by (induction rs) auto

text \<open>
  A request is measured by its outcome: whatever provisional responses arrive, the caller's side
  reports one event whose status is 0 exactly when no final response came, and then the request
  counts as failed and as a timeout; the ladder gets the request and one line for the outcome.
\<close>

theorem request_measured:
  assumes "do_loop es = Some out" "client = (\<lambda>_. out)" "live v"
    and "run = Call_request showReq showRes method body ctype hdrs t0 t1 client sd tr"
  shows "result run = out \<and> (evStatus (reported run) = 0 \<longleftrightarrow> isl out) \<and>
    (\<not> isl out \<longrightarrow> 200 \<le> evStatus (reported run)) \<and> (isl out \<longrightarrow> Failed (reported run)) \<and>
    length (filter (\<lambda>s. metric s = ''sip_requests'') (on_Request ob v (reported run))) = 1 \<and>
    length (snapshot (traced run)) = length (snapshot tr) + 2"
proof -
  have run: "result run = out" "reported run = report method out (t1 - t0)"
    "length (snapshot (traced run)) = length (snapshot tr) + 2"
    using assms(2,4)
    by (auto simp: Call_request_def Let_def split_beta snapshot_def trace_msg_def trace_note_def split: sum.split)
  have final: "200 \<le> resCode r" if "out = Inr r" for r
    using do_loop_final [of es r] assms(1) that by (simp add: IsProvisional_def)
  have "length (filter (\<lambda>s. metric s = ''sip_requests'') (on_Request ob v (reported run))) = 1"
    using assms(3) by (auto simp: on_Request_def push_def live_def Let_def split: option.split)
  then show ?thesis using run final by (cases out) (auto simp: report_def Failed_def)
qed

text \<open>Every ACK of a dialog's 2xx has the CSeq number of the INVITE, and the dialog's counter stays.\<close>

lemma acks_same:
  "a \<in> set (snd (acks err again u)) \<Longrightarrow> reqSeq a = reqSeq (invite u) \<and> reqMethod a = ''ACK''"
  "cseq (fst (acks err again u)) = cseq u"
  by (auto simp: acks_def inDialog_def split: if_splits)

end
