(* ===== verification/Waits.thy ===== *)
theory Waits
  imports Scheduler Devices
begin

text \<open>
  The waits of a script, \<open>WaitDigits\<close> and \<open>WaitHeard\<close> of \<open>media/stream.go\<close>, \<open>wait\<close> of
  \<open>engine/call.go\<close>, \<open>ReferredCall\<close> of \<open>engine/transfer.go\<close> and the loop of \<open>ExpectCall\<close>. Two kinds of
  channel are waited on: one that is closed once and for all, and one that is closed and replaced at
  every change, read together with the state it announces. The second kind is an interface,
  \<open>signalled\<close>, with the digits of a stream and the inbox of a device as its providers; a wait that
  returns nothing forever would be a wake-up it lost. A timer may fire at any time, and \<open>select\<close> takes
  any channel that is ready, so that a wait relates its state to what it may return.
\<close>

section \<open>Channels that are closed once\<close>

text \<open>What \<open>select\<close> between a channel and a timer may return.\<close>

definition wait_ch :: "bool \<Rightarrow> bool \<Rightarrow> bool set" where
  "wait_ch ready fired = (if ready then {True} else {}) \<union> (if fired then {False} else {})"

definition WaitHeard :: "Stream \<Rightarrow> bool \<Rightarrow> bool set" where
  "WaitHeard s fired = wait_ch (heardCloses s > 0) fired"

text \<open>
  \<open>referred\<close> holds one call: \<open>followRefer\<close> leaves a call there if there is room, and a wait takes it.
\<close>

definition offer_referred :: "'c \<Rightarrow> 'c option \<Rightarrow> 'c option" where
  "offer_referred nc ch = (case ch of None \<Rightarrow> Some nc | Some c \<Rightarrow> ch)"

definition ReferredCall :: "'c option \<Rightarrow> bool \<Rightarrow> ('c option \<times> 'c option) set" where
  "ReferredCall ch fired =
     (case ch of None \<Rightarrow> {} | Some c \<Rightarrow> {(Some c, None)}) \<union> (if fired then {(None, ch)} else {})"

lemma wait_ch_simps [simp]:
  "True \<in> wait_ch ready fired \<longleftrightarrow> ready" "False \<in> wait_ch ready fired \<longleftrightarrow> fired"
  by (auto simp: wait_ch_def)

text \<open>A wait for audio can succeed exactly when five frames above the level have arrived.\<close>

lemma heard_wait: "wf_stream s \<Longrightarrow> True \<in> WaitHeard s fired \<longleftrightarrow> heardFrames \<le> heard s"
  by (simp add: WaitHeard_def wf_stream_def heard_ok_def)

text \<open>
  Of the calls placed for REFERs that no script has claimed the first is handed out, and no call twice.
\<close>

lemma referred_first: "foldl (\<lambda>ch nc. offer_referred nc ch) (Some c) cs = Some c"
  by (induction cs) (simp_all add: offer_referred_def)

lemma referred_handed_out_once:
  assumes "(r, ch') \<in> ReferredCall (foldl (\<lambda>ch nc. offer_referred nc ch) None cs) fired" "r \<noteq> None"
  shows "\<exists>c rest. cs = c # rest \<and> r = Some c \<and> ch' = None"
proof (cases cs)
  case (Cons c rest)
  then have "foldl (\<lambda>ch nc. offer_referred nc ch) None cs = Some c"
    using referred_first [of c rest] by (simp add: offer_referred_def)
  then show ?thesis using assms Cons by (auto simp: ReferredCall_def split: if_splits)
qed (use assms in \<open>auto simp: ReferredCall_def split: if_splits\<close>)

section \<open>Channels that are replaced at every change\<close>

text \<open>
  A waiter looks at the state and reads the number of the signal in one critical section; it sleeps
  until that signal is closed, looks again, or gives up when its timer fires. \<open>wait_run\<close> interleaves it
  with the changes of everybody else and counts how often it looked.
\<close>

datatype waiter = Looking | Sleeping nat | Returned bool

definition look :: "('s \<Rightarrow> nat) \<Rightarrow> ('s \<Rightarrow> bool) \<Rightarrow> 's \<Rightarrow> waiter" where
  "look sigs holds s = (if holds s then Returned True else Sleeping (sigs s))"

inductive wait_run :: "('s \<Rightarrow> 's \<Rightarrow> bool) \<Rightarrow> ('s \<Rightarrow> nat) \<Rightarrow> ('s \<Rightarrow> bool) \<Rightarrow> 's \<Rightarrow> 's \<times> waiter \<times> nat \<Rightarrow> bool"
  for change sigs holds s0 where
  wr_init: "wait_run change sigs holds s0 (s0, Looking, 0)"
| wr_change: "wait_run change sigs holds s0 (s, w, n) \<Longrightarrow> change s s' \<Longrightarrow> wait_run change sigs holds s0 (s', w, n)"
| wr_look: "wait_run change sigs holds s0 (s, Looking, n) \<Longrightarrow>
    wait_run change sigs holds s0 (s, look sigs holds s, Suc n)"
| wr_wake: "wait_run change sigs holds s0 (s, Sleeping g, n) \<Longrightarrow> g < sigs s \<Longrightarrow>
    wait_run change sigs holds s0 (s, Looking, n)"
| wr_timeout: "wait_run change sigs holds s0 (s, Sleeping g, n) \<Longrightarrow>
    wait_run change sigs holds s0 (s, Returned False, n)"

text \<open>
  What a waiter does by itself, while nobody changes the state \<open>s\<close> and its timer does not fire: it looks, and it
  wakes when the signal it sleeps on has been closed.
\<close>

inductive own_step :: "('s \<Rightarrow> nat) \<Rightarrow> ('s \<Rightarrow> bool) \<Rightarrow> 's \<Rightarrow> waiter \<times> nat \<Rightarrow> waiter \<times> nat \<Rightarrow> bool"
  for sigs holds s where
  os_look: "own_step sigs holds s (Looking, n) (look sigs holds s, Suc n)"
| os_wake: "g < sigs s \<Longrightarrow> own_step sigs holds s (Sleeping g, n) (Looking, n)"

lemma own_step_runs:
  "own_step sigs holds s (w, n) (w', n') \<Longrightarrow> wait_run change sigs holds s0 (s, w, n) \<Longrightarrow> wait_run change sigs holds s0 (s, w', n')"
  by (cases rule: own_step.cases) (auto intro: wr_look wr_wake)

locale signalled =
  fixes change :: "'s \<Rightarrow> 's \<Rightarrow> bool" and sigs :: "'s \<Rightarrow> nat" and holds :: "'s \<Rightarrow> bool"
  assumes grows: "change s s' \<Longrightarrow> sigs s \<le> sigs s'"
    and announced: "change s s' \<Longrightarrow> \<not> holds s \<Longrightarrow> holds s' \<Longrightarrow> sigs s < sigs s'"
begin

text \<open>
  The invariant: while the signal of a sleeper is the current one, what it waits for does not hold,
  and every look but the first was paid for by a signal.
\<close>

definition wait_ok :: "'s \<Rightarrow> 's \<times> waiter \<times> nat \<Rightarrow> bool" where
  "wait_ok s0 c = (case c of (s, w, n) \<Rightarrow> sigs s0 \<le> sigs s \<and>
     (case w of Looking \<Rightarrow> n \<le> sigs s - sigs s0
      | Sleeping g \<Rightarrow> sigs s0 \<le> g \<and> g \<le> sigs s \<and> n \<le> Suc (g - sigs s0) \<and> (sigs s = g \<longrightarrow> \<not> holds s)
      | Returned b \<Rightarrow> n \<le> Suc (sigs s - sigs s0)))"

lemma wait_invariant: "wait_run change sigs holds s0 c \<Longrightarrow> wait_ok s0 c"
proof (induction rule: wait_run.induct)
  case (wr_change s w n s')
  then show ?case
    using grows [OF wr_change(2)] announced [OF wr_change(2)]
    by (force simp: wait_ok_def split: waiter.splits)
qed (auto simp: wait_ok_def look_def)

lemma looks_bounded: "wait_run change sigs holds s0 (s, w, n) \<Longrightarrow> n \<le> Suc (sigs s - sigs s0)"
  by (drule wait_invariant) (auto simp: wait_ok_def split: waiter.splits)

lemma not_lost:
  assumes "wait_run change sigs holds s0 (s, Sleeping g, n)" "holds s"
  shows "g < sigs s"
  using wait_invariant [OF assms(1)] assms(2) by (auto simp: wait_ok_def intro: le_neq_implies_less)

text \<open>From where it is, a waiter whose condition holds returns by steps of its own, looking at most once more.\<close>

lemma can_return:
  assumes run: "wait_run change sigs holds s0 (s, w, n)" and "holds s" "w \<noteq> Returned False"
  shows "\<exists>m \<le> Suc n. (own_step sigs holds s)\<^sup>*\<^sup>* (w, n) (Returned True, m)"
proof -
  have look: "(own_step sigs holds s)\<^sup>*\<^sup>* (Looking, n) (Returned True, Suc n)"
    using os_look [of sigs holds s n] assms(2) by (auto simp: look_def)
  show ?thesis
  proof (cases w)
    case (Sleeping g)
    have "own_step sigs holds s (w, n) (Looking, n)"
      unfolding Sleeping by (rule os_wake) (use not_lost [of s0 s g n] run Sleeping assms(2) in simp)
    then show ?thesis using look by (auto intro: converse_rtranclp_into_rtranclp)
  next
    case (Returned b)
    then have "(own_step sigs holds s)\<^sup>*\<^sup>* (w, n) (Returned True, n)" using assms(3) by (cases b) simp_all
    then show ?thesis by (intro exI [of _ n]) simp
  qed (use look in auto)
qed

end

text \<open>Where nothing undoes the condition, a wait that succeeded left it true.\<close>

locale lasting = signalled +
  assumes lasts: "change s s' \<Longrightarrow> holds s \<Longrightarrow> holds s'"
begin

lemma returned_holds: "wait_run change sigs holds s0 (s, Returned True, n) \<Longrightarrow> holds s"
proof (induction "(s, Returned True, n)" arbitrary: s n rule: wait_run.induct)
  case (wr_change s n s')
  then show ?case by (blast intro: lasts)
qed (auto simp: look_def split: if_splits)

end

section \<open>Digits\<close>

definition digit_signals :: "nat \<Rightarrow> world \<Rightarrow> nat" where
  "digit_signals i w = digitSigs (stream_of w i)"

definition digits_contain :: "nat \<Rightarrow> string \<Rightarrow> world \<Rightarrow> bool" where
  "digits_contain i want w = Contains (digits (stream_of w i)) want"

text \<open>One pass of the loop of \<open>WaitDigits\<close> on stream \<open>i\<close>.\<close>

definition WaitDigits :: "nat \<Rightarrow> string \<Rightarrow> world \<Rightarrow> waiter" where
  "WaitDigits i want = look (digit_signals i) (digits_contain i want)"

lemma HasPrefix_extend: "HasPrefix s p \<Longrightarrow> HasPrefix (s @ t) p"
proof -
  assume "HasPrefix s p"
  then have "s = p @ drop (length p) s" by (metis HasPrefix_def append_take_drop_id)
  then show "HasPrefix (s @ t) p" by (metis HasPrefix_append append.assoc)
qed

lemma Contains_append: "Contains s sub \<Longrightarrow> Contains (s @ t) sub"
proof (induction s)
  case Nil
  then show ?case by (cases t) (auto simp: Contains_def HasPrefix_def split: if_splits)
next
  case (Cons c s)
  then show ?case using HasPrefix_extend [of "c # s" sub t] by (auto simp: Contains_def split: if_splits)
qed

text \<open>What the operations of a stream do to its digits: nothing, but for a datagram.\<close>

definition dig :: "Stream \<Rightarrow> string \<times> nat" where
  "dig s = (digits s, digitSigs s)"

lemma dig_setRemote [simp]: "dig (setRemoteLocked s r c) = dig s" "dig (set_addr s r) = dig s"
  by (simp_all add: dig_def setRemoteLocked_def set_addr_def Let_def split: prod.splits option.splits)

lemma dig_negotiation:
  "dig (fst (Offer s d)) = dig s" "Answer s r = Inr (s', sdp) \<Longrightarrow> dig s' = dig s"
  "ApplyAnswer s r = Inr s' \<Longrightarrow> dig s' = dig s" "dig (fst (Update s r)) = dig s" "dig (SetDirection s d) = dig s"
  "dig (Start k s) = dig s" "dig (fst (Close s)) = dig s"
  by (auto simp: Offer_def Answer_def ApplyAnswer_def Update_def SetDirection_def sdpLocked_def Start_def Close_def Let_def
      dig_def setRemoteLocked_def set_addr_def split: option.splits prod.splits if_splits)

lemma dig_dtmf: "SendDTMF s ds dur = Inr s' \<Longrightarrow> dig s' = dig s"
  by (auto simp: SendDTMF_cases dig_def split: if_splits)

lemma dig_tick: "dig (fst (tick now written s)) = dig s"
  by (simp add: tick_def tick_packet_def dig_def Let_def split: prod.splits option.splits)

lemma dig_audio: "dig (audioFrame s now p tb) = dig s"
  by (simp add: audioFrame_def dig_def Let_def split: option.splits)

text \<open>A datagram adds at most one digit, and then closes the signal.\<close>

definition digit_added :: "string \<times> nat \<Rightarrow> string \<times> nat \<Rightarrow> bool" where
  "digit_added d d' \<longleftrightarrow> d' = d \<or> (\<exists>c. d' = (fst d @ [c], Suc (snd d)))"

lemma digit_added_refl [simp]: "digit_added d d"
  by (simp add: digit_added_def)

lemma dig_receiveDTMF: "digit_added (dig s) (dig (receiveDTMF s b t))"
  by (simp add: receiveDTMF_def dig_def digit_added_def)

lemma dig_dispatch: "digit_added (dig s) (dig (dispatch s now p))"
  by (simp add: dispatch_def dig_audio dig_receiveDTMF split: option.split)

lemma dig_latch [simp]: "dig (s\<lparr>rxs := r\<rparr>) = dig s" "dig (s\<lparr>remote := x\<rparr>) = dig s" "dig (s\<lparr>latched := l\<rparr>) = dig s"
  by (simp_all add: dig_def)

lemma dig_receive: "digit_added (dig s) (dig (receive s now b a))"
proof -
  have "digit_added (dig s) (dig (dispatch s' now p))" if "dig s' = dig s" for s' p
    using dig_dispatch [of s' now p] that by simp
  then show ?thesis by (simp add: receive_def Let_def split: option.split)
qed

lemma dig_world [simp]:
  "dig (stream_of (world_start w j) i) = dig (stream_of w i)" "dig (stream_of (world_close w j) i) = dig (stream_of w i)"
  "dig (stream_of (world_remove w r) i) = dig (stream_of w i)"
  "dig (stream_of (world_tick w now written j) i) = dig (stream_of w i)"
  using dig_negotiation(7) [of "stream_of w j"] dig_tick [of now written "stream_of w j"]
  by (auto simp: world_start_def world_close_def world_remove_def world_tick_def Let_def dig_negotiation(6) split: prod.split)

lemma dig_step:
  assumes "world_step w w'"
  shows "digit_added (dig (stream_of w i)) (dig (stream_of w' i))"
  using assms
proof cases
  case (ws_receive now b a j)
  then show ?thesis using dig_receive [of "stream_of w i" now b a] by (cases "i = j") (simp_all add: world_receive_def)
qed (auto simp: dig_negotiation dig_dtmf)

text \<open>Digits are only added, one signal each.\<close>

lemma digits_contain_lasts: "digit_added (digits s, n) (digits s', n') \<Longrightarrow> Contains (digits s) want \<Longrightarrow> Contains (digits s') want"
  by (auto simp: digit_added_def Contains_append)

interpretation digit_wait: lasting world_step "digit_signals i" "digits_contain i want"
proof
  fix w w' assume "world_step w w'"
  note d = dig_step [OF this, of i]
  show "digit_signals i w \<le> digit_signals i w'"
    using d by (auto simp: digit_signals_def dig_def digit_added_def)
  show "\<not> digits_contain i want w \<Longrightarrow> digits_contain i want w' \<Longrightarrow> digit_signals i w < digit_signals i w'"
    using d by (auto simp: digits_contain_def digit_signals_def dig_def digit_added_def)
  show "digits_contain i want w \<Longrightarrow> digits_contain i want w'"
    using d digits_contain_lasts [of "stream_of w i" _ "stream_of w' i"] by (simp add: digits_contain_def dig_def)
qed

abbreviation digit_wait_run :: "nat \<Rightarrow> string \<Rightarrow> world \<Rightarrow> world \<times> waiter \<times> nat \<Rightarrow> bool" where
  "digit_wait_run i want \<equiv> wait_run world_step (digit_signals i) (digits_contain i want)"

lemma digits_per_signal:
  "digit_wait_run i want w0 (w, wt, n) \<Longrightarrow>
   length (digits (stream_of w i)) + digit_signals i w0 = length (digits (stream_of w0 i)) + digit_signals i w"
proof (induction "(w, wt, n)" arbitrary: w wt n rule: wait_run.induct)
  case (wr_change w wt n w')
  then show ?case using dig_step [OF wr_change(3), of i] by (auto simp: dig_def digit_added_def digit_signals_def)
qed auto

text \<open>C38: A script that waits for digits is not left waiting: whatever arrives on its stream and however the
  wait interleaves with it, as soon as the received digits contain the expected ones a sleeping waiter's signal
  has been closed, and from where it is the wait returns true by its own steps, without another packet and
  looking at most once more, unless its timer has already ended it; it returns true only if they do, and looks
  at most once more often than digits arrived.\<close>

theorem digit_wait_returns:
  assumes "digit_wait_run i want w0 (w, wt, n)"
  shows "(Contains (digits (stream_of w i)) want \<longrightarrow> wt \<noteq> Returned False \<longrightarrow>
      (\<exists>m \<le> Suc n. (own_step (digit_signals i) (digits_contain i want) w)\<^sup>*\<^sup>* (wt, n) (Returned True, m))) \<and>
    (Contains (digits (stream_of w i)) want \<longrightarrow> wt = Sleeping g \<longrightarrow> g < digitSigs (stream_of w i)) \<and>
    (wt = Returned True \<longrightarrow> Contains (digits (stream_of w i)) want) \<and>
    n \<le> 1 + (length (digits (stream_of w i)) - length (digits (stream_of w0 i)))"
proof (intro conjI impI)
  assume "Contains (digits (stream_of w i)) want" "wt \<noteq> Returned False"
  then show "\<exists>m \<le> Suc n. (own_step (digit_signals i) (digits_contain i want) w)\<^sup>*\<^sup>* (wt, n) (Returned True, m)"
    using digit_wait.can_return [OF assms] by (simp add: digits_contain_def)
next
  assume "Contains (digits (stream_of w i)) want" "wt = Sleeping g"
  then show "g < digitSigs (stream_of w i)"
    using digit_wait.not_lost [of i want w0 w g n] assms by (simp add: digits_contain_def digit_signals_def)
next
  show "wt = Returned True \<Longrightarrow> Contains (digits (stream_of w i)) want"
    using digit_wait.returned_holds assms by (auto simp: digits_contain_def)
  show "n \<le> 1 + (length (digits (stream_of w i)) - length (digits (stream_of w0 i)))"
    using digit_wait.looks_bounded [OF assms] digits_per_signal [OF assms] by simp
qed

text \<open>An event packet for the digit 5 that arrives while the script sleeps.\<close>

definition demo_event :: "byte list" where
  "demo_event = [0x80, 101, 0, 1, 0, 0, 0, 160, 0, 0, 0, 7, 5, 10, 0, 160]"

lemma demo_event_heard:
  "Contains (digits (stream_of (world_receive demo_world 0 demo_event \<lparr>IP = IPv4 1, Port = 9\<rparr> 0) 0)) ''5''"
proof -
  have "parse_rtp demo_event = Some \<lparr>rtpPT = 101, rtpSeq = 1, rtpTs = 160, rtpSsrc = 7, rtpPayload = [5, 10, 0, 160]\<rparr>"
    by (simp add: parse_rtp_def demo_event_def get16be_def get32be_def Let_def)
  then show ?thesis
    by (simp add: world_receive_def demo_world_def receive_def dispatch_def receiveDTMF_def demo_new_def New_def Let_def
        Contains_def HasPrefix_def)
qed

theorem digit_wait_returns_witness:
  "\<exists>g m. (own_step (digit_signals 0) (digits_contain 0 ''5'')
       (world_receive demo_world 0 demo_event \<lparr>IP = IPv4 1, Port = 9\<rparr> 0))\<^sup>*\<^sup>* (Sleeping g, Suc 0) (Returned True, m) \<and>
     g < digitSigs (stream_of (world_receive demo_world 0 demo_event \<lparr>IP = IPv4 1, Port = 9\<rparr> 0) 0)"
proof -
  have "\<not> digits_contain 0 ''5'' demo_world"
    by (simp add: digits_contain_def demo_world_def demo_new_def New_def Let_def Contains_def)
  then have "digit_wait_run 0 ''5'' demo_world (demo_world, Sleeping (digit_signals 0 demo_world), Suc 0)"
    using wr_look [OF wr_init] by (metis look_def)
  then have "digit_wait_run 0 ''5'' demo_world
      (world_receive demo_world 0 demo_event \<lparr>IP = IPv4 1, Port = 9\<rparr> 0, Sleeping (digit_signals 0 demo_world), Suc 0)"
    by (rule wr_change) (rule ws_receive)
  from digit_wait_returns [OF this, of "digit_signals 0 demo_world"] show ?thesis
    using demo_event_heard by blast
qed

section \<open>Incoming calls\<close>

text \<open>A call in the inbox that a script would take: it matches and has not ended.\<close>

definition call_waits :: "(nat \<Rightarrow> bool) \<Rightarrow> mail_sys \<Rightarrow> bool" where
  "call_waits ok s \<longleftrightarrow> (\<exists>c \<in> set (inbox (box s)). ok c \<and> c \<notin> set (endedCalls s))"

lemma scan_kept: "scan dead ok cs f = (r, kept) \<Longrightarrow> set kept \<subseteq> set cs"
  by (induction cs arbitrary: f r kept) (fastforce split: if_splits prod.splits)+

lemma claim_kept: "claim dead ok b = (r, b') \<Longrightarrow> set (inbox b') \<subseteq> set (inbox b) \<and> inSignals b' = inSignals b"
  using scan_kept [of dead ok "inbox b" None] by (fastforce simp: claim_def split: prod.splits)

interpretation call_wait: signalled mail_step "\<lambda>s. inSignals (box s)" "call_waits ok"
proof
  fix s s' assume "mail_step s s'"
  then have "inSignals (box s) \<le> inSignals (box s') \<and> (call_waits ok s' \<longrightarrow> call_waits ok s \<or> inSignals (box s) < inSignals (box s'))"
    by (cases rule: mail_step.cases)
      (auto simp: deliver_def mail_claim_def waiter_pass_def call_waits_def dest!: claim_kept split: prod.splits option.splits)
  then show "inSignals (box s) \<le> inSignals (box s')"
    and "\<not> call_waits ok s \<Longrightarrow> call_waits ok s' \<Longrightarrow> inSignals (box s) < inSignals (box s')" by blast+
qed

text \<open>However many scripts share the inbox, a sleeping one whose call has come is woken, and it looks at
  most once more often than calls were delivered since.\<close>

theorem expect_call_wakes:
  assumes "wait_run mail_step (\<lambda>s. inSignals (box s)) (call_waits ok) s0 (s, Sleeping g, n)"
  shows "(call_waits ok s \<longrightarrow> g < inSignals (box s)) \<and> n \<le> Suc (inSignals (box s) - inSignals (box s0))"
  using call_wait.not_lost [OF assms] call_wait.looks_bounded [OF assms] by blast

end
