(* ===== verification/DocExport.thy ===== *)
theory DocExport
  imports GoLib
begin

text \<open>
  The documentation exporter, \<open>docs/export/main.go\<close>: \<open>convert\<close> turns a page of the reference into the
  Hugo format of k6-docs, its links to Markdown files into links to page URLs. Go's \<open>path\<close> and the two
  regular expressions are written out; a page is the list of its bytes. Reading and writing the tree
  of files is not modelled. The theorem on links follows one as a browser does, from the URL of the
  page it stands on.
\<close>

section \<open>\<open>path\<close>\<close>

text \<open>\<open>Clean\<close>: \<open>out\<close> is the path so far, its last element first.\<close>

definition clean_elem :: "bool \<Rightarrow> string list \<Rightarrow> string \<Rightarrow> string list" where
  "clean_elem rooted out w =
     (if w = [] \<or> w = ''.'' then out
      else if w = ''..'' then
        (case out of [] \<Rightarrow> if rooted then [] else [w] | x # xs \<Rightarrow> if x = ''..'' then w # out else xs)
      else w # out)"

definition path_Clean :: "string \<Rightarrow> string" where
  "path_Clean p =
     (let rooted = HasPrefix p ''/''; out = rev (foldl (clean_elem rooted) [] (Split p (CHR ''/'')))
      in if rooted then ''/'' @ JoinWith ''/'' out else if out = [] then ''.'' else JoinWith ''/'' out)"

definition path_Dir :: "string \<Rightarrow> string" where
  "path_Dir p = path_Clean (rev (dropWhile (\<lambda>c. c \<noteq> CHR ''/'') (rev p)))"

definition path_Base :: "string \<Rightarrow> string" where
  "path_Base p =
     (if p = [] then ''.''
      else let b = rev (takeWhile (\<lambda>c. c \<noteq> CHR ''/'') (dropWhile (\<lambda>c. c = CHR ''/'') (rev p)))
           in if b = [] then ''/'' else b)"

definition path_Join :: "string \<Rightarrow> string \<Rightarrow> string" where
  "path_Join a b = (if a = [] \<and> b = [] then [] else path_Clean (JoinWith ''/'' (filter (\<lambda>w. w \<noteq> []) [a, b])))"

section \<open>URLs of pages\<close>

definition pageURL :: "string \<Rightarrow> string" where
  "pageURL file =
     (if path_Base file = ''_index.md'' then (if path_Dir file \<noteq> ''.'' then path_Dir file @ ''/'' else '''')
      else TrimSuffix file ''.md'' @ ''/'')"

text \<open>The index \<open>i\<close> of \<open>relURL\<close>: how many leading elements are equal.\<close>

fun common :: "string list \<Rightarrow> string list \<Rightarrow> nat" where
  "common (a # f) (b # t) = (if a = b then Suc (common f t) else 0)"
| "common f t = 0"

definition url_elems :: "string \<Rightarrow> string list" where
  "url_elems u = (if u = [] then [] else Split (TrimSuffix u ''/'') (CHR ''/''))"

definition relURL :: "string \<Rightarrow> string \<Rightarrow> string" where
  "relURL from' to =
     (let f = url_elems from'; t = url_elems to; i = common f t;
          up = concat (replicate (length f - i) ''../'');
          down0 = JoinWith ''/'' (drop i t);
          down = (if down0 \<noteq> [] then down0 @ ''/'' else down0)
      in if up @ down = [] then ''./'' else up @ down)"

section \<open>Conversion\<close>

text \<open>
  A match of \<open>mdLink\<close> at the head of the text: the file, the fragment with its \<open>#\<close>, and what follows. The
  file is a run of bytes other than \<open>)\<close>, \<open>#\<close> and \<open>:\<close>, so that it ends where the run ends.
\<close>

definition link_byte :: "char \<Rightarrow> bool" where
  "link_byte c \<longleftrightarrow> c \<noteq> CHR '')'' \<and> c \<noteq> CHR ''#'' \<and> c \<noteq> CHR '':''"

definition md_link :: "string \<Rightarrow> (string \<times> string \<times> string) option" where
  "md_link s =
     (if \<not> HasPrefix s ''](''  then None
      else let file = takeWhile link_byte (drop 2 s); r = dropWhile link_byte (drop 2 s)
      in if length file < 4 \<or> \<not> HasPrefix (rev file) (rev ''.md'') then None
      else case r of [] \<Rightarrow> None
         | c # r1 \<Rightarrow>
             if c = CHR '')'' then Some (file, [], r1)
             else if c = CHR ''#'' then
               (case dropWhile (\<lambda>c. c \<noteq> CHR '')'') r1 of [] \<Rightarrow> None
                | _ # r2 \<Rightarrow> Some (file, c # takeWhile (\<lambda>c. c \<noteq> CHR '')'') r1, r2))
             else None)"

lemma md_link_shorter: "md_link s = Some (file, frag, rest) \<Longrightarrow> length rest < length s"
proof -
  assume m: "md_link s = Some (file, frag, rest)"
  have l: "length (dropWhile P xs) \<le> length xs" for P and xs :: string by (rule length_dropWhile_le)
  from m obtain c r where r: "dropWhile link_byte (drop 2 s) = c # r" "length rest \<le> length r"
    by (auto simp: md_link_def Let_def split: if_splits list.splits)
      (metis l length_Cons Suc_leD)
  then have "length (c # r) \<le> length (drop 2 s)" using l by metis
  then show ?thesis using r(2) by simp
qed

definition target_of :: "string \<Rightarrow> string \<Rightarrow> string" where
  "target_of rel file = path_Join (path_Dir rel) file"

definition new_link :: "string \<Rightarrow> string \<Rightarrow> string \<Rightarrow> string" where
  "new_link rel file frag = ''](''  @ relURL (pageURL rel) (pageURL (target_of rel file)) @ frag @ '')''"

function convert_links :: "string \<Rightarrow> string \<Rightarrow> string" where
  "convert_links rel s =
     (case md_link s of
        Some (file, frag, rest) \<Rightarrow> new_link rel file frag @ convert_links rel rest
      | None \<Rightarrow> (case s of [] \<Rightarrow> [] | c # s' \<Rightarrow> c # convert_links rel s'))"
  by pat_completeness auto
termination by (relation "measure (length \<circ> snd)") (auto dest: md_link_shorter)

declare convert_links.simps [simp del]

definition nl :: string where
  "nl = [CHR 0x0A]"

definition example_head :: string where
  "example_head = ''<!-- md-k6:skip -->'' @ nl @ nl @ ''```javascript'' @ nl"

definition example_end :: string where
  "example_end = nl @ ''```'' @ nl"

lemma Cut_rest: "Cut s sep = (b, a, f) \<Longrightarrow> length a \<le> length s"
proof (induction s arbitrary: b a f)
  case (Cons c s)
  then show ?case by (cases "Cut s sep") (fastforce split: if_splits)
qed (simp split: if_splits)

lemma example_shorter:
  assumes "s \<noteq> []" "Cut (drop (length example_head) s) e = (b, a, f)"
  shows "length a < length s"
proof -
  have "length a \<le> length s - length example_head" using Cut_rest [OF assms(2)] by simp
  moreover have "1 \<le> length example_head" by (simp add: example_head_def nl_def)
  ultimately show ?thesis using assms(1) by (cases s) simp_all
qed

function convert_examples :: "string \<Rightarrow> string" where
  "convert_examples s =
     (if s = [] then []
      else if HasPrefix s example_head then
        (case Cut (drop (length example_head) s) example_end of
           (body, rest, True) \<Rightarrow>
             ''{{< code >}}'' @ nl @ nl @ example_head @ body @ example_end @ nl @ ''{{< /code >}}'' @ nl @ convert_examples rest
         | (_, _, False) \<Rightarrow> hd s # convert_examples (tl s))
      else hd s # convert_examples (tl s))"
  by pat_completeness auto
termination
proof (relation "measure length")
  fix s body rest and p :: "string \<times> bool" and f
  assume "s \<noteq> []" "(body, p) = Cut (drop (length example_head) s) example_end" "(rest, f) = p"
  then show "(rest, s) \<in> measure length" using example_shorter [of s example_end body rest f] by simp
qed (auto simp: neq_Nil_conv)

declare convert_examples.simps [simp del]

definition convert :: "string \<Rightarrow> string \<Rightarrow> string" where
  "convert rel s = convert_examples (convert_links rel s)"

section \<open>Links lead where they led\<close>

text \<open>
  A browser resolves a relative reference against the directory of the page; pages stand at URLs that end
  in a slash, so that the directory is the page itself.
\<close>

definition follow_elem :: "string list \<Rightarrow> string \<Rightarrow> string list" where
  "follow_elem out w = (if w = [] \<or> w = ''.'' then out else if w = ''..'' then butlast out else out @ [w])"

definition follow :: "string list \<Rightarrow> string \<Rightarrow> string list" where
  "follow page ref = foldl follow_elem page (Split ref (CHR ''/''))"

text \<open>The elements a page's path may have, and the URL they make.\<close>

definition proper :: "string \<Rightarrow> bool" where
  "proper w \<longleftrightarrow> w \<noteq> [] \<and> w \<noteq> ''.'' \<and> w \<noteq> ''..'' \<and> CHR ''/'' \<notin> set w"

definition url :: "string list \<Rightarrow> string" where
  "url ws = concat (map (\<lambda>w. w @ ''/'') ws)"

lemma url_simps [simp]: "url [] = []" "url (w # ws) = w @ ''/'' @ url ws" "url (ws @ vs) = url ws @ url vs"
  by (simp_all add: url_def)

lemma url_join: "ws \<noteq> [] \<Longrightarrow> url ws = JoinWith ''/'' ws @ ''/''"
  by (induction "''/''" ws rule: JoinWith.induct) auto

lemma url_empty [simp]: "url ws = [] \<longleftrightarrow> ws = []"
  by (cases ws) auto

lemma Split_url: "list_all (\<lambda>w. CHR ''/'' \<notin> set w) ws \<Longrightarrow> Split (url ws) (CHR ''/'') = ws @ [[]]"
  by (induction ws) (simp_all add: Split_append)

lemma Split_join: "ws \<noteq> [] \<Longrightarrow> list_all (\<lambda>w. CHR ''/'' \<notin> set w) ws \<Longrightarrow> Split (JoinWith ''/'' ws) (CHR ''/'') = ws"
  by (induction "''/''" ws rule: JoinWith.induct) (simp_all add: Split_append Split_absent)

lemma TrimSuffix_append [simp]: "TrimSuffix (s @ p) p = s"
  by (simp add: TrimSuffix_def)

lemma proper_no_slash: "list_all proper ws \<Longrightarrow> list_all (\<lambda>w. CHR ''/'' \<notin> set w) ws"
  by (auto simp: list_all_iff proper_def)

lemma url_elems_url: "list_all proper ws \<Longrightarrow> url_elems (url ws) = ws"
  using Split_join [of ws] proper_no_slash [of ws] by (simp add: url_elems_def url_join)

lemma common_take: "take (common f t) f = take (common f t) t \<and> common f t \<le> length f \<and> common f t \<le> length t"
  by (induction f t rule: common.induct) auto

lemma follow_up: "foldl follow_elem p (replicate k ''..'') = take (length p - k) p"
proof (induction k arbitrary: p)
  case (Suc k)
  then show ?case by (simp add: follow_elem_def butlast_conv_take min_def)
qed simp

lemma follow_down: "list_all proper ws \<Longrightarrow> foldl follow_elem p ws = p @ ws"
  by (induction ws arbitrary: p) (auto simp: follow_elem_def proper_def)

lemma up_url: "concat (replicate k ''../'') = url (replicate k ''..'')"
  by (induction k) simp_all

lemma relURL_url:
  assumes "list_all proper f" "list_all proper t"
  shows "relURL (url f) (url t) =
    (let i = common f t; u = url (replicate (length f - i) ''..'' @ drop i t) in if u = [] then ''./'' else u)"
proof -
  have "(if JoinWith ''/'' (drop i t) \<noteq> [] then JoinWith ''/'' (drop i t) @ ''/'' else JoinWith ''/'' (drop i t)) = url (drop i t)" for i
  proof (cases "drop i t")
    case (Cons w ws)
    then have "w \<noteq> []" using assms(2) by (metis in_set_dropD list.set_intros(1) list_all_iff proper_def)
    then have "JoinWith ''/'' (w # ws) \<noteq> []" by (cases ws) simp_all
    then show ?thesis unfolding Cons by (simp add: url_join del: url_simps(2))
  qed simp
  then show ?thesis
    by (simp add: relURL_def Let_def url_elems_url assms up_url del: append_is_Nil_conv)
qed

lemma relURL_follows:
  assumes "list_all proper f" "list_all proper t"
  shows "follow f (relURL (url f) (url t)) = t"
proof -
  define i k where "i = common f t" and "k = length f - common f t"
  have i: "take i f = take i t" "i \<le> length f" using common_take [of f t] by (simp_all add: i_def)
  have d: "list_all proper (drop i t)" using assms(2) by (auto simp: list_all_iff dest: in_set_dropD)
  then have s: "Split (url (replicate k ''..'' @ drop i t)) (CHR ''/'') = (replicate k ''..'' @ drop i t) @ [[]]"
    using proper_no_slash [OF d] by (intro Split_url) (auto simp: list_all_iff)
  have to: "foldl follow_elem f ((replicate k ''..'' @ drop i t) @ [[]]) = t"
    using i d by (simp add: follow_up follow_down k_def i_def [symmetric]) (simp add: follow_elem_def)
  show ?thesis
  proof (cases "replicate k ''..'' @ drop i t = []")
    case True
    then have "f = t" using i by (auto simp: k_def i_def [symmetric])
    moreover have "relURL (url f) (url t) = ''./''"
      unfolding relURL_url [OF assms] Let_def i_def [symmetric] using True by (simp add: k_def i_def)
    ultimately show ?thesis by (simp add: follow_def follow_elem_def)
  next
    case False
    then have "relURL (url f) (url t) = url (replicate k ''..'' @ drop i t)"
      unfolding relURL_url [OF assms] Let_def i_def [symmetric] k_def [folded i_def, symmetric] by (auto simp del: url_simps)
    then show ?thesis using s to by (simp add: follow_def)
  qed
qed

text \<open>A page's path and where its URL is: an index page stands for its directory.\<close>

definition page_path :: "string list \<Rightarrow> string \<Rightarrow> string" where
  "page_path ds b = url ds @ b @ ''.md''"

definition site :: "string list \<Rightarrow> string \<Rightarrow> string list" where
  "site ds b = (if b = ''_index'' then ds else ds @ [b])"

lemma url_ends: "ds = [] \<or> (\<exists>s. url ds = s @ ''/'')"
  using url_join [of ds] by auto

lemma rev_path: "CHR ''/'' \<notin> set w \<Longrightarrow> dropWhile (\<lambda>c. c \<noteq> CHR ''/'') (rev (url ds @ w)) = rev (url ds)"
  using url_ends [of ds] by (subst rev_append, subst dropWhile_append2) auto

lemma rev_file: "CHR ''/'' \<notin> set w \<Longrightarrow> takeWhile (\<lambda>c. c \<noteq> CHR ''/'') (rev (url ds @ w)) = rev w"
  using url_ends [of ds] by (subst rev_append, subst takeWhile_append2) auto

lemma Base_page: "CHR ''/'' \<notin> set b \<Longrightarrow> path_Base (page_path ds b) = b @ ''.md''"
  using rev_file [of "b @ ''.md''" ds] by (simp add: path_Base_def page_path_def Let_def)

lemma clean_proper: "list_all proper ws \<Longrightarrow> foldl (clean_elem r) out ws = rev ws @ out"
  by (induction ws arbitrary: out) (auto simp: clean_elem_def proper_def)

lemma clean_up: "list_all proper out \<Longrightarrow> k \<le> length out \<Longrightarrow> foldl (clean_elem r) out (replicate k ''..'') = drop k out"
proof (induction k arbitrary: out)
  case (Suc k)
  then show ?case by (cases out) (auto simp: clean_elem_def proper_def)
qed simp

lemma not_rooted: "proper w \<Longrightarrow> \<not> HasPrefix (w @ s) ''/''"
  by (cases w) (auto simp: proper_def)

lemma Dir_page:
  assumes "list_all proper ds" "CHR ''/'' \<notin> set b"
  shows "path_Dir (page_path ds b) = (if ds = [] then ''.'' else JoinWith ''/'' ds)"
proof -
  have "path_Dir (page_path ds b) = path_Clean (url ds)"
    using rev_path [of "b @ ''.md''" ds] assms(2) by (simp add: path_Dir_def page_path_def)
  moreover have "\<not> HasPrefix (url ds) ''/''"
    using assms(1) by (cases ds) (simp_all add: not_rooted HasPrefix_def [of "[]"])
  moreover have "foldl (clean_elem r) [] (Split (url ds) (CHR ''/'')) = rev ds" for r
    using assms(1) by (simp add: Split_url proper_no_slash clean_proper) (simp add: clean_elem_def)
  ultimately show ?thesis by (simp add: path_Clean_def Let_def)
qed

lemma join_not_dot: "list_all proper ds \<Longrightarrow> ds \<noteq> [] \<Longrightarrow> JoinWith ''/'' ds \<noteq> ''.''"
  using Split_join [of ds] proper_no_slash [of ds] by (auto simp: proper_def)

lemma pageURL_page:
  assumes "list_all proper ds" "proper b"
  shows "pageURL (page_path ds b) = url (site ds b)" "list_all proper (site ds b)"
proof -
  have b: "CHR ''/'' \<notin> set b" using assms(2) by (simp add: proper_def)
  have ix: "b @ ''.md'' = ''_index.md'' \<longleftrightarrow> b = ''_index''" using append_same_eq [of b "''.md''" "''_index''"] by simp
  have "TrimSuffix (page_path ds b) ''.md'' = url ds @ b" using TrimSuffix_append [of "url ds @ b" "''.md''"] by (simp add: page_path_def)
  then show "pageURL (page_path ds b) = url (site ds b)"
    using assms(1) join_not_dot [OF assms(1)]
    by (simp add: pageURL_def Base_page [OF b] Dir_page [OF assms(1)] b ix site_def url_join)
  show "list_all proper (site ds b)" using assms by (simp add: site_def)
qed

text \<open>A link as an author writes it: up some directories, then down to a page.\<close>

definition link_text :: "nat \<Rightarrow> string list \<Rightarrow> string \<Rightarrow> string" where
  "link_text k ts c = url (replicate k ''..'') @ page_path ts c"

lemma target_page:
  assumes "list_all proper ds" "proper b" "k \<le> length ds" "list_all proper ts" "proper c"
  shows "target_of (page_path ds b) (link_text k ts c) = page_path (take (length ds - k) ds @ ts) c"
proof -
  define cs where "cs = ts @ [c @ ''.md'']"
  have b: "CHR ''/'' \<notin> set b" and c: "list_all proper cs"
    using assms(2,4,5) by (auto simp: proper_def cs_def list_all_iff)
  have path: "page_path us c = JoinWith ''/'' (us @ [c @ ''.md''])" for us
    using url_join [of "us @ [c @ ''.md'']"] by (simp add: page_path_def)
  define el where "el = (if ds = [] then [''.''] else ds) @ replicate k ''..'' @ cs"
  have whole: "JoinWith ''/'' (filter (\<lambda>w. w \<noteq> []) [path_Dir (page_path ds b), link_text k ts c]) = JoinWith ''/'' el"
  proof -
    have "JoinWith ''/'' ds \<noteq> []" if "ds \<noteq> []" using Split_join [OF that proper_no_slash [OF assms(1)]] that assms(1)
      by (auto simp: proper_def)
    then have "path_Dir (page_path ds b) \<noteq> []" by (simp add: Dir_page [OF assms(1) b])
    moreover have "link_text k ts c \<noteq> []" by (simp add: link_text_def page_path_def)
    moreover have "path_Dir (page_path ds b) @ ''/'' = url (if ds = [] then [''.''] else ds)"
      by (simp add: Dir_page [OF assms(1) b] url_join)
    moreover have "JoinWith ''/'' (filter (\<lambda>w. w \<noteq> []) [x, y]) = (x @ ''/'') @ y" if "x \<noteq> []" "y \<noteq> []" for x y :: string
      using that by simp
    ultimately have "JoinWith ''/'' (filter (\<lambda>w. w \<noteq> []) [path_Dir (page_path ds b), link_text k ts c]) =
        url (if ds = [] then [''.''] else ds) @ link_text k ts c"
      by (metis (no_types))
    then have "JoinWith ''/'' (filter (\<lambda>w. w \<noteq> []) [path_Dir (page_path ds b), link_text k ts c]) @ ''/'' =
        url (if ds = [] then [''.''] else ds) @ url (replicate k ''..'') @ url cs"
      by (simp add: link_text_def page_path_def cs_def)
    then have "JoinWith ''/'' (filter (\<lambda>w. w \<noteq> []) [path_Dir (page_path ds b), link_text k ts c]) @ ''/'' = url el"
      by (simp only: el_def url_simps(3))
    then show ?thesis by (simp add: url_join el_def cs_def del: url_simps)
  qed
  have sl: "list_all (\<lambda>w. CHR ''/'' \<notin> set w) el"
    using proper_no_slash [OF assms(1)] proper_no_slash [OF c] by (auto simp: el_def list_all_iff)
  have nr: "\<not> HasPrefix (JoinWith ''/'' el) ''/''"
  proof (cases el)
    case (Cons w ws)
    then have "w = ''.'' \<or> proper w"
      using assms(1,3) by (cases ds) (auto simp: el_def)
    then show ?thesis unfolding Cons by (cases ws) (auto simp: not_rooted [of w "[]", simplified] not_rooted HasPrefix_def [of "[]"])
  qed (simp add: el_def cs_def)
  have "foldl (clean_elem False) [] el = rev cs @ drop k (rev ds)"
    using assms(1,3) c by (cases "ds = []") (simp_all add: el_def clean_proper clean_up, simp add: clean_elem_def)
  moreover have "el \<noteq> []" by (simp add: el_def cs_def)
  ultimately have "path_Clean (JoinWith ''/'' el) = JoinWith ''/'' (take (length ds - k) ds @ ts @ [c @ ''.md''])"
    using sl nr by (simp add: path_Clean_def Let_def Split_join cs_def rev_drop)
  moreover have "link_text k ts c \<noteq> []" by (simp add: link_text_def page_path_def)
  ultimately show ?thesis
    using whole path [of "take (length ds - k) ds @ ts"] by (simp add: target_of_def path_Join_def)
qed

lemma url_bytes: "list_all (list_all link_byte) ws \<Longrightarrow> list_all link_byte (url ws)"
  by (induction ws) (simp_all add: link_byte_def)

lemma link_bytes:
  assumes "list_all (list_all link_byte) (ds @ [c])"
  shows "list_all link_byte (link_text k ds c)"
proof -
  have "list_all (list_all link_byte) (replicate k ''..'')" by (induction k) (simp_all add: link_byte_def)
  moreover have "list_all link_byte ''.md''" "list_all (list_all link_byte) ds" "list_all link_byte c"
    using assms by (simp_all add: link_byte_def)
  ultimately show ?thesis by (simp add: link_text_def page_path_def url_bytes del: list.pred_inject(2))
qed

lemma run_ends:
  assumes "list_all P xs" "\<not> P d"
  shows "takeWhile P (xs @ d # s) = xs" "dropWhile P (xs @ d # s) = d # s"
  using assms by (induction xs) simp_all

lemma md_link_file:
  assumes "list_all link_byte file" "4 \<le> length file" "HasPrefix (rev file) (rev ''.md'')"
    and "frag = [] \<or> (\<exists>f. frag = CHR ''#'' # f \<and> CHR '')'' \<notin> set f)"
  shows "md_link (''](''  @ file @ frag @ '')'' @ rest) = Some (file, frag, rest)"
proof -
  have head: "md_link (''](''  @ s) = (case dropWhile link_byte s of [] \<Rightarrow> None | c # r1 \<Rightarrow>
      if c = CHR '')'' then Some (file, [], r1)
      else if c = CHR ''#'' then
        (case dropWhile (\<lambda>c. c \<noteq> CHR '')'') r1 of [] \<Rightarrow> None
         | _ # r2 \<Rightarrow> Some (file, c # takeWhile (\<lambda>c. c \<noteq> CHR '')'') r1, r2))
      else None)" if "takeWhile link_byte s = file" for s
    using that assms(2,3) by (simp add: md_link_def HasPrefix_def [of "CHR '']'' # _"])
  have stops: "\<not> link_byte (CHR '')'')" "\<not> link_byte (CHR ''#'')" by (simp_all add: link_byte_def)
  from assms(4) show ?thesis
  proof (elim disjE exE conjE)
    assume "frag = []"
    then show ?thesis using head [OF run_ends(1) [OF assms(1) stops(1)]] by (simp add: run_ends [OF assms(1) stops(1)])
  next
    fix f assume f: "frag = CHR ''#'' # f" "CHR '')'' \<notin> set f"
    have "list_all (\<lambda>c. c \<noteq> CHR '')'') f" using f(2) by (auto simp: list_all_iff)
    note r = run_ends [OF this, of "CHR '')''" rest, simplified]
    show ?thesis using head [OF run_ends(1) [OF assms(1) stops(2)]] by (simp add: f(1) run_ends [OF assms(1) stops(2)] r)
  qed
qed

lemma convert_text: "CHR '']'' \<notin> set pre \<Longrightarrow> convert_links rel (pre @ s) = pre @ convert_links rel s"
proof (induction pre)
  case (Cons c pre)
  have "md_link (c # pre @ s) = None" using Cons.prems by (auto simp: md_link_def HasPrefix_def)
  then show ?case using Cons by (subst convert_links.simps) simp
qed simp

text \<open>A link still leads to the page it was written for: a link from one page of the reference to another, up
  some directories and down others, with or without a fragment, becomes a reference that a browser
  follows from the URL of the first page to the URL of the second; the fragment and the text around the
  link stay.\<close>

theorem exported_link_leads_there:
  assumes "list_all proper ds" "proper b" "k \<le> length ds" "list_all proper ts" "proper c"
    and "list_all (list_all link_byte) (ts @ [c])" "CHR '']'' \<notin> set pre"
    and "frag = [] \<or> (\<exists>f. frag = CHR ''#'' # f \<and> CHR '')'' \<notin> set f)"
  shows "\<exists>ref. convert_links (page_path ds b) (pre @ ''](''  @ link_text k ts c @ frag @ '')'' @ rest) =
      pre @ ''](''  @ ref @ frag @ '')'' @ convert_links (page_path ds b) rest \<and>
    follow (site ds b) ref = site (take (length ds - k) ds @ ts) c"
proof (intro exI conjI)
  let ?ref = "relURL (pageURL (page_path ds b)) (pageURL (page_path (take (length ds - k) ds @ ts) c))"
  have us: "list_all proper (take (length ds - k) ds @ ts)" using assms(1,4) by (auto simp: list_all_iff dest: in_set_takeD)
  note here = pageURL_page [OF assms(1,2)] and there = pageURL_page [OF us assms(5)]
  show "follow (site ds b) ?ref = site (take (length ds - k) ds @ ts) c"
    by (simp add: here(1) there(1) relURL_follows here(2) there(2))
  have len: "4 \<le> length (link_text k ts c)" "HasPrefix (rev (link_text k ts c)) (rev ''.md'')"
    using assms(5) by (auto simp: link_text_def page_path_def proper_def HasPrefix_def Suc_le_eq)
  have "md_link (''](''  @ link_text k ts c @ frag @ '')'' @ rest) = Some (link_text k ts c, frag, rest)"
    using len assms(8) by (intro md_link_file link_bytes assms(6))
  then have "convert_links (page_path ds b) (''](''  @ link_text k ts c @ frag @ '')'' @ rest) =
      ''](''  @ ?ref @ frag @ '')'' @ convert_links (page_path ds b) rest"
    by (subst convert_links.simps) (simp add: new_link_def target_page [OF assms(1-5)])
  then show "convert_links (page_path ds b) (pre @ ''](''  @ link_text k ts c @ frag @ '')'' @ rest) =
      pre @ ''](''  @ ?ref @ frag @ '')'' @ convert_links (page_path ds b) rest"
    by (simp add: convert_text [OF assms(7)])
qed

lemma example_converted:
  assumes "Cut (body @ example_end @ rest) example_end = (body, rest, True)"
  shows "convert_examples (example_head @ body @ example_end @ rest) =
    ''{{< code >}}'' @ nl @ nl @ example_head @ body @ example_end @ nl @ ''{{< /code >}}'' @ nl @ convert_examples rest"
proof -
  have "example_head \<noteq> []" by (simp add: example_head_def)
  then show ?thesis using assms by (subst convert_examples.simps) simp
qed

section \<open>The tree of pages\<close>

text \<open>
  \<open>export\<close> once both trees are open: what the walk meets is an error or a name with whether it is a
  directory; reading, making a directory and writing may fail. The result is the count, the pages
  written, and the error that ended the walk.
\<close>

fun export_pages ::
  "(string \<Rightarrow> 'e + string) \<Rightarrow> (string \<Rightarrow> 'e option) \<Rightarrow> (string \<Rightarrow> 'e option) \<Rightarrow> ('e + string \<times> bool) list \<Rightarrow>
   nat \<times> (string \<times> string) list \<times> 'e option"
where
  "export_pages read mkdir write [] = (0, [], None)"
| "export_pages read mkdir write (Inl e # es) = (0, [], Some e)"
| "export_pages read mkdir write (Inr (p, isDir) # es) =
     (if isDir \<or> \<not> HasPrefix (rev p) (rev ''.md'') then export_pages read mkdir write es
      else case read p of Inl e \<Rightarrow> (0, [], Some e)
      | Inr data \<Rightarrow> (case mkdir (path_Dir p) of Some e \<Rightarrow> (0, [], Some e)
        | None \<Rightarrow> (case write p of Some e \<Rightarrow> (1, [], Some e)
          | None \<Rightarrow> (let (n, out, err) = export_pages read mkdir write es in (n + 1, (p, convert p data) # out, err)))))"

text \<open>Every page written is the converted page of the same name, and without an error every Markdown file of
  the tree was written and counted.\<close>

theorem export_complete:
  assumes "export_pages read mkdir write es = (n, out, err)"
  shows "(\<forall>(p, s) \<in> set out. \<exists>data. read p = Inr data \<and> s = convert p data) \<and>
    (err = None \<longrightarrow> n = length out \<and>
       map fst out = map fst (filter (\<lambda>(p, isDir). \<not> isDir \<and> HasPrefix (rev p) (rev ''.md'')) (map projr es)))"
  using assms
proof (induction es arbitrary: n out err)
  case (Cons e es)
  show ?case
  proof (cases e)
    case (Inr q)
    obtain n' out' err' where r: "export_pages read mkdir write es = (n', out', err')" by (metis prod_cases3)
    show ?thesis using Cons.prems Cons.IH [OF r]
      by (cases q) (auto simp: Inr r dest: sym [of "Some _"] split: if_splits sum.splits option.splits)
  qed (use Cons.prems in auto)
qed simp

text \<open>Three pages of the reference.\<close>

lemma exported_pages:
  "convert ''call/trace.md'' ''See [d](../device/_index.md#close).'' = ''See [d](../../device/#close).''"
  "convert ''_index.md'' ''[o](options.md)'' = ''[o](options/)''"
  "convert ''device/call.md'' ''[x](call.md) [y](https://k6.io/a.md)'' = ''[x](./) [y](https://k6.io/a.md)''"
  by code_simp+

end
