(* ===== verification/Subscribers.thy ===== *)
theory Subscribers
  imports Registrar
begin

text \<open>
  The test PBX as a command, \<open>cmd/testpbx/main.go\<close>: the subscribers it generates and the rows of the file
  it writes for the scripts, and what it prints. Flags, the signal handler and \<open>encoding/csv\<close> are not modelled: a
  row is the list of its fields.
\<close>

definition generated_user :: "int \<Rightarrow> string \<Rightarrow> nat \<Rightarrow> pbx_user" where
  "generated_user firstExt pass i =
     \<lparr>uName = ''user'' @ Itoa (int i + 1), uPassword = pass, uExt = Itoa (firstExt + int i)\<rparr>"

definition generated_users :: "nat \<Rightarrow> int \<Rightarrow> string \<Rightarrow> pbx_user list" where
  "generated_users n firstExt pass = map (generated_user firstExt pass) [0..<n]"

definition command_pbx :: "string \<Rightarrow> string \<Rightarrow> bool \<Rightarrow> pbx_user list \<Rightarrow> registrar" where
  "command_pbx host domain auth us =
     Start_registrar host \<lparr>pbxDomain = domain, pbxUsers = us, AuthRegister = auth, AuthInvite = auth\<rparr>"

definition csv_row :: "string \<Rightarrow> string \<Rightarrow> pbx_user \<Rightarrow> string list" where
  "csv_row addr domain u =
     [''phone-'' @ uName u, ''sip:'' @ addr, uName u @ ''@'' @ domain, uPassword u, ''300'', uExt u]"

definition csv_rows :: "string \<Rightarrow> registrar \<Rightarrow> pbx_user list \<Rightarrow> string list list" where
  "csv_rows addr p us =
     [''device'', ''registrar'', ''user'', ''pass'', ''expires'', ''ext''] # map (csv_row addr (pbxDomain (pcfg p))) us"

text \<open>
  What the command prints: a line when it has started, and at each tick of five seconds a line with the
  counters when INVITEs came since the last one; \<open>lastInv\<close> is the count of the last line.
\<close>

definition started_line :: "string \<Rightarrow> nat \<Rightarrow> int \<Rightarrow> registrar \<Rightarrow> string" where
  "started_line addr n firstExt p =
     ''testpbx on '' @ addr @ '', domain '' @ pbxDomain (pcfg p) @ '', '' @ Itoa (int n) @ '' users (ext '' @ Itoa firstExt @
     ''..'' @ Itoa (firstExt + int n - 1) @ '')''"

definition stats_tick :: "registrar \<Rightarrow> string list \<times> int \<Rightarrow> string list \<times> int" where
  "stats_tick p st =
     (case st of (out, lastInv) \<Rightarrow>
        if InvitesSeen p \<noteq> lastInv
        then (out @ [''registers='' @ Itoa (Registers p) @ '' invites='' @ Itoa (InvitesSeen p) @
                     '' answered='' @ Itoa (AnsweredCalls p)], InvitesSeen p)
        else st)"

text \<open>However many ticks there are, a line is printed for each value the count of INVITEs was seen to change to.\<close>

lemma stats_lines:
  "length (fst (fold stats_tick ps (out, l))) =
     length out + length (filter (\<lambda>(a, b). a \<noteq> b) (zip (l # map InvitesSeen ps) (map InvitesSeen ps))) \<and>
   snd (fold stats_tick ps (out, l)) = last (l # map InvitesSeen ps)"
  by (induction ps arbitrary: out l) (simp_all add: stats_tick_def)

section \<open>Every row is a subscriber\<close>

lemma Itoa_eq: "\<bar>a\<bar> < 2 ^ 63 \<Longrightarrow> \<bar>b\<bar> < 2 ^ 63 \<Longrightarrow> Itoa a = Itoa b \<longleftrightarrow> a = b"
  by (metis Atoi_Itoa abs_less_iff fst_conv minus_less_iff less_imp_le)

lemma add_user_fields [simp]:
  "users (add_user u p) = (users p)(uName u \<mapsto> u)" "pcfg (add_user u p) = pcfg p"
  "exts (add_user u p) = (if uExt u \<noteq> [] then (exts p)(uExt u \<mapsto> u) else exts p)"
  by (simp_all add: add_user_def)

lemma add_users_other:
  "x \<notin> uName ` set us \<Longrightarrow> users (fold add_user us p) x = users p x"
  "y \<notin> uExt ` set us \<Longrightarrow> exts (fold add_user us p) y = exts p y"
  by (induction us arbitrary: p) auto

lemma add_users_found:
  assumes "distinct (map uName us)" "distinct (map uExt us)" "u \<in> set us" "uExt u \<noteq> []"
  shows "users (fold add_user us p) (uName u) = Some u" "exts (fold add_user us p) (uExt u) = Some u"
proof -
  obtain as bs where us: "us = as @ u # bs" using assms(3) by (meson split_list)
  have "uName u \<notin> uName ` set bs" "uExt u \<notin> uExt ` set bs" using assms(1,2) by (auto simp: us)
  then show "users (fold add_user us p) (uName u) = Some u" "exts (fold add_user us p) (uExt u) = Some u"
    using assms(4) by (simp_all add: us add_users_other)
qed

lemma Itoa_nonempty: "Itoa i \<noteq> []"
  by (simp add: Itoa_def FormatNat.simps)

lemma generated_distinct:
  assumes "\<bar>firstExt\<bar> + int n < 2 ^ 63"
  shows "distinct (map uName (generated_users n firstExt pass))" "distinct (map uExt (generated_users n firstExt pass))"
  using assms by (auto simp: generated_users_def generated_user_def distinct_map inj_on_def Itoa_eq)

text \<open>Each row of the file names a subscriber of the PBX that was started with the same flags: the user part
  of its address is the name the registrar knows, with the password of the row, and the extension of the
  row reaches it.\<close>

theorem rows_are_subscribers:
  assumes "\<bar>firstExt\<bar> + int n < 2 ^ 63" "domain \<noteq> []" "row \<in> set (tl (csv_rows addr p us))"
    and "us = generated_users n firstExt pass" "p = command_pbx host domain auth us"
  obtains u where "row ! 2 = uName u @ ''@'' @ domain" "row ! 3 = uPassword u" "users p (uName u) = Some u"
    "lookup_user (row ! 5) p = Some u" "callerID u = row ! 5"
proof -
  have c: "pbxDomain (pcfg p) = domain"
  proof -
    have "pcfg (fold add_user vs q) = pcfg q" for vs q by (induction vs arbitrary: q) simp_all
    then show ?thesis using assms(2,5) by (simp add: command_pbx_def Start_registrar_def)
  qed
  obtain u where u: "u \<in> set us" "row = csv_row addr domain u" using assms(3) c by (auto simp: csv_rows_def)
  have e: "uExt u \<noteq> []" using u(1) assms(4) by (auto simp: generated_users_def generated_user_def Itoa_nonempty)
  have "users p (uName u) = Some u \<and> exts p (uExt u) = Some u"
    using add_users_found [OF generated_distinct [OF assms(1), of pass] u(1) [unfolded assms(4)] e] assms(2,4,5)
    by (simp add: command_pbx_def Start_registrar_def)
  then show ?thesis using that [of u] u(2) e by (simp add: csv_row_def lookup_user_def callerID_def)
qed

end
