(* ===== verification/Spec2Isabelle.thy ===== *)
theory Spec2Isabelle
  imports RtpLink Scheduler Pbx CallSpec Lifecycle Requests Waits DocExport Subscribers
begin

text \<open>
  Verification of xk6-sip, a k6 extension that makes SIP calls with real audio to load-test PBXs.

  \<^bold>\<open>The program.\<close> A test script (JavaScript in k6) creates devices and calls through the package
  \<open>xk6sip\<close> (\<open>module.go\<close>, \<open>jsdevice.go\<close>, \<open>jscall.go\<close>, \<open>jsmedia.go\<close>, \<open>args.go\<close>). These drive the package
  \<open>engine\<close>: an Engine holds Devices, a Device registers, receives requests and owns Calls, a Call has
  an INVITE client or server dialog and an RTP stream of the package \<open>media\<close>, which the shared
  Scheduler makes send. Events go back through an Observer to the metrics (\<open>metrics.go\<close>). The package
  \<open>testpbx\<close> is a small registrar and back-to-back user agent that the tests call through.

  \<^bold>\<open>The theories.\<close> A Go struct is a record, an enumeration a datatype, a fixed-width integer that can
  overflow a word, a function that returns an error a sum, and a method a function from the old state
  to the new one. The names are those of the source unless they clash.

  \<^item> \<open>Prelude\<close>, \<open>GoLib\<close>: the integer types, collections of rules, and the functions of Go's \<open>strings\<close>,
    \<open>strconv\<close> and \<open>net\<close> that the program uses.
  \<^item> \<open>G711\<close>, \<open>Codec\<close> (\<open>media/g711.go\<close>, \<open>codec.go\<close>): companding at 8 and 16 bits and the choice of
    codecs. Locale \<open>companding\<close>, interpreted on both laws: decoding what was encoded is off by at
    most a 32nd of the sample plus 8, and transcoding once more changes nothing.
  \<^item> \<open>Audio\<close>, \<open>Tones\<close> (\<open>media/audio.go\<close>): the WAV reader with its loop over chunks, whole frames, the
    encoded cache, sine sources.
  \<^item> \<open>Sdp\<close>, \<open>SdpText\<close>, \<open>Negotiation\<close> (\<open>media/sdp.go\<close>, the negotiation of \<open>media/stream.go\<close>): session
    descriptions, rendering and reading, offer and answer. \<open>SdpText\<close> writes down the text format of RFC 4566
    as a reader of its own and proves that the rendered text is of this format and says what was to be said.
    Locale \<open>negotiator\<close>, interpreted on the streams: both ends agree on codec, telephone events and direction.
  \<^item> \<open>RtpStream\<close>, \<open>RtpSend\<close>, \<open>RtpReceive\<close>, \<open>RtpLink\<close> (\<open>media/stream.go\<close>): the state of a stream, the
    packets a tick sends, the parser and statistics of the receiver, and two streams over a network that
    loses packets: audio arrives as it was encoded at its place in the recording, a digit is reported once.
  \<^item> \<open>Recorder\<close> (\<open>media/record.go\<close>): frames placed by their timestamps; after the frame that
    anchors the track the order of arrival does not matter.
  \<^item> \<open>Fft\<close>, \<open>Quality\<close> (\<open>media/quality.go\<close>): the in-place transform is the discrete Fourier transform;
    alignment, spectral score, gaps.
  \<^item> \<open>Scheduler\<close> (\<open>media/scheduler.go\<close>): shards, adding, removing and closing against the tickers.
  \<^item> \<open>Sip\<close>, \<open>Calls\<close>, \<open>CallMachine\<close>, \<open>CallSpec\<close> (\<open>engine/call.go\<close>): messages, the state of a call, its
    critical sections, and a step relation whose steps are these sections and the steps of a thread that
    ends the call. The invariant \<open>sys_ok\<close> holds in every reachable state; locale \<open>simulation\<close>,
    interpreted on this relation, gives the refinement of an abstract call, on which ringing, answering and
    ending the real one act exactly as specified.
  \<^item> \<open>Uac\<close> (\<open>engine/uac.go\<close>, \<open>prack.go\<close>): the loop over the responses to an INVITE with authentication,
    422 and CANCEL, and the requests in its dialog. \<open>Sessions\<close> (\<open>timers.go\<close>), \<open>Dialogs\<close> (\<open>dialog.go\<close>),
    \<open>Transfers\<close> (\<open>transfer.go\<close>), \<open>Requests\<close> (\<open>dialog.go\<close>, \<open>trace.go\<close>): session timers, hold and
    refresh, REFER with its NOTIFYs, one request from end to end.
  \<^item> \<open>Invites\<close> (\<open>device.go\<close>, \<open>call.go\<close>): the life of outgoing and incoming calls on top of these, an
    incoming one against whatever its script does while it rings.
    \<open>Registration\<close>, \<open>Devices\<close> (\<open>device.go\<close>, \<open>engine.go\<close>): start, registration with its timer, destroy;
    addressing, the map of calls (locale \<open>call_registry\<close>) and the inbox of incoming calls (locale \<open>mailbox\<close>).
  \<^item> \<open>Registrar\<close>, \<open>Pbx\<close> (\<open>testpbx\<close>): bindings and digest checks, composed with \<open>Registration\<close>; legs and
    bridges, calls, re-INVITEs, blind and attended transfers as threads whose sections interleave, composed
    with \<open>Dialogs\<close> and \<open>Transfers\<close>.
  \<^item> \<open>Wire\<close> (\<open>engine/netio.go\<close>): traffic counters and detected retransmissions. \<open>Metrics\<close> (\<open>metrics.go\<close>,
    \<open>engine/observer.go\<close>): every event and its samples, over the life of a call, and what
    each metric shows of them by its type, against its documentation.
  \<^item> \<open>CallMedia\<close> (\<open>engine/callmedia.go\<close>), \<open>Script\<close>, \<open>Options\<close> (the script interface), \<open>Lifecycle\<close>
    (\<open>module.go\<close>, \<open>exporter.go\<close>, \<open>Engine.Close\<close>): recordings, arguments and settings, frozen options, and
    the end of a test with all devices leaving the registrar at once.
  \<^item> \<open>Waits\<close> (\<open>WaitDigits\<close>, \<open>WaitHeard\<close>, \<open>ReferredCall\<close>, \<open>ExpectCall\<close>): what scripts wait on. Locale
    \<open>signalled\<close>, with its extension \<open>lasting\<close>, is a channel closed and replaced at every change; it is
    interpreted on the digits of a stream and on the inbox of a device, and no wake-up of either is lost: a
    waiter returns by its own steps from wherever it is.
  \<^item> \<open>DocExport\<close> (\<open>docs/export/main.go\<close>), \<open>Subscribers\<close> (\<open>cmd/testpbx/main.go\<close>): the exported links lead
    where the links of the source led; the rows written for the scripts are subscribers of the PBX.

  \<^bold>\<open>Concurrency.\<close> What runs under one lock is one step. Threads are step relations (\<open>call_step\<close>,
  \<open>mail_step\<close>, the world of the scheduler, the PBX) or explicit schedules (\<open>leave_step\<close>), and the
  theorems hold for all interleavings. Channels are counters of how often they were closed, so that a
  second close, which panics in Go, is a value.

  \<^bold>\<open>Time, fuel and numbers.\<close> Times and durations are nanoseconds as integers; \<open>int\<close> is unbounded except
  where the code's 64 bits can overflow. \<open>float64\<close> is a rational or a real, so results of floating point are
  exact here: the properties of \<open>Quality\<close> and \<open>Tones\<close> do not speak of rounding. Loops are total functions
  with their measures; the threads of the PBX run on a list of what their requests meet, at most six
  sections each.

  \<^bold>\<open>Assumptions.\<close> The network, the clock, random numbers, files, and the libraries \<open>sipgo\<close>, \<open>pion/sdp\<close>,
  \<open>digest\<close>, \<open>sobek\<close>, k6 and Prometheus are arguments of the definitions that use them. Where a theorem
  relies on one of them its hypothesis says how: \<open>pion/sdp\<close> reads every text of the format of RFC 4566 as what
  it says (\<open>pion_sdp\<close>; the format's reader \<open>format_parser\<close> shows that it can hold), a client that knows its password answers a challenge
  with matching credentials (\<open>digest_client\<close>), tokens that \<open>sipgo\<close> generates have no separators, a string
  given to \<open>sobek\<close> as a string comes back as it is.

  \<^bold>\<open>Not modelled.\<close> Opening sockets and wiring handlers into \<open>sipgo\<close> (\<open>Start\<close> of \<open>testpbx\<close>, \<open>open\<close> and
  \<open>waitListening\<close> of \<open>device.go\<close>), the HTTP server of the exporter, the goroutine's read loop, log output,
  the flags, signals and files of \<open>cmd/testpbx\<close> and \<open>docs/export\<close>, and \<open>bench/uamem\<close>, which measures the
  memory of idle devices: they are calls of libraries without logic of their own.
\<close>

end
